(* ===== verification/Prelude.thy ===== *)
theory Prelude
  imports Main "HOL-Library.State_Monad" "HOL-Library.Sublist" "HOL-Library.Multiset"
    "HOL-Library.Char_ord" "HOL-Library.List_Lexorder"
begin

section \<open>Prelude: shared automation, errors, effects\<close>

text \<open>
  What every component of the development shares:
  \<^item> the development's fact collections (\<open>wp\<close> for the rules of the effect logic,
    \<open>go_std\<close> for equations of the Go library model);
  \<^item> Go's \<open>error\<close> values (\<open>gerror\<close>): messages, \<open>%w\<close> wrapping and the
    classes that \<open>errors.Is\<close> and its kin look for;
  \<^item> the effect monad: a program part that talks to the outside world is a
    \<open>(history, result) state\<close>, where the history is the list of the calls made so far,
    each with the answer it got, and a small Hoare logic over it;
  \<^item> generic facts on stable sorting by a key.
\<close>

named_theorems wp "rules of the effect logic, one per way to build a program"
named_theorems go_std "equations of the model of the Go standard library"


subsection \<open>Errors\<close>

text \<open>
  A Go \<open>error\<close> is a value with a message; \<open>fmt.Errorf\<close> with the verb \<open>%w\<close> keeps
  the wrapped error reachable. \<open>Wrapf p e q\<close> is \<open>fmt.Errorf("p%wq", e)\<close>. The other
  constructors are the errors whose class the program asks for: context cancellation
  (\<open>errors.Is(err, context.Canceled)\<close>), API errors (\<open>apierrors.IsNotFound\<close>) and
  operating-system errors (\<open>os.IsNotExist\<close>, \<open>os.ErrExist\<close>, \<open>EWOULDBLOCK\<close>).
\<close>

datatype os_class = ErrExist | ErrNotExist | EWouldBlock | EAgain | OtherOS

datatype gerror =
    Errorf string
  | Wrapf string gerror string
  | ContextCanceled
  | ContextDeadlineExceeded
  | ApiStatus bool string \<comment> \<open>is it NotFound; message\<close>
  | OsError os_class string
  | IoEOF

fun error_string :: "gerror \<Rightarrow> string" where
  "error_string (Errorf m) = m"
| "error_string (Wrapf p e q) = p @ error_string e @ q"
| "error_string ContextCanceled = ''context canceled''"
| "error_string ContextDeadlineExceeded = ''context deadline exceeded''"
| "error_string (ApiStatus nf m) = m"
| "error_string (OsError c m) = m"
| "error_string IoEOF = ''EOF''"

fun root_cause :: "gerror \<Rightarrow> gerror" where
  "root_cause (Wrapf p e q) = root_cause e"
| "root_cause e = e"

definition is_canceled :: "gerror \<Rightarrow> bool" where
  "is_canceled e \<longleftrightarrow> root_cause e = ContextCanceled"

definition is_not_found :: "gerror \<Rightarrow> bool" where
  "is_not_found e \<longleftrightarrow> (case root_cause e of ApiStatus nf _ \<Rightarrow> nf | _ \<Rightarrow> False)"

definition is_os :: "os_class \<Rightarrow> gerror \<Rightarrow> bool" where
  "is_os c e \<longleftrightarrow> (case root_cause e of OsError c' _ \<Rightarrow> c' = c | _ \<Rightarrow> False)"

lemma is_canceled_Wrapf [simp]: "is_canceled (Wrapf p e q) = is_canceled e"
  by (simp add: is_canceled_def)

lemma is_not_found_Wrapf [simp]: "is_not_found (Wrapf p e q) = is_not_found e"
  by (simp add: is_not_found_def)

text \<open>A fallible result: \<open>Inl\<close> the error, \<open>Inr\<close> the value.\<close>

type_synonym 'a result = "gerror + 'a"


subsection \<open>The effect logic\<close>

text \<open>
  \<open>valid P m Q\<close>: from every history that satisfies \<open>P\<close>, the program part \<open>m\<close> ends
  with a result and a history that satisfy \<open>Q\<close>. The rules below are the weakest
  preconditions of the ways a program part is built; \<open>valid_pre\<close> weakens.
\<close>

definition valid :: "('s \<Rightarrow> bool) \<Rightarrow> ('s, 'a) state \<Rightarrow> ('a \<Rightarrow> 's \<Rightarrow> bool) \<Rightarrow> bool" where
  "valid P m Q \<longleftrightarrow> (\<forall>s. P s \<longrightarrow> (case run_state m s of (a, s') \<Rightarrow> Q a s'))"

lemma validI: "(\<And>s a s'. P s \<Longrightarrow> run_state m s = (a, s') \<Longrightarrow> Q a s') \<Longrightarrow> valid P m Q"
  by (auto simp: valid_def)

lemma validD: "valid P m Q \<Longrightarrow> P s \<Longrightarrow> run_state m s = (a, s') \<Longrightarrow> Q a s'"
  by (auto simp: valid_def split: prod.splits)

lemma valid_pre: "valid P' m Q \<Longrightarrow> (\<And>s. P s \<Longrightarrow> P' s) \<Longrightarrow> valid P m Q"
  by (auto simp: valid_def)

lemma valid_post: "valid P m Q' \<Longrightarrow> (\<And>a s. Q' a s \<Longrightarrow> Q a s) \<Longrightarrow> valid P m Q"
  by (auto simp: valid_def split: prod.splits)

lemma valid_return: "valid (Q a) (State_Monad.return a) Q"
  by (simp add: valid_def)

lemma valid_bind:
  "valid P m R \<Longrightarrow> (\<And>a. valid (R a) (f a) Q) \<Longrightarrow> valid P (State_Monad.bind m f) Q"
  by (fastforce simp: valid_def split: prod.splits)


subsection \<open>Programs that only append to the history\<close>

text \<open>
  \<open>emits P m\<close>: running \<open>m\<close> extends the history by calls that all satisfy \<open>P\<close>. This
  is the usual form of a safety property of one handler, and it composes along \<open>bind\<close>.
\<close>

definition emits :: "('c \<Rightarrow> bool) \<Rightarrow> ('c list, 'a) state \<Rightarrow> bool" where
  "emits P m \<longleftrightarrow> (\<forall>h. \<exists>new. snd (run_state m h) = h @ new \<and> list_all P new)"

lemma emits_return [wp]: "emits P (State_Monad.return a)"
  by (simp add: emits_def)

text \<open>In the second part, what the first one returned is known to be a result of it.\<close>

lemma emits_bind_run:
  assumes "emits P m" and "\<And>h a h'. run_state m h = (a, h') \<Longrightarrow> emits P (f a)"
  shows "emits P (State_Monad.bind m f)"
  unfolding emits_def
proof
  fix h
  obtain a h' where run: "run_state m h = (a, h')" by (cases "run_state m h")
  with assms(1) obtain new where 1: "h' = h @ new" "list_all P new"
    by (force simp: emits_def dest: spec [of _ h])
  from assms(2) [OF run] obtain new' where 2: "snd (run_state (f a) h') = h' @ new'" "list_all P new'"
    unfolding emits_def by blast
  show "\<exists>n. snd (run_state (State_Monad.bind m f) h) = h @ n \<and> list_all P n"
    by (rule exI [of _ "new @ new'"]) (use run 1 2 in simp)
qed

lemma emits_bind [wp]:
  "emits P m \<Longrightarrow> (\<And>a. emits P (f a)) \<Longrightarrow> emits P (State_Monad.bind m f)"
  by (rule emits_bind_run)

lemma emits_if [wp]: "(b \<Longrightarrow> emits P m) \<Longrightarrow> (\<not> b \<Longrightarrow> emits P n) \<Longrightarrow> emits P (if b then m else n)"
  by simp

lemma emits_case_sum [wp]:
  "(\<And>e. r = Inl e \<Longrightarrow> emits P (f e)) \<Longrightarrow> (\<And>x. r = Inr x \<Longrightarrow> emits P (g x))
    \<Longrightarrow> emits P (case r of Inl e \<Rightarrow> f e | Inr x \<Rightarrow> g x)"
  by (cases r) auto

lemma emits_case_option [wp]:
  "(r = None \<Longrightarrow> emits P m) \<Longrightarrow> (\<And>x. r = Some x \<Longrightarrow> emits P (g x))
    \<Longrightarrow> emits P (case r of None \<Rightarrow> m | Some x \<Rightarrow> g x)"
  by (cases r) auto

lemma emits_case_prod [wp]:
  "(\<And>x y. p = (x, y) \<Longrightarrow> emits P (f x y)) \<Longrightarrow> emits P (case p of (x, y) \<Rightarrow> f x y)"
  by (cases p) auto

lemma emits_let [wp]: "(\<And>x. x = t \<Longrightarrow> emits P (f x)) \<Longrightarrow> emits P (let x = t in f x)"
  by simp

lemma emits_mono: "emits P m \<Longrightarrow> (\<And>c. P c \<Longrightarrow> Q c) \<Longrightarrow> emits Q m"
  unfolding emits_def by (metis (no_types, lifting) list.pred_mono_strong)

lemma emitsD: "emits P m \<Longrightarrow> \<exists>new. snd (run_state m h) = h @ new \<and> list_all P new"
  by (auto simp: emits_def)

lemma emitsE:
  assumes "emits P m" and "run_state m h = (a, h')"
  obtains new where "h' = h @ new" and "list_all P new"
  using emitsD [OF assms(1), of h] assms(2) by auto


lemma emits_True: "emits P m \<Longrightarrow> emits (\<lambda>_. True) m"
  by (erule emits_mono) simp

lemma emits_conj:
  assumes "emits P m" and "emits Q m"
  shows "emits (\<lambda>c. P c \<and> Q c) m"
  unfolding emits_def
proof
  fix h
  from emitsD [OF assms(1), of h] obtain new where
    1: "snd (run_state m h) = h @ new" "list_all P new" by blast
  from emitsD [OF assms(2), of h] obtain new' where
    2: "snd (run_state m h) = h @ new'" "list_all Q new'" by blast
  from 1 2 have "list_all (\<lambda>c. P c \<and> Q c) new" by (simp add: list_all_iff)
  with 1(1) show "\<exists>new. snd (run_state m h) = h @ new \<and> list_all (\<lambda>c. P c \<and> Q c) new" by blast
qed

text \<open>Taking a run apart at a \<open>bind\<close>.\<close>

lemma run_bindE:
  assumes "run_state (State_Monad.bind m f) h = (x, h')"
  obtains a h1 where "run_state m h = (a, h1)" and "run_state (f a) h1 = (x, h')"
  using assms by (auto split: prod.splits)

text \<open>
  \<open>ends_with Q m\<close>: every run of \<open>m\<close> makes at least one call, and its result and its last call
  satisfy \<open>Q\<close>.
\<close>

definition ends_with :: "('a \<Rightarrow> 'c \<Rightarrow> bool) \<Rightarrow> ('c list, 'a) state \<Rightarrow> bool" where
  "ends_with Q m \<longleftrightarrow> (\<forall>h a h'. run_state m h = (a, h') \<longrightarrow> (\<exists>new c. h' = h @ new @ [c] \<and> Q a c))"

lemma ends_with_bind:
  assumes "emits P m" and "\<And>a. ends_with Q (f a)"
  shows "ends_with Q (State_Monad.bind m f)"
  unfolding ends_with_def
proof (intro allI impI)
  fix h x h' assume "run_state (State_Monad.bind m f) h = (x, h')"
  then obtain a h1 where 1: "run_state m h = (a, h1)" "run_state (f a) h1 = (x, h')"
    by (rule run_bindE)
  from emitsE [OF assms(1) 1(1)] obtain new where "h1 = h @ new" by blast
  moreover from assms(2) 1(2) obtain new' c where "h' = h1 @ new' @ [c]" "Q x c"
    unfolding ends_with_def by blast
  ultimately have "h' = h @ (new @ new') @ [c] \<and> Q x c" by simp
  then show "\<exists>new c. h' = h @ new @ [c] \<and> Q x c" by blast
qed

lemma ends_with_map:
  assumes "ends_with (\<lambda>a c. Q (f a) c) m"
  shows "ends_with Q (State_Monad.bind m (\<lambda>a. State_Monad.return (f a)))"
  unfolding ends_with_def
proof (intro allI impI)
  fix h x h' assume "run_state (State_Monad.bind m (\<lambda>a. State_Monad.return (f a))) h = (x, h')"
  then obtain a where "run_state m h = (a, h')" "x = f a" by (elim run_bindE) auto
  with assms show "\<exists>new c. h' = h @ new @ [c] \<and> Q x c" unfolding ends_with_def by blast
qed

lemma ends_with_cases:
  "(b \<Longrightarrow> ends_with Q m) \<Longrightarrow> (\<not> b \<Longrightarrow> ends_with Q n) \<Longrightarrow> ends_with Q (if b then m else n)"
  "(\<And>e. r = Inl e \<Longrightarrow> ends_with Q (f e)) \<Longrightarrow> (\<And>x. r = Inr x \<Longrightarrow> ends_with Q (g x))
    \<Longrightarrow> ends_with Q (case r of Inl e \<Rightarrow> f e | Inr x \<Rightarrow> g x)"
  "(s = None \<Longrightarrow> ends_with Q k) \<Longrightarrow> (\<And>x. s = Some x \<Longrightarrow> ends_with Q (l x))
    \<Longrightarrow> ends_with Q (case s of None \<Rightarrow> k | Some x \<Rightarrow> l x)"
  "(\<And>x y. p = (x, y) \<Longrightarrow> ends_with Q (w x y)) \<Longrightarrow> ends_with Q (case p of (x, y) \<Rightarrow> w x y)"
  "(\<And>x. x = t \<Longrightarrow> ends_with Q (z x)) \<Longrightarrow> ends_with Q (let x = t in z x)"
  by (auto split: sum.split option.split prod.split)

text \<open>
  One call: the world answers \<open>f h\<close> after the history \<open>h\<close>, and the call with its answer is
  appended to the history.
\<close>

definition ask :: "('c list \<Rightarrow> 'r) \<Rightarrow> ('r \<Rightarrow> 'c) \<Rightarrow> ('c list, 'r) state" where
  "ask f mk = State (\<lambda>h. (f h, h @ [mk (f h)]))"

lemma run_ask [simp]: "run_state (ask f mk) h = (f h, h @ [mk (f h)])"
  by (simp add: ask_def)

lemma emits_ask [wp]: "(\<And>r. P (mk r)) \<Longrightarrow> emits P (ask f mk)"
  by (auto simp: emits_def)

lemma valid_ask [wp]: "valid (\<lambda>h. Q (f h) (h @ [mk (f h)])) (ask f mk) Q"
  by (simp add: valid_def)


subsection \<open>Properties of the appended trace\<close>

text \<open>
  \<open>appends T m\<close>: every run of \<open>m\<close> appends a list of calls that satisfies \<open>T\<close>. For a \<open>T\<close>
  that holds of the empty list and is closed under \<open>@\<close>, the rules are those of \<open>emits\<close>, proved once in
  the locale.
\<close>

definition appends :: "('c list \<Rightarrow> bool) \<Rightarrow> ('c list, 'a) state \<Rightarrow> bool" where
  "appends T m \<longleftrightarrow> (\<forall>h. \<exists>new. snd (run_state m h) = h @ new \<and> T new)"

lemma appendsI:
  "(\<And>h a h'. run_state m h = (a, h') \<Longrightarrow> \<exists>new. h' = h @ new \<and> T new) \<Longrightarrow> appends T m"
  unfolding appends_def by (metis prod.collapse)

lemma appendsE:
  assumes "appends T m" and "run_state m h = (a, h')"
  obtains new where "h' = h @ new" and "T new"
  using assms unfolding appends_def by (metis snd_conv)

lemma emits_appends: "emits P m \<longleftrightarrow> appends (list_all P) m"
  by (simp add: emits_def appends_def)

lemma appends_mono: "appends S m \<Longrightarrow> (\<And>new. S new \<Longrightarrow> T new) \<Longrightarrow> appends T m"
  unfolding appends_def by blast

lemma appends_bind:
  assumes "appends S m" and "\<And>a. appends R (f a)" and "\<And>xs ys. S xs \<Longrightarrow> R ys \<Longrightarrow> T (xs @ ys)"
  shows "appends T (State_Monad.bind m f)"
proof (rule appendsI)
  fix h x h' assume "run_state (State_Monad.bind m f) h = (x, h')"
  then obtain a h1 where 1: "run_state m h = (a, h1)" "run_state (f a) h1 = (x, h')"
    by (rule run_bindE)
  from assms(1) 1(1) obtain xs where "h1 = h @ xs" "S xs" by (rule appendsE)
  moreover from assms(2) 1(2) obtain ys where "h' = h1 @ ys" "R ys" by (rule appendsE)
  ultimately show "\<exists>new. h' = h @ new \<and> T new"
    using assms(3) by (intro exI [of _ "xs @ ys"]) simp
qed

locale trace_property =
  fixes T :: "'c list \<Rightarrow> bool"
  assumes T_Nil: "T []" and T_append: "T xs \<Longrightarrow> T ys \<Longrightarrow> T (xs @ ys)"
begin

lemma appends_return: "appends T (State_Monad.return a)"
  by (simp add: appends_def T_Nil)

lemma appends_seq:
  "appends T m \<Longrightarrow> (\<And>a. appends T (f a)) \<Longrightarrow> appends T (State_Monad.bind m f)"
  by (rule appends_bind [of T _ T]) (auto simp: T_append)

lemma appends_ask: "(\<And>r. T [mk r]) \<Longrightarrow> appends T (ask f mk)"
  by (simp add: appends_def)

lemma appends_cases:
  "(b \<Longrightarrow> appends T m) \<Longrightarrow> (\<not> b \<Longrightarrow> appends T n) \<Longrightarrow> appends T (if b then m else n)"
  "(\<And>e. r = Inl e \<Longrightarrow> appends T (g e)) \<Longrightarrow> (\<And>x. r = Inr x \<Longrightarrow> appends T (k x))
    \<Longrightarrow> appends T (case r of Inl e \<Rightarrow> g e | Inr x \<Rightarrow> k x)"
  "(s = None \<Longrightarrow> appends T m) \<Longrightarrow> (\<And>x. s = Some x \<Longrightarrow> appends T (l x))
    \<Longrightarrow> appends T (case s of None \<Rightarrow> m | Some x \<Rightarrow> l x)"
  "(\<And>x y. p = (x, y) \<Longrightarrow> appends T (w x y)) \<Longrightarrow> appends T (case p of (x, y) \<Rightarrow> w x y)"
  "(\<And>x. x = t \<Longrightarrow> appends T (z x)) \<Longrightarrow> appends T (let x = t in z x)"
  by (auto split: sum.split option.split prod.split)

lemma appends_emits: "emits P m \<Longrightarrow> (\<And>new. list_all P new \<Longrightarrow> T new) \<Longrightarrow> appends T m"
  unfolding emits_appends by (erule appends_mono)

lemmas appends_rules = appends_return appends_seq appends_cases

end

text \<open>
  \<open>at_most w n m\<close>: the calls of a run of \<open>m\<close> weigh at most \<open>n\<close>; with a weight of 1 for some calls and 0
  for the others, that many of them are made.
\<close>

definition at_most :: "('c \<Rightarrow> nat) \<Rightarrow> nat \<Rightarrow> ('c list, 'a) state \<Rightarrow> bool" where
  "at_most w n m \<longleftrightarrow> appends (\<lambda>new. sum_list (List.map w new) \<le> n) m"

lemma at_most_return: "at_most w n (State_Monad.return a)"
  by (simp add: at_most_def appends_def)

lemma at_most_bind:
  "at_most w n m \<Longrightarrow> (\<And>a. at_most w k (f a)) \<Longrightarrow> n + k \<le> l \<Longrightarrow> at_most w l (State_Monad.bind m f)"
  unfolding at_most_def
  by (rule appends_bind [where S = "\<lambda>new. sum_list (List.map w new) \<le> n"
        and R = "\<lambda>new. sum_list (List.map w new) \<le> k"]) simp_all

lemma at_most_mono: "at_most w n m \<Longrightarrow> n \<le> k \<Longrightarrow> at_most w k m"
  unfolding at_most_def by (erule appends_mono) simp

lemma at_most_none: "emits (\<lambda>c. w c = 0) m \<Longrightarrow> at_most w 0 m"
  unfolding at_most_def emits_appends by (erule appends_mono) (simp add: list_all_iff)

lemma at_most_ask: "(\<And>r. w (mk r) \<le> n) \<Longrightarrow> at_most w n (ask f mk)"
  by (simp add: at_most_def appends_def)

text \<open>
  \<open>guarded risky G\<close>: every risky call comes right after a call that, together with it, satisfies
  \<open>G\<close>. \<open>phased P Q\<close>: calls that satisfy \<open>P\<close>, then calls that satisfy \<open>Q\<close>.
\<close>

definition guarded :: "('c \<Rightarrow> bool) \<Rightarrow> ('c \<Rightarrow> 'c \<Rightarrow> bool) \<Rightarrow> 'c list \<Rightarrow> bool" where
  "guarded risky G new \<longleftrightarrow>
     (\<forall>pre c post. new = pre @ c # post \<longrightarrow> risky c \<longrightarrow> pre \<noteq> [] \<and> G (last pre) c)"

lemma guarded_none: "list_all (\<lambda>c. \<not> risky c) new \<Longrightarrow> guarded risky G new"
  by (auto simp: guarded_def)

lemma guarded_pair: "\<not> risky c \<Longrightarrow> (risky d \<Longrightarrow> G c d) \<Longrightarrow> guarded risky G [c, d]"
  by (auto simp: guarded_def Cons_eq_append_conv)

lemma guarded_append:
  assumes "guarded risky G xs" and "guarded risky G ys"
  shows "guarded risky G (xs @ ys)"
  unfolding guarded_def
proof (intro allI impI)
  fix pre c post assume *: "xs @ ys = pre @ c # post" and "risky c"
  then consider us where "xs = pre @ us" "us @ ys = c # post" "us \<noteq> []" | us where "pre = xs @ us" "ys = us @ c # post"
    by (auto simp: append_eq_append_conv2 append_eq_Cons_conv)
  then show "pre \<noteq> [] \<and> G (last pre) c"
  proof cases
    case 1
    then obtain us' where "xs = pre @ c # us'" by (cases us) auto
    with assms(1) \<open>risky c\<close> show ?thesis by (auto simp: guarded_def)
  next
    case 2
    with assms(2) \<open>risky c\<close> have "us \<noteq> [] \<and> G (last us) c" by (auto simp: guarded_def)
    with 2(1) show ?thesis by simp
  qed
qed

interpretation guards: trace_property "guarded risky G" for risky G
  by unfold_locales (simp_all add: guarded_append, simp add: guarded_def)

definition phased :: "('c \<Rightarrow> bool) \<Rightarrow> ('c \<Rightarrow> bool) \<Rightarrow> 'c list \<Rightarrow> bool" where
  "phased P Q new \<longleftrightarrow> (\<exists>xs ys. new = xs @ ys \<and> list_all P xs \<and> list_all Q ys)"

lemma phased_before: "list_all P xs \<Longrightarrow> phased P Q ys \<Longrightarrow> phased P Q (xs @ ys)"
  unfolding phased_def by (metis append.assoc list_all_append)

lemma phased_both: "list_all P xs \<Longrightarrow> list_all Q ys \<Longrightarrow> phased P Q (xs @ ys)"
  unfolding phased_def by blast

lemma phased_first: "list_all P xs \<Longrightarrow> phased P Q xs"
  using phased_both [of P xs Q "[]"] by simp


text \<open>
  \<open>answered opens closes\<close>: every call that opens something is followed, later in the trace, by a call
  that closes it. \<open>while_held takes drops risky\<close>: a risky call happens only while the thing is held: it was
  taken before, and not dropped since.
\<close>

definition answered :: "('c \<Rightarrow> bool) \<Rightarrow> ('c \<Rightarrow> 'c \<Rightarrow> bool) \<Rightarrow> 'c list \<Rightarrow> bool" where
  "answered opens closes new \<longleftrightarrow>
     (\<forall>pre c post. new = pre @ c # post \<longrightarrow> opens c \<longrightarrow> (\<exists>d \<in> set post. closes c d))"

lemma answered_none: "list_all (\<lambda>c. \<not> opens c) new \<Longrightarrow> answered opens closes new"
  by (auto simp: answered_def)

lemma append_split:
  assumes "xs @ ys = pre @ c # post"
  obtains (left) us where "xs = pre @ c # us" "post = us @ ys"
    | (right) us where "ys = us @ c # post" "pre = xs @ us"
  using assms by (auto simp: append_eq_append_conv2 append_eq_Cons_conv Cons_eq_append_conv)

lemma answered_append:
  "answered opens closes xs \<Longrightarrow> answered opens closes ys \<Longrightarrow> answered opens closes (xs @ ys)"
  unfolding answered_def by (intro allI impI, erule append_split) fastforce+

lemma answered_bracket:
  assumes "answered opens closes mid" and "opens c \<Longrightarrow> \<exists>d \<in> set post. closes c d"
    and "answered opens closes post"
  shows "answered opens closes (c # mid @ post)"
proof -
  have "answered opens closes (mid @ post)" by (rule answered_append) (use assms in auto)
  with assms(2) show ?thesis
    unfolding answered_def by (auto simp: Cons_eq_append_conv)
qed

interpretation answers: trace_property "answered opens closes" for opens closes
  by unfold_locales (simp_all add: answered_append, simp add: answered_def)

definition held :: "('c \<Rightarrow> bool) \<Rightarrow> ('c \<Rightarrow> bool) \<Rightarrow> 'c list \<Rightarrow> bool" where
  "held takes drops pre \<longleftrightarrow> (\<exists>u t v. pre = u @ t # v \<and> takes t \<and> list_all (\<lambda>c. \<not> drops c) v)"

definition while_held :: "('c \<Rightarrow> bool) \<Rightarrow> ('c \<Rightarrow> bool) \<Rightarrow> ('c \<Rightarrow> bool) \<Rightarrow> 'c list \<Rightarrow> bool" where
  "while_held takes drops risky new \<longleftrightarrow>
     (\<forall>pre c post. new = pre @ c # post \<longrightarrow> risky c \<longrightarrow> held takes drops pre)"

lemma held_append: "held takes drops pre \<Longrightarrow> held takes drops (xs @ pre)"
  unfolding held_def by (metis append.assoc)

lemma held_snoc: "held takes drops pre \<Longrightarrow> \<not> drops c \<Longrightarrow> held takes drops (pre @ [c])"
  unfolding held_def by (force intro: exI [of _ "_ @ [c]"])

lemma while_held_none: "list_all (\<lambda>c. \<not> risky c) new \<Longrightarrow> while_held takes drops risky new"
  by (auto simp: while_held_def)

lemma while_held_append:
  "while_held takes drops risky xs \<Longrightarrow> while_held takes drops risky ys
    \<Longrightarrow> while_held takes drops risky (xs @ ys)"
  unfolding while_held_def by (intro allI impI, erule append_split) (auto intro: held_append)

text \<open>Between taking and dropping, everything is allowed.\<close>

lemma while_held_section:
  assumes "takes t" and "\<not> risky t" and "list_all (\<lambda>c. \<not> drops c) mid"
  shows "while_held takes drops risky (t # mid)"
  unfolding while_held_def
proof (intro allI impI)
  fix pre c post assume *: "t # mid = pre @ c # post" and "risky c"
  with assms(2) obtain us where "pre = t # us" "mid = us @ c # post" by (cases pre) auto
  with assms(1,3) show "held takes drops pre"
    unfolding held_def by (intro exI [of _ "[]"] exI [of _ t] exI [of _ us]) simp
qed

interpretation holding: trace_property "while_held takes drops risky" for takes drops risky
  by unfold_locales (simp_all add: while_held_append, simp add: while_held_def)


subsection \<open>Lists that correspond element by element\<close>

lemma list_all2_mem2: "list_all2 P xs ys \<Longrightarrow> y \<in> set ys \<Longrightarrow> \<exists>x \<in> set xs. P x y"
  by (induction rule: list_all2_induct) auto

lemma list_all2_mem1: "list_all2 P xs ys \<Longrightarrow> x \<in> set xs \<Longrightarrow> \<exists>y \<in> set ys. P x y"
  by (induction rule: list_all2_induct) auto


lemma distinct_set_singleton: "distinct xs \<Longrightarrow> set xs = {x} \<Longrightarrow> xs = [x]"
  by (cases xs; cases "tl xs") auto


subsection \<open>Collecting results\<close>

text \<open>
  A loop that appends the results of its elements and stops at the first error, as a function.
\<close>

fun collect :: "('a \<Rightarrow> 'b list result) \<Rightarrow> 'a list \<Rightarrow> 'b list result" where
  "collect f [] = Inr []"
| "collect f (x # xs) =
     (case f x of
        Inl e \<Rightarrow> Inl e
      | Inr ys \<Rightarrow> (case collect f xs of Inl e \<Rightarrow> Inl e | Inr zs \<Rightarrow> Inr (ys @ zs)))"

lemma collect_append:
  "collect f (xs @ ys) = (case collect f xs of
     Inl e \<Rightarrow> Inl e
   | Inr us \<Rightarrow> (case collect f ys of Inl e \<Rightarrow> Inl e | Inr vs \<Rightarrow> Inr (us @ vs)))"
  by (induction xs) (auto split: sum.split)


subsection \<open>Stable sorting by a key\<close>

text \<open>
  \<open>sort.SliceStable\<close> with a comparison of keys is the library's \<open>sort_key\<close>: sorted by the
  key, a permutation, and stable. Where the keys of the elements are pairwise distinct, any
  sorted permutation is that list, so \<open>sort.Slice\<close>, which is not stable, gives it too.
\<close>

definition sorted_perm :: "('a \<Rightarrow> 'k::linorder) \<Rightarrow> 'a list \<Rightarrow> 'a list \<Rightarrow> bool" where
  "sorted_perm f xs ys \<longleftrightarrow> mset ys = mset xs \<and> sorted (map f ys)"

lemma sorted_perm_sort_key [simp]: "sorted_perm f xs (sort_key f xs)"
  by (simp add: sorted_perm_def)

lemma sorted_perm_unique:
  assumes "sorted_perm f xs ys" and "inj_on f (set xs)"
  shows "ys = sort_key f xs"
proof -
  from assms(1) have m: "mset ys = mset xs" and s: "sorted (map f ys)"
    by (auto simp: sorted_perm_def)
  from m have "set ys = set xs" by (metis set_mset_mset)
  with assms(2) have inj: "inj_on f (set ys)" by simp
  have "sort_key f xs = ys"
  proof (rule properties_for_sort_key)
    fix k assume k: "k \<in> set ys"
    have "filter (\<lambda>x. f k = f x) zs = replicate (count (mset zs) k) k"
      if "set zs = set ys" for zs
    proof -
      from k inj that have "filter (\<lambda>x. f k = f x) zs = filter (\<lambda>x. k = x) zs"
        by (intro filter_cong) (auto dest: inj_onD)
      also have "\<dots> = replicate (count (mset zs) k) k"
        by (induction zs) auto
      finally show ?thesis .
    qed
    then show "filter (\<lambda>x. f k = f x) ys = filter (\<lambda>x. f k = f x) xs"
      using m \<open>set ys = set xs\<close> by simp
  qed (use m s in auto)
  then show ?thesis by simp
qed

lemma sorted_perm_set: "sorted_perm f xs ys \<Longrightarrow> set ys = set xs"
  unfolding sorted_perm_def by (metis set_mset_mset)

end
