(* ===== verification/Go_Std.thy ===== *)
theory Go_Std
  imports Prelude
begin

section \<open>The Go standard library, as far as the program uses it\<close>

text \<open>
  Strings are byte lists (\<open>string\<close>). Case mapping and white space are those of ASCII: the
  program lowers Kubernetes kinds, file extensions and git messages and trims flags and file
  contents; the Unicode letters that Go's \<open>strings.ToLower\<close> would also map, and the two
  non-ASCII white-space characters of \<open>strings.TrimSpace\<close>, are left alone. Comparison of strings
  is byte-wise lexicographic, which is the order of \<open>HOL-Library.List_Lexorder\<close> over
  \<open>HOL-Library.Char_ord\<close>. \<open>time.Duration\<close> and \<open>time.Time\<close> are nanosecond counts (\<open>int\<close>),
  which the program only compares, prints and adds to.
\<close>


subsection \<open>Package strings\<close>

definition HasPrefix :: "string \<Rightarrow> string \<Rightarrow> bool" where
  "HasPrefix s p \<longleftrightarrow> prefix p s"

fun Contains :: "string \<Rightarrow> string \<Rightarrow> bool" where
  "Contains [] sub \<longleftrightarrow> sub = []"
| "Contains (c # s) sub \<longleftrightarrow> prefix sub (c # s) \<or> Contains s sub"

lemma Contains_sublist: "Contains s sub \<longleftrightarrow> sublist sub s"
  by (induction s) (auto simp: sublist_Cons_right)

definition lower_char :: "char \<Rightarrow> char" where
  "lower_char c = (let n = (of_char c :: nat) in if 65 \<le> n \<and> n \<le> 90 then char_of (n + 32) else c)"

definition upper_char :: "char \<Rightarrow> char" where
  "upper_char c = (let n = (of_char c :: nat) in if 97 \<le> n \<and> n \<le> 122 then char_of (n - 32) else c)"

definition ToLower :: "string \<Rightarrow> string" where
  "ToLower = List.map lower_char"

definition ToUpper :: "string \<Rightarrow> string" where
  "ToUpper = List.map upper_char"

definition is_space :: "char \<Rightarrow> bool" where
  "is_space c \<longleftrightarrow> (let n = (of_char c :: nat) in n = 32 \<or> (9 \<le> n \<and> n \<le> 13))"

definition TrimSpace :: "string \<Rightarrow> string" where
  "TrimSpace s = rev (dropWhile is_space (rev (dropWhile is_space s)))"

text \<open>\<open>strings.Split(s, sep)\<close> for a separator of one byte.\<close>

fun Split :: "char \<Rightarrow> string \<Rightarrow> string list" where
  "Split sep [] = [[]]"
| "Split sep (c # s) =
     (if c = sep then [] # Split sep s
      else (case Split sep s of [] \<Rightarrow> [[c]] | w # ws \<Rightarrow> (c # w) # ws))"

fun Join :: "string list \<Rightarrow> string \<Rightarrow> string" where
  "Join [] sep = []"
| "Join [x] sep = x"
| "Join (x # y # xs) sep = x @ sep @ Join (y # xs) sep"

text \<open>\<open>strings.Fields\<close>: the maximal runs of non-space bytes.\<close>

fun Fields_acc :: "string \<Rightarrow> string \<Rightarrow> string list" where
  "Fields_acc w [] = (if w = [] then [] else [rev w])"
| "Fields_acc w (c # s) =
     (if is_space c then (if w = [] then Fields_acc [] s else rev w # Fields_acc [] s)
      else Fields_acc (c # w) s)"

definition Fields :: "string \<Rightarrow> string list" where
  "Fields s = Fields_acc [] s"

text \<open>\<open>strings.ReplaceAll(s, " ", "")\<close>.\<close>

definition RemoveBlanks :: "string \<Rightarrow> string" where
  "RemoveBlanks = filter (\<lambda>c. c \<noteq> CHR '' '')"

lemma of_char_lower_char:
  "(of_char (lower_char c) :: nat) =
     (let n = of_char c in if 65 \<le> n \<and> n \<le> 90 then n + 32 else n)"
  by (simp add: lower_char_def Let_def)

lemmas char_eval = char_of_def bit_Suc_0_iff

lemma lower_char_idem [simp]: "lower_char (lower_char c) = lower_char c"
proof -
  have "(of_char (lower_char (lower_char c)) :: nat) = of_char (lower_char c)"
    by (simp add: of_char_lower_char Let_def)
  then show ?thesis by (simp only: of_char_eq_iff)
qed

lemma ToLower_idem [simp, go_std]: "ToLower (ToLower s) = ToLower s"
  by (simp add: ToLower_def)

lemma ToLower_Nil [simp]: "ToLower [] = []"
  by (simp add: ToLower_def)

lemma ToLower_eq_Nil [simp]: "ToLower s = [] \<longleftrightarrow> s = []"
  by (simp add: ToLower_def)

lemma Split_not_Nil [simp]: "Split sep s \<noteq> []"
  by (cases s) (auto split: list.splits)

lemma Split_no_sep: "w \<in> set (Split sep s) \<Longrightarrow> sep \<notin> set w"
  by (induction s arbitrary: w) (fastforce split: if_splits list.splits)+

lemma Split_id: "sep \<notin> set s \<Longrightarrow> Split sep s = [s]"
  by (induction s) auto

lemma Split_append_sep: "sep \<notin> set w \<Longrightarrow> Split sep (w @ sep # s) = w # Split sep s"
  by (induction w) auto

lemma Join_Split [go_std]: "Join (Split sep s) [sep] = s"
proof (induction s)
  case (Cons c s)
  then show ?case by (cases "Split sep s" rule: list.exhaust) (auto, (case_tac x22; auto)+)
qed simp

lemma Split_Join [go_std]:
  "ws \<noteq> [] \<Longrightarrow> (\<forall>w \<in> set ws. sep \<notin> set w) \<Longrightarrow> Split sep (Join ws [sep]) = ws"
  by (induction ws "[sep]" rule: Join.induct) (auto simp: Split_id Split_append_sep)

lemma dropWhile_space_id: "(s = [] \<or> \<not> is_space (hd s)) \<Longrightarrow> dropWhile is_space s = s"
  by (cases s) auto

lemma TrimSpace_hd: "TrimSpace s \<noteq> [] \<Longrightarrow> \<not> is_space (hd (TrimSpace s))"
proof -
  assume ne: "TrimSpace s \<noteq> []"
  define t where "t = dropWhile is_space s"
  obtain u v where t: "t = u @ v" "u = TrimSpace s"
    using takeWhile_dropWhile_id [of is_space "rev t"]
    by (metis TrimSpace_def rev_append rev_rev_ident t_def)
  have "t \<noteq> []" using t ne by auto
  then have "\<not> is_space (hd t)" unfolding t_def by (rule hd_dropWhile)
  with t ne show ?thesis by simp
qed

lemma TrimSpace_last: "TrimSpace s \<noteq> [] \<Longrightarrow> \<not> is_space (last (TrimSpace s))"
  unfolding TrimSpace_def by (metis hd_dropWhile last_rev rev_is_Nil_conv)

lemma TrimSpace_idem [go_std]: "TrimSpace (TrimSpace s) = TrimSpace s"
proof (cases "TrimSpace s = []")
  case False
  define t where "t = TrimSpace s"
  from False have t: "t \<noteq> []" "\<not> is_space (hd t)" "\<not> is_space (last t)"
    by (auto simp: t_def TrimSpace_hd TrimSpace_last)
  then have "dropWhile is_space t = t" "dropWhile is_space (rev t) = rev t"
    by (simp_all add: dropWhile_space_id hd_rev)
  then show ?thesis by (simp add: TrimSpace_def [of t] flip: t_def)
next
  case True
  show ?thesis unfolding True by (simp add: TrimSpace_def)
qed


text \<open>A first word that is followed by nothing or by a space is the first field.\<close>

lemma Fields_acc_word:
  "list_all (\<lambda>c. \<not> is_space c) w \<Longrightarrow> Fields_acc v (w @ t) = Fields_acc (rev w @ v) t"
  by (induction w arbitrary: v) simp_all

lemma Fields_word:
  assumes "w \<noteq> []" and "list_all (\<lambda>c. \<not> is_space c) w" and "t = [] \<or> is_space (hd t)"
  shows "\<exists>rest. Fields (w @ t) = w # rest"
  using assms Fields_acc_word [of w "[]" "[]"] by (cases t) (auto simp: Fields_def Fields_acc_word)

lemma dropWhile_rev_prefix: "\<exists>t'. rev (dropWhile P (rev t)) = t' \<and> prefix t' t"
  by (metis append_self_conv2 dropWhile_append3 rev_append rev_rev_ident suffix_dropWhile suffix_to_prefix)

lemma TrimSpace_word:
  assumes "w \<noteq> []" and "list_all (\<lambda>c. \<not> is_space c) w" and "t = [] \<or> is_space (hd t)"
  shows "\<exists>t'. TrimSpace (w @ t) = w @ t' \<and> (t' = [] \<or> is_space (hd t'))"
proof -
  have "\<not> is_space (hd w)" using assms(1,2) by (cases w) auto
  then have l: "dropWhile is_space (w @ t) = w @ t" using assms(1) by (intro dropWhile_space_id) simp
  show ?thesis
  proof (cases "\<forall>c \<in> set t. is_space c")
    case True
    have "\<not> is_space (last w)" using assms(1,2) by (simp add: list_all_iff)
    then have "dropWhile is_space (rev w) = rev w" using assms(1) by (intro dropWhile_space_id) (simp add: hd_rev)
    with True l show ?thesis by (intro exI [of _ "[]"]) (simp add: TrimSpace_def dropWhile_append)
  next
    case False
    then have "rev (dropWhile is_space (rev (w @ t))) = w @ rev (dropWhile is_space (rev t))"
      by (auto simp: dropWhile_append)
    moreover obtain t' where t': "rev (dropWhile is_space (rev t)) = t'" "prefix t' t"
      using dropWhile_rev_prefix by blast
    moreover from t'(2) assms(3) have "t' = [] \<or> is_space (hd t')" by (cases t') (auto simp: prefix_def)
    ultimately show ?thesis using l by (auto simp: TrimSpace_def)
  qed
qed

lemma first_field:
  assumes "w \<noteq> []" and "list_all (\<lambda>c. \<not> is_space c) w" and "t = [] \<or> is_space (hd t)"
  shows "\<exists>rest. Fields (TrimSpace (w @ t)) = w # rest"
  using TrimSpace_word [OF assms] Fields_word [OF assms(1,2)] by metis


subsection \<open>Package strconv and the verbs of package fmt\<close>

definition hex_digit :: "nat \<Rightarrow> char" where
  "hex_digit n = ''0123456789abcdef'' ! n"

fun digits_acc :: "nat \<Rightarrow> string \<Rightarrow> string" where
  "digits_acc n acc =
     (let acc' = hex_digit (n mod 10) # acc in if n < 10 then acc' else digits_acc (n div 10) acc')"

declare digits_acc.simps [simp del]

text \<open>The verb \<open>%d\<close> for a non-negative number.\<close>

definition itoa :: "nat \<Rightarrow> string" where
  "itoa n = digits_acc n []"

text \<open>
  The verb \<open>%q\<close>: a double-quoted Go string literal. Bytes from 128 on belong to the
  encoding of a non-ASCII character and are copied, as Go does for printable ones.
\<close>

definition quote_char :: "char \<Rightarrow> string" where
  "quote_char c = (let n = (of_char c :: nat) in
     if c = CHR 0x22 then [CHR 0x5C, CHR 0x22]
     else if c = CHR 0x5C then [CHR 0x5C, CHR 0x5C]
     else if n = 7 then [CHR 0x5C, CHR ''a'']
     else if n = 8 then [CHR 0x5C, CHR ''b'']
     else if n = 12 then [CHR 0x5C, CHR ''f'']
     else if n = 10 then [CHR 0x5C, CHR ''n'']
     else if n = 13 then [CHR 0x5C, CHR ''r'']
     else if n = 9 then [CHR 0x5C, CHR ''t'']
     else if n = 11 then [CHR 0x5C, CHR ''v'']
     else if n < 32 \<or> n = 127 then [CHR 0x5C, CHR ''x'', hex_digit (n div 16), hex_digit (n mod 16)]
     else [c])"

definition Quote :: "string \<Rightarrow> string" where
  "Quote s = [CHR 0x22] @ concat (List.map quote_char s) @ [CHR 0x22]"


subsection \<open>Package time\<close>

definition Nanosecond :: int where "Nanosecond = 1"
definition Millisecond :: int where "Millisecond = 1000000"
definition Second :: int where "Second = 1000000000"

text \<open>\<open>time.Duration.String\<close>: a fraction of \<open>prec\<close> digits without trailing zeros.\<close>

definition frac_string :: "nat \<Rightarrow> nat \<Rightarrow> string" where
  "frac_string prec v =
     (let ds = itoa (v mod 10 ^ prec);
          padded = replicate (prec - length ds) (CHR ''0'') @ ds;
          cut = rev (dropWhile (\<lambda>c. c = CHR ''0'') (rev padded))
      in if prec = 0 \<or> cut = [] then [] else CHR ''.'' # cut)"

definition Duration_String :: "int \<Rightarrow> string" where
  "Duration_String d =
     (let u = nat \<bar>d\<bar>; sign = (if d < 0 then ''-'' else []) in
      if u = 0 then ''0s''
      else if u < 1000 then sign @ itoa u @ ''ns''
      else if u < 1000000 then sign @ itoa (u div 1000) @ frac_string 3 u @ [CHR 0xC2, CHR 0xB5, CHR ''s'']
      else if u < 1000000000 then sign @ itoa (u div 1000000) @ frac_string 6 u @ ''ms''
      else (let secs = u div 1000000000; mins = secs div 60; hours = mins div 60;
                s = itoa (secs mod 60) @ frac_string 9 u @ ''s'' in
            if mins = 0 then sign @ s
            else if hours = 0 then sign @ itoa (mins mod 60) @ ''m'' @ s
            else sign @ itoa hours @ ''h'' @ itoa (mins mod 60) @ ''m'' @ s))"

lemma Duration_String_15s: "Duration_String (15 * Second) = ''15s''"
  by (simp add: Duration_String_def Second_def itoa_def frac_string_def Let_def digits_acc.simps hex_digit_def)

lemma Duration_String_90m: "Duration_String (5400 * Second) = ''1h30m0s''"
  by (simp add: Duration_String_def Second_def itoa_def frac_string_def Let_def digits_acc.simps hex_digit_def)

end
