(* ===== verification/Go_Path.thy ===== *)
theory Go_Path
  imports Go_Std
begin

section \<open>Package path/filepath on Unix\<close>

text \<open>
  \<open>filepath.Clean\<close>, \<open>Join\<close> and \<open>IsAbs\<close>. \<open>Clean\<close> is stated on path components: the
  components are read left to right with a stack; empty ones and \<open>.\<close> are dropped, \<open>..\<close> removes
  the last ordinary component, is dropped at the root of an absolute path, and is kept at the
  front of a relative one. The lemmas give the shape of a cleaned path and what cleaning
  \<open>root/rel\<close> does when \<open>rel\<close> does not climb out of itself.
\<close>

abbreviation dot :: string where "dot \<equiv> ''.''"
abbreviation dotdot :: string where "dotdot \<equiv> ''..''"
abbreviation slash :: char where "slash \<equiv> CHR ''/''"

fun clean_comps :: "bool \<Rightarrow> string list \<Rightarrow> string list \<Rightarrow> string list" where
  "clean_comps rooted st [] = rev st"
| "clean_comps rooted st (c # cs) =
     (if c = [] \<or> c = dot then clean_comps rooted st cs
      else if c = dotdot then
        (case st of
           [] \<Rightarrow> if rooted then clean_comps rooted [] cs else clean_comps rooted [dotdot] cs
         | t # st' \<Rightarrow> if t = dotdot then clean_comps rooted (dotdot # st) cs
                     else clean_comps rooted st' cs)
      else clean_comps rooted (c # st) cs)"

definition IsAbs :: "string \<Rightarrow> bool" where
  "IsAbs p \<longleftrightarrow> HasPrefix p ''/''"

text \<open>The components a path consists of, cleaned, and the path built from cleaned components.\<close>

definition path_comps :: "string \<Rightarrow> string list" where
  "path_comps p = clean_comps (IsAbs p) [] (Split slash p)"

definition path_of :: "bool \<Rightarrow> string list \<Rightarrow> string" where
  "path_of rooted cs =
     (if rooted then slash # Join cs ''/'' else if cs = [] then dot else Join cs ''/'')"

definition Clean :: "string \<Rightarrow> string" where
  "Clean p = (if p = [] then dot else path_of (IsAbs p) (path_comps p))"

text \<open>\<open>filepath.Dir\<close> (all but the last element, cleaned) and \<open>filepath.Ext\<close>.\<close>

definition Dir :: "string \<Rightarrow> string" where
  "Dir p = Clean (rev (dropWhile (\<lambda>c. c \<noteq> slash) (rev p)))"

definition Ext :: "string \<Rightarrow> string" where
  "Ext p = (let t = rev (takeWhile (\<lambda>c. c \<noteq> slash) (rev p)) in
     if CHR ''.'' \<in> set t then CHR ''.'' # rev (takeWhile (\<lambda>c. c \<noteq> CHR ''.'') (rev t)) else [])"

definition PathJoin :: "string list \<Rightarrow> string" where
  "PathJoin es = (case dropWhile (\<lambda>e. e = []) es of [] \<Rightarrow> [] | ne \<Rightarrow> Clean (Join ne ''/''))"


subsection \<open>The shape of a cleaned path\<close>

text \<open>An ordinary component is a real file name.\<close>

definition ordinary :: "string \<Rightarrow> bool" where
  "ordinary c \<longleftrightarrow> c \<noteq> [] \<and> c \<noteq> dot \<and> c \<noteq> dotdot \<and> slash \<notin> set c"

text \<open>The stack holds ordinary components above the leading \<open>..\<close> of a relative path.\<close>

definition clean_shape :: "bool \<Rightarrow> string list \<Rightarrow> bool" where
  "clean_shape rooted cs \<longleftrightarrow>
     (\<exists>n os. cs = replicate n dotdot @ os \<and> list_all ordinary os \<and> (rooted \<longrightarrow> n = 0))"

lemma clean_shape_ordinary [intro]: "list_all ordinary cs \<Longrightarrow> clean_shape r cs"
  unfolding clean_shape_def by (rule exI [of _ 0]) auto

lemma clean_shape_snoc:
  assumes "clean_shape r cs" and "ordinary c"
  shows "clean_shape r (cs @ [c])"
proof -
  from assms(1) obtain n os where "cs = replicate n dotdot @ os" "list_all ordinary os" "r \<longrightarrow> n = 0"
    by (auto simp: clean_shape_def)
  with assms(2) show ?thesis
    unfolding clean_shape_def by (intro exI [of _ n] exI [of _ "os @ [c]"]) simp
qed

lemma clean_shape_butlast:
  assumes "clean_shape r (cs @ [c])" and "c \<noteq> dotdot"
  shows "clean_shape r cs"
proof -
  from assms(1) obtain n os where 1: "cs @ [c] = replicate n dotdot @ os"
    "list_all ordinary os" "r \<longrightarrow> n = 0" by (auto simp: clean_shape_def)
  have "os \<noteq> []"
  proof
    assume "os = []"
    with 1 have "c \<in> set (replicate n dotdot)" by (metis append_Nil2 in_set_conv_decomp)
    with assms(2) show False by simp
  qed
  then obtain os' where "os = os' @ [last os]" by (metis append_butlast_last_id)
  with 1 have "cs = replicate n dotdot @ os'" "list_all ordinary os'"
    by (metis append_assoc append_same_eq last_snoc, metis list_all_append)
  with 1(3) show ?thesis unfolding clean_shape_def by blast
qed

lemma clean_shape_dotdot_last:
  assumes "clean_shape r (cs @ [dotdot])"
  shows "clean_shape r (cs @ [dotdot, dotdot])"
proof -
  from assms obtain n os where 1: "cs @ [dotdot] = replicate n dotdot @ os"
    "list_all ordinary os" "r \<longrightarrow> n = 0" by (auto simp: clean_shape_def)
  have "os = []"
  proof (rule ccontr)
    assume "os \<noteq> []"
    with 1 have "last os = dotdot" by (metis last_appendR last_snoc)
    with 1(2) \<open>os \<noteq> []\<close> show False by (auto simp: list_all_iff ordinary_def dest: last_in_set)
  qed
  with 1 have n: "cs @ [dotdot] = replicate n dotdot" "n \<noteq> 0" by (simp, cases n) auto
  with 1(3) have "\<not> r" by simp
  moreover have "cs @ [dotdot, dotdot] = replicate (Suc n) dotdot"
    using n(1) by (metis append_Cons append_Nil append_assoc replicate_Suc replicate_append_same)
  ultimately show ?thesis
    unfolding clean_shape_def by (intro exI [of _ "Suc n"] exI [of _ "[]"]) simp
qed

lemma clean_comps_shape:
  "clean_shape r (rev st) \<Longrightarrow> \<forall>c \<in> set cs. slash \<notin> set c \<Longrightarrow> clean_shape r (clean_comps r st cs)"
proof (induction r st cs rule: clean_comps.induct)
  case (1 rooted st)
  then show ?case by simp
next
  case (2 r st c cs)
  show ?case
  proof (cases "c = [] \<or> c = dot")
    case True
    with 2 show ?thesis by simp
  next
    case not_dot: False
    show ?thesis
    proof (cases "c = dotdot")
      case dd: True
      have up: "clean_shape False [dotdot]"
        unfolding clean_shape_def by (intro exI [of _ 1] exI [of _ "[]"]) simp
      show ?thesis
      proof (cases st)
        case Nil
        with 2 not_dot dd up show ?thesis by (cases r) simp_all
      next
        case (Cons t st')
        with 2 not_dot dd show ?thesis
          by (auto dest: clean_shape_butlast clean_shape_dotdot_last)
      qed
    next
      case False
      with 2 not_dot have "ordinary c" by (simp add: ordinary_def)
      with 2 not_dot False show ?thesis by (simp add: clean_shape_snoc)
    qed
  qed
qed

lemma Split_slash_free: "\<forall>c \<in> set (Split slash p). slash \<notin> set c"
  using Split_no_sep by blast

lemma path_comps_shape: "clean_shape (IsAbs p) (path_comps p)"
  unfolding path_comps_def
  by (rule clean_comps_shape) (auto simp: Split_slash_free clean_shape_def)

lemma clean_shape_rooted [simp]: "clean_shape True cs \<longleftrightarrow> list_all ordinary cs"
  by (auto simp: clean_shape_def)

lemma clean_shape_mem:
  "clean_shape r cs \<Longrightarrow> c \<in> set cs \<Longrightarrow> c = dotdot \<or> ordinary c"
  by (auto simp: clean_shape_def list_all_iff)

lemma clean_shape_no_dotdot:
  "clean_shape r cs \<Longrightarrow> dotdot \<notin> set cs \<Longrightarrow> list_all ordinary cs"
  by (auto simp: list_all_iff dest: clean_shape_mem)

lemma clean_shape_hd:
  "clean_shape r cs \<Longrightarrow> dotdot \<in> set cs \<Longrightarrow> cs \<noteq> [] \<and> hd cs = dotdot"
proof -
  assume s: "clean_shape r cs" and d: "dotdot \<in> set cs"
  then obtain n os where 1: "cs = replicate n dotdot @ os" "list_all ordinary os"
    by (auto simp: clean_shape_def)
  have "dotdot \<notin> set os" using 1(2) by (auto simp: list_all_iff ordinary_def)
  with d 1 have "n \<noteq> 0" by auto
  with 1 show ?thesis by (cases n) auto
qed


subsection \<open>Cleaning is idempotent\<close>

lemma clean_comps_append:
  "clean_comps r st (xs @ ys) = clean_comps r (rev (clean_comps r st xs)) ys"
  by (induction r st xs rule: clean_comps.induct) (auto split: list.split)

lemma clean_comps_ordinary:
  "list_all ordinary cs \<Longrightarrow> clean_comps r st cs = rev st @ cs"
  by (induction cs arbitrary: st) (auto simp: ordinary_def)

lemma clean_comps_dotdots:
  "clean_comps False (replicate m dotdot) (replicate n dotdot @ cs)
     = clean_comps False (replicate (m + n) dotdot) cs"
proof (induction n arbitrary: m)
  case (Suc n)
  have "clean_comps False (replicate m dotdot) (dotdot # replicate n dotdot @ cs)
      = clean_comps False (replicate (Suc m) dotdot) (replicate n dotdot @ cs)"
    by (cases m) simp_all
  also have "\<dots> = clean_comps False (replicate (Suc m + n) dotdot) cs" by (rule Suc.IH)
  finally show ?case by simp
qed simp

lemma clean_comps_id: "clean_shape r cs \<Longrightarrow> clean_comps r [] cs = cs"
proof -
  assume "clean_shape r cs"
  then obtain n os where 1: "cs = replicate n dotdot @ os" "list_all ordinary os" "r \<longrightarrow> n = 0"
    by (auto simp: clean_shape_def)
  show ?thesis
  proof (cases r)
    case True
    with 1 show ?thesis by (simp add: clean_comps_ordinary)
  next
    case False
    with 1 show ?thesis
      using clean_comps_dotdots [of 0 n os] by (simp add: clean_comps_ordinary)
  qed
qed

lemma Split_append:
  "Split sep (u @ sep # v) = Split sep u @ Split sep v"
  by (induction u) (auto split: list.splits)

lemma clean_shape_slash_free: "clean_shape r cs \<Longrightarrow> c \<in> set cs \<Longrightarrow> slash \<notin> set c \<and> c \<noteq> []"
  by (auto dest!: clean_shape_mem simp: ordinary_def)

lemma Split_Join_clean:
  "clean_shape r cs \<Longrightarrow> cs \<noteq> [] \<Longrightarrow> Split slash (Join cs ''/'') = cs"
  by (rule Split_Join) (auto dest: clean_shape_slash_free)

lemma Join_Cons_hd: "c \<noteq> [] \<Longrightarrow> Join (c # cs) sep \<noteq> [] \<and> hd (Join (c # cs) sep) = hd c"
  by (cases cs) auto

lemma IsAbs_Cons [simp]: "IsAbs (c # p) \<longleftrightarrow> c = slash"
  by (auto simp: IsAbs_def HasPrefix_def)

lemma IsAbs_Nil [simp]: "\<not> IsAbs []"
  by (simp add: IsAbs_def HasPrefix_def)

lemma IsAbs_append [simp]: "p \<noteq> [] \<Longrightarrow> IsAbs (p @ q) = IsAbs p"
  by (cases p) auto

lemma IsAbs_hd: "p \<noteq> [] \<Longrightarrow> IsAbs p \<longleftrightarrow> hd p = slash"
  by (cases p) auto

lemma IsAbs_path_of [simp]: "clean_shape r cs \<Longrightarrow> IsAbs (path_of r cs) = r"
proof (cases r)
  case False
  assume s: "clean_shape r cs"
  show ?thesis
  proof (cases cs)
    case (Cons c cs')
    with s have "slash \<notin> set c" "c \<noteq> []" using clean_shape_slash_free by auto
    then have "hd c \<noteq> slash" by (cases c) auto
    with False Cons \<open>c \<noteq> []\<close> show ?thesis
      using Join_Cons_hd [of c cs' "''/''"] by (simp add: path_of_def IsAbs_hd)
  qed (use False in \<open>simp add: path_of_def\<close>)
qed (simp add: path_of_def)

lemma path_comps_path_of:
  "clean_shape r cs \<Longrightarrow> r \<or> cs \<noteq> [] \<Longrightarrow> path_comps (path_of r cs) = cs"
proof -
  assume s: "clean_shape r cs" and ne: "r \<or> cs \<noteq> []"
  from s have "cs \<noteq> [] \<Longrightarrow> Split slash (Join cs ''/'') = cs" by (rule Split_Join_clean)
  with ne have "clean_comps r [] (Split slash (path_of r cs)) = clean_comps r [] cs"
    by (cases "cs = []"; cases r) (simp_all add: path_of_def)
  with s show ?thesis by (simp add: path_comps_def clean_comps_id)
qed

lemma path_of_not_Nil [simp]: "clean_shape r cs \<Longrightarrow> path_of r cs \<noteq> []"
  using Join_Cons_hd [of "hd cs" "tl cs" "''/''"]
  by (cases cs) (auto simp: path_of_def dest: clean_shape_slash_free)

lemma Clean_not_Nil [simp]: "Clean p \<noteq> []"
  using path_comps_shape [of p] by (simp add: Clean_def)

lemma IsAbs_Clean [simp]: "IsAbs (Clean p) = IsAbs p"
  using path_comps_shape [of p] by (simp add: Clean_def)

lemma path_comps_Clean: "path_comps (Clean p) = path_comps p"
proof (cases "p = []")
  case False
  show ?thesis
  proof (cases "IsAbs p \<or> path_comps p \<noteq> []")
    case True
    with False show ?thesis by (simp add: Clean_def path_comps_path_of path_comps_shape)
  next
    case no: False
    with False have "Clean p = dot" "path_comps p = []" by (simp_all add: Clean_def path_of_def)
    moreover have "path_comps dot = []" by (simp add: path_comps_def)
    ultimately show ?thesis by simp
  qed
qed (simp add: Clean_def path_comps_def)

lemma Clean_idem [go_std]: "Clean (Clean p) = Clean p"
  by (simp add: Clean_def [of "Clean p"] path_comps_Clean)
    (auto simp: Clean_def path_of_def path_comps_def)

lemma Clean_comps: "Clean p = path_of (IsAbs p) (path_comps p)"
  by (cases "p = []") (simp_all add: Clean_def path_of_def path_comps_def)


subsection \<open>Cleaning \<open>root/rel\<close>\<close>

lemma clean_comps_keeps_dotdot:
  "st \<noteq> [] \<Longrightarrow> last st = dotdot \<Longrightarrow> dotdot \<in> set (clean_comps False st cs)"
proof (induction cs arbitrary: st)
  case Nil
  then show ?case by (metis clean_comps.simps(1) last_in_set set_rev)
next
  case (Cons c cs)
  obtain t st' where st: "st = t # st'" using Cons.prems(1) by (cases st) auto
  show ?case
  proof (cases "c = dotdot \<and> t \<noteq> dotdot")
    case True
    with Cons.prems st have "st' \<noteq> []" "last st' = dotdot" by (auto split: if_splits)
    with True st show ?thesis by (simp add: Cons.IH)
  next
    case False
    with Cons st show ?thesis by auto
  qed
qed

lemma clean_comps_under:
  assumes "dotdot \<notin> set (clean_comps False st2 cs)" and "dotdot \<notin> set st2"
  shows "clean_comps r (st2 @ st) cs = rev st @ clean_comps False st2 cs"
  using assms
proof (induction cs arbitrary: st2)
  case (Cons c cs)
  show ?case
  proof (cases "c = dotdot")
    case True
    show ?thesis
    proof (cases st2)
      case Nil
      with True Cons.prems(1) clean_comps_keeps_dotdot [of "[dotdot]" cs] show ?thesis by simp
    next
      case (Cons t st2')
      with True Cons.prems Cons.IH [of st2'] show ?thesis by auto
    qed
  next
    case False
    with Cons.prems Cons.IH [of "c # st2"] Cons.IH [of st2] show ?thesis by auto
  qed
qed simp

lemma PathJoin2:
  "root \<noteq> [] \<Longrightarrow> rel \<noteq> [] \<Longrightarrow> PathJoin [root, rel] = Clean (root @ ''/'' @ rel)"
  by (simp add: PathJoin_def)

lemma path_comps_join:
  "root \<noteq> [] \<Longrightarrow> path_comps (root @ ''/'' @ rel)
     = clean_comps (IsAbs root) (rev (path_comps root)) (Split slash rel)"
  using Split_append [of slash root rel]
  by (simp add: path_comps_def clean_comps_append)

text \<open>
  A relative path that does not climb out of itself, appended to any root, stays below it:
  its own cleaned components follow those of the root.
\<close>

lemma path_comps_join_inside:
  assumes "root \<noteq> []" and "\<not> IsAbs rel" and "dotdot \<notin> set (path_comps rel)"
  shows "path_comps (root @ ''/'' @ rel) = path_comps root @ path_comps rel"
proof -
  have rel: "path_comps rel = clean_comps False [] (Split slash rel)"
    using assms(2) by (simp add: path_comps_def)
  with assms(3) have "clean_comps r (rev (path_comps root)) (Split slash rel)
      = path_comps root @ path_comps rel" for r
    using clean_comps_under [of "[]" "Split slash rel" r "rev (path_comps root)"] by simp
  then show ?thesis unfolding path_comps_join [OF assms(1)] .
qed

lemma Join_append:
  "us \<noteq> [] \<Longrightarrow> vs \<noteq> [] \<Longrightarrow> Join (us @ vs) sep = Join us sep @ sep @ Join vs sep"
proof (induction us sep rule: Join.induct)
  case (2 x sep)
  then show ?case by (cases vs) auto
qed auto

text \<open>When one cleaned path is below another, as a test on their components.\<close>

lemma path_of_below:
  assumes "clean_shape r us" and "clean_shape r ws" and "us \<noteq> []"
  shows "prefix (path_of r us @ ''/'') (path_of r ws) \<longleftrightarrow> (\<exists>vs. vs \<noteq> [] \<and> ws = us @ vs)"
proof
  assume "prefix (path_of r us @ ''/'') (path_of r ws)"
  then obtain t where t: "path_of r ws = path_of r us @ slash # t" by (auto simp: prefix_def)
  have "slash \<in> set (path_of r ws)" "r \<longrightarrow> path_of r ws \<noteq> ''/''"
    unfolding t by (simp_all add: path_of_def)
  then have wsne: "ws \<noteq> []" by (cases r) (auto simp: path_of_def)
  with t assms(3) have "Join ws ''/'' = Join us ''/'' @ slash # t"
    by (cases r) (simp_all add: path_of_def)
  then have "Split slash (Join ws ''/'') = Split slash (Join us ''/'' @ slash # t)" by simp
  then have "ws = us @ Split slash t"
    using Split_Join_clean [OF assms(1,3)] Split_Join_clean [OF assms(2) wsne]
    by (simp add: Split_append)
  then show "\<exists>vs. vs \<noteq> [] \<and> ws = us @ vs" by (metis Split_not_Nil)
next
  assume "\<exists>vs. vs \<noteq> [] \<and> ws = us @ vs"
  then obtain vs where "vs \<noteq> []" "ws = us @ vs" by blast
  with assms(3) show "prefix (path_of r us @ ''/'') (path_of r ws)"
    by (auto simp: path_of_def Join_append prefix_def)
qed

text \<open>Joining file names to a path puts their components after those of the path.\<close>

lemma PathJoin_below:
  assumes "root \<noteq> []" and "list_all ordinary cs" and "cs \<noteq> []"
  shows "path_comps (PathJoin (root # cs)) = path_comps root @ cs"
proof -
  from assms(2) have shape: "clean_shape False cs" by blast
  have rel: "path_of False cs = Join cs ''/''" using assms(3) by (simp add: path_of_def)
  have cs: "path_comps (Join cs ''/'') = cs" using path_comps_path_of [OF shape] assms(3) by (simp add: rel)
  have "PathJoin (root # cs) = Clean (root @ ''/'' @ Join cs ''/'')"
    using assms(1,3) by (cases cs) (simp_all add: PathJoin_def)
  moreover have "dotdot \<notin> set (path_comps (Join cs ''/''))"
    using assms(2) by (auto simp: cs list_all_iff ordinary_def)
  ultimately show ?thesis
    using path_comps_join_inside [OF assms(1), of "Join cs ''/''"] IsAbs_path_of [OF shape]
    by (simp add: path_comps_Clean rel cs)
qed

lemma PathJoin_root_not_Nil [simp]: "root \<noteq> [] \<Longrightarrow> PathJoin (root # cs) \<noteq> []"
  by (simp add: PathJoin_def)

lemma IsAbs_PathJoin: "root \<noteq> [] \<Longrightarrow> IsAbs (PathJoin (root # cs)) = IsAbs root"
  by (cases cs) (simp_all add: PathJoin_def)

lemma Clean_PathJoin: "root \<noteq> [] \<Longrightarrow> Clean (PathJoin (root # cs)) = PathJoin (root # cs)"
  by (simp add: PathJoin_def Clean_idem)

end
