(* ===== verification/Paths.thy ===== *)
theory Paths
  imports Go_Path
begin

section \<open>Path checks: internal/render/path.go and the controller's path validation\<close>

text \<open>
  \<open>ResolveWithinRoot\<close> is the sandbox both renderers resolve every path through;
  \<open>validateRelPath\<close> and \<open>validateValuesFilePath\<close> are the controller's checks of
  \<open>spec.source.path\<close> and \<open>spec.render.helm.valuesFiles\<close>. \<open>below\<close> is the specification they
  share: a cleaned path that consists of the root's components and then real file names.
\<close>

definition ResolveWithinRoot :: "string \<Rightarrow> string \<Rightarrow> string result" where
  "ResolveWithinRoot root rel =
     (if rel = [] then Inl (Errorf ''path is required'')
      else
        (let joined = PathJoin [root, rel];
             cleanRoot = Clean root;
             cleanJoined = Clean joined
         in if cleanJoined \<noteq> cleanRoot \<and> \<not> HasPrefix cleanJoined (cleanRoot @ ''/'') then
              Inl (Errorf (''path escapes checkout root: '' @ Quote rel))
            else Inr cleanJoined))"

definition validateRelPath :: "string \<Rightarrow> gerror option" where
  "validateRelPath path =
     (if path = [] then Some (Errorf ''path is required'')
      else
        (let clean = Clean path in
         if HasPrefix clean ''..'' \<or> IsAbs path then Some (Errorf ''path escapes checkout root'')
         else None))"

definition validateValuesFilePath :: "string \<Rightarrow> gerror option" where
  "validateValuesFilePath path =
     (if path = [] then Some (Errorf ''path is required'')
      else if IsAbs path then Some (Errorf ''path must be relative to the repository root'')
      else
        (let clean = Clean path in
         if clean = ''.'' then Some (Errorf ''path must point to a file'')
         else if clean \<noteq> path then Some (Errorf ''path must be a clean repository-relative path'')
         else if clean = ''..'' \<or> HasPrefix clean ''../'' then
           Some (Errorf ''path must stay within the repository root'')
         else None))"

definition below :: "string \<Rightarrow> string \<Rightarrow> bool" where
  "below root p \<longleftrightarrow> Clean p = p \<and> IsAbs p = IsAbs root
     \<and> (\<exists>ds. list_all ordinary ds \<and> path_comps p = path_comps root @ ds)"


subsection \<open>Cleaned relative paths\<close>

lemma rel_comps_starts_dotdot:
  assumes "\<not> IsAbs p" and "dotdot \<in> set (path_comps p)"
  shows "Clean p = ''..'' \<or> prefix ''../'' (Clean p)"
proof -
  from clean_shape_hd [OF path_comps_shape assms(2)]
  obtain cs where cs: "path_comps p = dotdot # cs" by (cases "path_comps p") auto
  with assms(1) show ?thesis
    by (cases cs) (simp_all add: Clean_comps path_of_def)
qed

lemma inside_comps: "\<not> IsAbs p \<Longrightarrow> dotdot \<notin> set (path_comps p) \<Longrightarrow> list_all ordinary (path_comps p)"
  using path_comps_shape [of p] by (auto dest: clean_shape_no_dotdot)

lemma validateRelPath_inside:
  assumes "validateRelPath p = None"
  shows "p \<noteq> []" and "\<not> IsAbs p" and "dotdot \<notin> set (path_comps p)"
proof -
  from assms have 1: "p \<noteq> []" "\<not> IsAbs p" "\<not> prefix ''..'' (Clean p)"
    by (auto simp: validateRelPath_def Let_def HasPrefix_def split: if_splits)
  moreover have "prefix ''..'' (Clean p)" if "dotdot \<in> set (path_comps p)"
    using rel_comps_starts_dotdot [OF 1(2) that] by (auto simp: prefix_def)
  ultimately show "p \<noteq> []" "\<not> IsAbs p" "dotdot \<notin> set (path_comps p)" by blast+
qed

lemma inside_not_dotdot:
  assumes "list_all ordinary cs" and "cs \<noteq> []"
  shows "Join cs ''/'' \<noteq> ''..''" and "\<not> prefix ''../'' (Join cs ''/'')" and "Join cs ''/'' \<noteq> ''.''"
    and "Join cs ''/'' \<noteq> []"
proof -
  from assms have sp: "Split slash (Join cs ''/'') = cs"
    by (intro Split_Join_clean [of True]) simp_all
  from assms have o: "hd cs \<noteq> dotdot" "hd cs \<noteq> dot" "hd cs \<noteq> []"
    by (cases cs; simp add: ordinary_def)+
  show "Join cs ''/'' \<noteq> ''..''" "Join cs ''/'' \<noteq> ''.''" "Join cs ''/'' \<noteq> []"
    using sp o by auto
  show "\<not> prefix ''../'' (Join cs ''/'')"
  proof
    assume "prefix ''../'' (Join cs ''/'')"
    then obtain t where "Join cs ''/'' = ''..'' @ slash # t" by (auto simp: prefix_def)
    with sp have "cs = dotdot # Split slash t" by (simp add: Split_append_sep)
    with o show False by simp
  qed
qed

lemma ordinary_path: 
  assumes "list_all ordinary cs" and "cs \<noteq> []"
  shows "\<not> IsAbs (Join cs ''/'')" and "path_comps (Join cs ''/'') = cs" and "Clean (Join cs ''/'') = Join cs ''/''"
proof -
  from assms have s: "clean_shape False cs" by blast
  from assms(2) have p: "path_of False cs = Join cs ''/''" by (simp add: path_of_def)
  from IsAbs_path_of [OF s] p show "\<not> IsAbs (Join cs ''/'')" by simp
  moreover from path_comps_path_of [OF s] assms(2) p show "path_comps (Join cs ''/'') = cs" by simp
  ultimately show "Clean (Join cs ''/'') = Join cs ''/''" by (simp add: Clean_comps p)
qed

lemma validateValuesFilePath_iff:
  "validateValuesFilePath p = None \<longleftrightarrow> (\<exists>cs. cs \<noteq> [] \<and> list_all ordinary cs \<and> p = Join cs ''/'')"
proof
  assume "validateValuesFilePath p = None"
  then have 1: "\<not> IsAbs p" "Clean p \<noteq> ''.''" "Clean p = p" "Clean p \<noteq> ''..''" "\<not> prefix ''../'' (Clean p)"
    by (auto simp: validateValuesFilePath_def Let_def HasPrefix_def split: if_splits)
  then have "dotdot \<notin> set (path_comps p)" using rel_comps_starts_dotdot [of p] by blast
  with 1(1) have "list_all ordinary (path_comps p)" by (rule inside_comps)
  moreover have "path_comps p \<noteq> []" "p = Join (path_comps p) ''/''"
    using 1 by (auto simp: Clean_comps [of p] path_of_def split: if_splits)
  ultimately show "\<exists>cs. cs \<noteq> [] \<and> list_all ordinary cs \<and> p = Join cs ''/''" by blast
next
  assume "\<exists>cs. cs \<noteq> [] \<and> list_all ordinary cs \<and> p = Join cs ''/''"
  then obtain cs where cs: "cs \<noteq> []" "list_all ordinary cs" "p = Join cs ''/''" by blast
  then show "validateValuesFilePath p = None"
    using inside_not_dotdot [OF cs(2,1)] ordinary_path [OF cs(2,1)]
    by (simp add: validateValuesFilePath_def HasPrefix_def)
qed


subsection \<open>The sandbox\<close>

lemma PathJoin_not_Nil: "root \<noteq> [] \<or> rel \<noteq> [] \<Longrightarrow> PathJoin [root, rel] \<noteq> []"
  by (auto simp: PathJoin_def split: list.split)

lemma resolve_inside:
  assumes "root \<noteq> []" and "path_comps root \<noteq> []" and "rel \<noteq> []" and "\<not> IsAbs rel"
    and "dotdot \<notin> set (path_comps rel)"
  shows "ResolveWithinRoot root rel = Inr (path_of (IsAbs root) (path_comps root @ path_comps rel))"
proof -
  let ?j = "root @ ''/'' @ rel"
  have j: "path_comps ?j = path_comps root @ path_comps rel"
    using assms by (intro path_comps_join_inside)
  have ordi: "list_all ordinary (path_comps rel)" using assms by (intro inside_comps)
  have abs: "IsAbs ?j = IsAbs root" using assms(1) by simp
  have clean: "Clean (PathJoin [root, rel]) = path_of (IsAbs root) (path_comps root @ path_comps rel)"
    unfolding PathJoin2 [OF assms(1,3)] Clean_idem by (simp only: Clean_comps [of ?j] j abs)
  have shape: "clean_shape (IsAbs root) (path_comps root @ path_comps rel)"
    using path_comps_shape [of ?j] j abs by simp
  have "prefix (Clean root @ ''/'') (Clean (PathJoin [root, rel]))" if "path_comps rel \<noteq> []"
    unfolding clean Clean_comps [of root] path_of_below [OF path_comps_shape shape assms(2)]
    using that by blast
  moreover have "Clean (PathJoin [root, rel]) = Clean root" if "path_comps rel = []"
    using that unfolding clean Clean_comps [of root] by simp
  ultimately show ?thesis
    using assms(3) clean by (cases "path_comps rel = []") (simp_all add: ResolveWithinRoot_def HasPrefix_def)
qed

lemma resolve_below:
  assumes "IsAbs root" and "ResolveWithinRoot root rel = Inr p"
  shows "below root p"
proof -
  from assms(2) have p: "p = Clean (PathJoin [root, rel])" and rel: "rel \<noteq> []"
    and or: "p = Clean root \<or> prefix (Clean root @ ''/'') p"
    by (auto simp: ResolveWithinRoot_def Let_def HasPrefix_def split: if_splits)
  have root: "root \<noteq> []" using assms(1) by (cases root) auto
  have abs: "IsAbs p" using p root rel assms(1) by (simp add: PathJoin2)
  have clean: "Clean p = p" by (simp add: p Clean_idem)
  have ordp: "list_all ordinary (path_comps p)" using path_comps_shape [of p] abs by simp
  have pof: "p = path_of True (path_comps p)" using clean abs by (metis Clean_comps)
  from or have "\<exists>ds. path_comps p = path_comps root @ ds"
  proof
    assume "p = Clean root"
    then show ?thesis by (simp add: path_comps_Clean)
  next
    assume pre: "prefix (Clean root @ ''/'') p"
    have shape: "clean_shape True (path_comps root)" "clean_shape True (path_comps p)"
      using path_comps_shape [of root] path_comps_shape [of p] assms(1) abs by simp_all
    from assms(1) have r: "Clean root = path_of True (path_comps root)" by (simp add: Clean_comps)
    show ?thesis
    proof (cases "path_comps root = []")
      case False
      with pre show ?thesis
        using path_of_below [OF shape False] pof r by (metis append_assoc)
    qed simp
  qed
  with clean abs assms(1) ordp show ?thesis
    unfolding below_def by (metis list_all_append)
qed


subsection \<open>The interface the renderers rely on\<close>

text \<open>
  A renderer resolves every path it opens through a function that answers with paths below the
  checkout root only, and that accepts what the controller's validation accepted.
\<close>

locale path_sandbox =
  fixes resolve :: "string \<Rightarrow> string \<Rightarrow> string result"
    and relOK :: "string \<Rightarrow> bool"
  assumes resolve_is_below: "IsAbs root \<Longrightarrow> resolve root rel = Inr p \<Longrightarrow> below root p"
    and resolve_accepts: "IsAbs root \<Longrightarrow> path_comps root \<noteq> [] \<Longrightarrow> relOK rel \<Longrightarrow> \<exists>p. resolve root rel = Inr p"
begin

lemma resolved_abs: "IsAbs root \<Longrightarrow> resolve root rel = Inr p \<Longrightarrow> IsAbs p"
  using resolve_is_below by (auto simp: below_def)

lemma resolved_no_dotdot:
  "IsAbs root \<Longrightarrow> resolve root rel = Inr p \<Longrightarrow> dotdot \<notin> set (path_comps p)"
  using resolved_abs [of root rel p] path_comps_shape [of p]
  by (auto simp: list_all_iff ordinary_def)

lemma resolve_again:
  "IsAbs root \<Longrightarrow> resolve root rel = Inr p \<Longrightarrow> resolve p rel' = Inr q \<Longrightarrow> below root q"
  using resolve_is_below [of root rel p] resolve_is_below [of p rel' q]
  by (auto simp: below_def)

end

interpretation sandbox: path_sandbox ResolveWithinRoot "\<lambda>rel. validateRelPath rel = None"
proof unfold_locales
  fix root rel p
  assume "IsAbs root"
  then show "ResolveWithinRoot root rel = Inr p \<Longrightarrow> below root p" by (rule resolve_below)
  assume "path_comps root \<noteq> []" "validateRelPath rel = None"
  with \<open>IsAbs root\<close> show "\<exists>p. ResolveWithinRoot root rel = Inr p"
    using validateRelPath_inside [of rel] resolve_inside [of root rel] by (cases root) auto
qed


subsection \<open>Properties\<close>

text \<open>
  C7: \<open>ResolveWithinRoot\<close> never leaves the root. For an absolute checkout root, whatever the
  relative path says, an accepted result is a cleaned path whose components are those of the root
  followed by real file names: no \<open>..\<close> is left in it.
\<close>

theorem resolve_never_escapes:
  assumes "IsAbs root" and "ResolveWithinRoot root rel = Inr p"
  shows "below root p \<and> dotdot \<notin> set (path_comps p)"
  using assms by (simp add: sandbox.resolve_is_below sandbox.resolved_no_dotdot)

theorem resolve_never_escapes_witness:
  "below ''/r'' ''/r/b'' \<and> dotdot \<notin> set (path_comps ''/r/b'')"
proof (rule resolve_never_escapes)
  show "IsAbs ''/r''" by simp
  show "ResolveWithinRoot ''/r'' ''a/.././b'' = Inr ''/r/b''"
    by (simp add: ResolveWithinRoot_def PathJoin_def Clean_def path_comps_def path_of_def HasPrefix_def)
qed

text \<open>
  a \<open>spec.source.path\<close> that passes \<open>validateRelPath\<close> always resolves, and to the place it
  names: the root's components followed by the path's own cleaned components.
\<close>

lemma validated_path_resolves:
  assumes "validateRelPath rel = None" and "root \<noteq> []" and "path_comps root \<noteq> []"
  shows "ResolveWithinRoot root rel = Inr (path_of (IsAbs root) (path_comps root @ path_comps rel))"
  using validateRelPath_inside [OF assms(1)] assms(2,3) by (intro resolve_inside)

theorem validated_path_resolves_witness:
  "ResolveWithinRoot ''/r'' ''apps/./demo'' = Inr ''/r/apps/demo''"
proof -
  have "validateRelPath ''apps/./demo'' = None" "path_comps ''/r'' \<noteq> []"
    by (simp_all add: validateRelPath_def Clean_def path_comps_def path_of_def HasPrefix_def)
  from validated_path_resolves [OF this(1) _ this(2)] show ?thesis
    by (simp add: path_comps_def path_of_def)
qed

text \<open>
  \<open>validateValuesFilePath\<close> accepts exactly the clean repository-relative file paths: one or more
  real file names joined by single slashes, with no \<open>.\<close>, no \<open>..\<close>, no leading or trailing slash.
\<close>

lemma values_path_exact:
  "validateValuesFilePath path = None \<longleftrightarrow>
     (\<exists>cs. cs \<noteq> [] \<and> list_all ordinary cs \<and> path = Join cs ''/'')"
  by (rule validateValuesFilePath_iff)

text \<open>
  an accepted values file resolves to its own text appended to the checkout root.
\<close>

lemma values_path_resolves:
  assumes "validateValuesFilePath path = None"
    and "Clean root = root" and "IsAbs root" and "root \<noteq> ''/''"
  shows "ResolveWithinRoot root path = Inr (root @ ''/'' @ path)"
proof -
  from assms(1) obtain cs where cs: "cs \<noteq> []" "list_all ordinary cs" "path = Join cs ''/''"
    by (auto simp: validateValuesFilePath_iff)
  note o = ordinary_path [OF cs(2,1)] inside_not_dotdot [OF cs(2,1)]
  have r: "root = slash # Join (path_comps root) ''/''"
    using assms(2,3) by (simp add: Clean_comps path_of_def)
  with assms(4) have ne: "path_comps root \<noteq> []" by auto
  have "dotdot \<notin> set (path_comps path)" using cs o by (auto simp: list_all_iff ordinary_def)
  with assms(3) r ne o cs have "ResolveWithinRoot root path
      = Inr (path_of (IsAbs root) (path_comps root @ path_comps path))"
    by (intro resolve_inside) auto
  also have "path_of (IsAbs root) (path_comps root @ path_comps path) = root @ ''/'' @ path"
    using assms(3) cs o ne by (subst (2) r) (simp add: path_of_def Join_append)
  finally show ?thesis .
qed

theorem values_path_resolves_witness:
  "ResolveWithinRoot ''/r'' ''infra/values.yaml'' = Inr ''/r/infra/values.yaml''"
proof -
  have "validateValuesFilePath ''infra/values.yaml'' = None" "Clean ''/r'' = ''/r''"
    by (simp_all add: validateValuesFilePath_def Clean_def path_comps_def path_of_def HasPrefix_def)
  from values_path_resolves [OF this] show ?thesis by simp
qed

text \<open>
  \<open>validateRelPath\<close> rejects more than paths that escape. It tests the string prefix \<open>..\<close>, so a
  directory inside the repository whose name merely begins with two dots is refused as escaping,
  while the sandbox itself accepts it and resolves it inside the root.
\<close>

lemma rel_path_over_rejects:
  "validateRelPath ''..config/app'' = Some (Errorf ''path escapes checkout root'')
     \<and> ResolveWithinRoot ''/r'' ''..config/app'' = Inr ''/r/..config/app''"
  by (simp add: validateRelPath_def ResolveWithinRoot_def PathJoin_def Clean_def path_comps_def
      path_of_def HasPrefix_def)

end
