(* ===== verification/Api_Types.thy ===== *)
theory Api_Types
  imports Go_Std
begin

section \<open>The custom resource: package api/v1alpha1\<close>

text \<open>
  The structs of \<open>api/v1alpha1/gitapplication_types.go\<close> as records, field by field. A nil
  pointer is \<open>None\<close>; slices are lists (the program never tells a nil slice from an empty one
  here). Of \<open>metav1.ObjectMeta\<close> the fields the program reads are kept. \<open>metav1.Time\<close> is a
  nanosecond count from Go's zero time, so \<open>IsZero\<close> is \<open>= 0\<close>.
  \<open>schema.GroupVersionKind.String\<close> belongs to k8s.io/apimachinery: \<open>Key\<close> takes it as its
  argument \<open>gvkString\<close>.
\<close>

type_synonym time = int
type_synonym duration = int

record gvk =
  gvk_group :: string
  gvk_version :: string
  gvk_kind :: string

record object_meta =
  om_name :: string
  om_namespace :: string
  om_uid :: string
  om_generation :: int
  om_deletionTimestamp :: "time option"

record git_source_spec =
  src_repository :: string
  src_revision :: string
  src_path :: string
  src_secretRef :: "string option" \<comment> \<open>the name in the LocalObjectReference\<close>

record destination_spec =
  dst_namespace :: string

record helm_render_spec =
  hr_releaseName :: string
  hr_valuesFiles :: "string list"
  hr_includeCRDs :: bool

record render_spec =
  rd_type :: string
  rd_helm :: "helm_render_spec option"

record git_application_spec =
  spec_source :: git_source_spec
  spec_destination :: destination_spec
  spec_render :: render_spec
  spec_allowedClusterScopedKinds :: "string list"
  spec_takeoverExistingResources :: bool
  spec_interval :: duration
  spec_prune :: bool
  spec_suspend :: bool

record resource_reference =
  rr_group :: string
  rr_version :: string
  rr_kind :: string
  rr_namespace :: string
  rr_name :: string

datatype condition_status = ConditionTrue | ConditionFalse | ConditionUnknown

record condition =
  cond_type :: string
  cond_status :: condition_status
  cond_reason :: string
  cond_message :: string
  cond_observedGeneration :: int
  cond_lastTransitionTime :: time

record git_application_status =
  st_observedGeneration :: int
  st_attemptedRevision :: string
  st_appliedRevision :: string
  st_lastAttemptTime :: "time option"
  st_lastSuccessTime :: "time option"
  st_inventory :: "resource_reference list"
  st_conditions :: "condition list"

record git_application =
  app_meta :: object_meta
  app_spec :: git_application_spec
  app_status :: git_application_status

definition rr_gvk :: "resource_reference \<Rightarrow> gvk" where
  "rr_gvk r = \<lparr>gvk_group = rr_group r, gvk_version = rr_version r, gvk_kind = rr_kind r\<rparr>"

definition Key :: "(gvk \<Rightarrow> string) \<Rightarrow> resource_reference \<Rightarrow> string" where
  "Key gvkString r =
     gvkString \<lparr>gvk_group = rr_group r, gvk_version = rr_version r, gvk_kind = rr_kind r\<rparr>
       @ ''/'' @ rr_namespace r @ ''/'' @ rr_name r"

text \<open>
  A Kubernetes name or namespace is one path segment, so it has no slash. For such references
  the key can be taken apart again from the right, and it identifies the reference as far as
  \<open>gvkString\<close> identifies the group, version and kind.
\<close>

definition segment_ref :: "resource_reference \<Rightarrow> bool" where
  "segment_ref r \<longleftrightarrow> CHR ''/'' \<notin> set (rr_namespace r) \<and> CHR ''/'' \<notin> set (rr_name r)"

lemma last_separator_unique:
  assumes "u @ c # v = u' @ c # v'" and "c \<notin> set v" and "c \<notin> set v'"
  shows "u = u' \<and> v = v'"
proof -
  have eq: "rev v @ c # rev u = rev v' @ c # rev u'"
    using arg_cong [OF assms(1), of rev] by simp
  have tw: "takeWhile (\<lambda>x. x \<noteq> c) (rev w @ c # x) = rev w" if "c \<notin> set w" for w x
    using that by (subst takeWhile_append2) auto
  from arg_cong [OF eq, of "takeWhile (\<lambda>x. x \<noteq> c)"] assms(2,3) have "v = v'"
    by (simp add: tw)
  with assms(1) show ?thesis by simp
qed

lemma resource_reference_eqI:
  fixes r r' :: resource_reference
  shows "rr_gvk r = rr_gvk r' \<Longrightarrow> rr_namespace r = rr_namespace r' \<Longrightarrow> rr_name r = rr_name r' \<Longrightarrow> r = r'"
  by (cases r; cases r') (simp add: rr_gvk_def)

lemma Key_inject:
  assumes "Key ks r = Key ks r'" and "segment_ref r" and "segment_ref r'"
    and "inj_on ks {rr_gvk r, rr_gvk r'}"
  shows "r = r'"
proof -
  have K: "Key ks q = (ks (rr_gvk q) @ ''/'' @ rr_namespace q) @ CHR ''/'' # rr_name q" for q
    by (simp add: Key_def rr_gvk_def)
  have "ks (rr_gvk r) @ ''/'' @ rr_namespace r = ks (rr_gvk r') @ ''/'' @ rr_namespace r'
      \<and> rr_name r = rr_name r'"
    using assms(1-3) unfolding K segment_ref_def by (intro last_separator_unique) auto
  then have 1: "ks (rr_gvk r) @ CHR ''/'' # rr_namespace r
      = ks (rr_gvk r') @ CHR ''/'' # rr_namespace r'" and n: "rr_name r = rr_name r'"
    by simp_all
  from last_separator_unique [OF 1] assms(2,3)
  have "ks (rr_gvk r) = ks (rr_gvk r')" "rr_namespace r = rr_namespace r'"
    by (auto simp: segment_ref_def)
  with assms(4) have "rr_gvk r = rr_gvk r'" by (meson inj_onD insertCI)
  with n \<open>rr_namespace r = rr_namespace r'\<close> show ?thesis by (intro resource_reference_eqI)
qed

end
