(* ===== verification/World.thy ===== *)
theory World
  imports Api_Types
begin

section \<open>The outside world\<close>

text \<open>
  The program talks to the Kubernetes API server, to the operating system and to the git
  binary. None of them is under src/, so each is a parameter: \<open>'o env\<close> holds one answer
  function per kind of call, which may depend on the whole history of calls made before it
  (time passes, other actors interfere, calls fail at any point). A call is recorded with its
  answer, so a property of what the program does to the world is a property of the history.

  \<open>'o\<close> is the type of \<open>*unstructured.Unstructured\<close>. Its accessors belong to
  k8s.io/apimachinery; \<open>'o uapi\<close> holds them, together with \<open>json.Marshal\<close> of the object's
  content and the other functions of that module the program calls (the \<open>String\<close> methods of
  \<open>schema.GroupVersionKind\<close> and \<open>schema.GroupKind\<close>, \<open>validation.IsDNS1123Label\<close>).
  \<open>lawful_uapi\<close> states their documented behaviour: on an object that has a name
  (so that its metadata is a JSON object) a setter changes what its getter reads and leaves
  what the other getters read alone.
\<close>

type_synonym labels = "string \<rightharpoonup> string"

record 'o uapi =
  GetAPIVersion :: "'o \<Rightarrow> string"
  GetKind :: "'o \<Rightarrow> string"
  GetName :: "'o \<Rightarrow> string"
  GetNamespace :: "'o \<Rightarrow> string"
  GroupVersionKind :: "'o \<Rightarrow> gvk"
  HasGenerateName :: "'o \<Rightarrow> bool" \<comment> \<open>NestedString(metadata.generateName) finds one\<close>
  GetLabels :: "'o \<Rightarrow> labels option" \<comment> \<open>None is the nil map\<close>
  GetAnnotations :: "'o \<Rightarrow> labels option"
  SetNamespace :: "string \<Rightarrow> 'o \<Rightarrow> 'o"
  SetLabels :: "labels \<Rightarrow> 'o \<Rightarrow> 'o"
  SetAnnotations :: "labels \<Rightarrow> 'o \<Rightarrow> 'o"
  MarshalObject :: "'o \<Rightarrow> string result"
  gvkString :: "gvk \<Rightarrow> string"
  groupKindString :: "gvk \<Rightarrow> string"
  IsDNS1123Label :: "string \<Rightarrow> string list"

definition lawful_uapi :: "'o uapi \<Rightarrow> bool" where
  "lawful_uapi u \<longleftrightarrow> (\<forall>obj. GetName u obj \<noteq> [] \<longrightarrow>
     (\<forall>ns. let o' = SetNamespace u ns obj in
        GetNamespace u o' = ns \<and> GetName u o' = GetName u obj \<and> GetKind u o' = GetKind u obj
        \<and> GroupVersionKind u o' = GroupVersionKind u obj
        \<and> GetLabels u o' = GetLabels u obj \<and> GetAnnotations u o' = GetAnnotations u obj) \<and>
     (\<forall>m. let o' = SetLabels u m obj in
        GetLabels u o' = Some m \<and> GetName u o' = GetName u obj \<and> GetKind u o' = GetKind u obj
        \<and> GroupVersionKind u o' = GroupVersionKind u obj
        \<and> GetNamespace u o' = GetNamespace u obj \<and> GetAnnotations u o' = GetAnnotations u obj) \<and>
     (\<forall>m. let o' = SetAnnotations u m obj in
        GetAnnotations u o' = Some m \<and> GetName u o' = GetName u obj \<and> GetKind u o' = GetKind u obj
        \<and> GroupVersionKind u o' = GroupVersionKind u obj
        \<and> GetNamespace u o' = GetNamespace u obj \<and> GetLabels u o' = GetLabels u obj))"

lemma lawful_SetNamespace:
  assumes "lawful_uapi u" and "GetName u obj \<noteq> []"
  shows "GetNamespace u (SetNamespace u ns obj) = ns"
    and "GetName u (SetNamespace u ns obj) = GetName u obj"
    and "GetKind u (SetNamespace u ns obj) = GetKind u obj"
    and "GroupVersionKind u (SetNamespace u ns obj) = GroupVersionKind u obj"
    and "GetLabels u (SetNamespace u ns obj) = GetLabels u obj"
    and "GetAnnotations u (SetNamespace u ns obj) = GetAnnotations u obj"
  using assms by (simp_all add: lawful_uapi_def Let_def)

lemma lawful_SetLabels:
  assumes "lawful_uapi u" and "GetName u obj \<noteq> []"
  shows "GetLabels u (SetLabels u m obj) = Some m"
    and "GetName u (SetLabels u m obj) = GetName u obj"
    and "GetKind u (SetLabels u m obj) = GetKind u obj"
    and "GroupVersionKind u (SetLabels u m obj) = GroupVersionKind u obj"
    and "GetNamespace u (SetLabels u m obj) = GetNamespace u obj"
    and "GetAnnotations u (SetLabels u m obj) = GetAnnotations u obj"
  using assms by (simp_all add: lawful_uapi_def Let_def)

lemma lawful_SetAnnotations:
  assumes "lawful_uapi u" and "GetName u obj \<noteq> []"
  shows "GetAnnotations u (SetAnnotations u m obj) = Some m"
    and "GetName u (SetAnnotations u m obj) = GetName u obj"
    and "GetKind u (SetAnnotations u m obj) = GetKind u obj"
    and "GroupVersionKind u (SetAnnotations u m obj) = GroupVersionKind u obj"
    and "GetNamespace u (SetAnnotations u m obj) = GetNamespace u obj"
    and "GetLabels u (SetAnnotations u m obj) = GetLabels u obj"
  using assms by (simp_all add: lawful_uapi_def Let_def)

lemmas lawful_simps = lawful_SetNamespace lawful_SetLabels lawful_SetAnnotations

text \<open>
  Reading a possibly nil Go map of strings: the zero value when the key or the map is missing.
\<close>

definition map_index :: "labels option \<Rightarrow> string \<Rightarrow> string" where
  "map_index m k = (case m of None \<Rightarrow> [] | Some f \<Rightarrow> (case f k of None \<Rightarrow> [] | Some v \<Rightarrow> v))"


subsection \<open>API server\<close>

record gvr =
  gvr_group :: string
  gvr_version :: string
  gvr_resource :: string

datatype scope_name = RESTScopeNameNamespace | RESTScopeNameRoot | RESTScopeNameOther string

record rest_mapping =
  rm_resource :: gvr
  rm_scope :: scope_name

record secret =
  sec_name :: string
  sec_namespace :: string
  sec_type :: string
  sec_data :: "string \<rightharpoonup> string"

record patch_options =
  po_fieldManager :: string
  po_force :: bool


subsection \<open>Operating system and git\<close>

text \<open>
  What \<open>filepath.WalkDir\<close> finds at a path: the entries of a directory in the order of its listing, a
  directory that cannot be listed, a symbolic link, any other entry, or nothing (the error of \<open>Lstat\<close>).
\<close>

datatype dir_tree =
    DirTree "(string \<times> dir_tree) list"
  | DirUnreadable gerror
  | LinkEntry
  | FileEntry
  | NoEntry gerror

text \<open>
  The calls to the operating system, each with its answer. \<open>StatPath\<close> answers whether the path is a
  directory. A lock file is opened, locked without blocking (\<open>LOCK_EX | LOCK_NB\<close>), unlocked and
  closed. \<open>RunGit\<close> is one run of the git binary: the binary's path, the working directory (empty for
  the current one), the environment entries added to the process's own, and the arguments; the answer
  is the combined output and the exit error. \<open>WriteFile\<close> carries the permission bits. \<open>WalkTree\<close> is what one
  walk of a directory gets to see, as a whole; \<open>LoadChart\<close> is Helm's loader reading a chart directory.
\<close>

datatype os_call =
    MkdirAll string "gerror option"
  | StatPath string "bool result"
  | MkdirTemp string string "string result"
  | WriteFile string string nat "gerror option"
  | RemoveAll string "gerror option"
  | RenamePath string string "gerror option"
  | OpenLock string "gerror option"
  | FlockTry string "gerror option"
  | FlockUnlock string
  | CloseLock string
  | Sleep duration
  | RunGit string string "string list" "string list" "string \<times> gerror option"
  | ReadFile string "string result"
  | WalkTree string dir_tree
  | LoadChart string

text \<open>
  The calls to the work queue of k8s.io/client-go: \<open>QGet\<close> with the key it hands out and whether the queue has
  been shut down.
\<close>

datatype queue_call =
    QGet "string \<times> bool"
  | QAdd string
  | QDone string
  | QForget string
  | QAddRateLimited string
  | QAddAfter string duration

text \<open>How the operating system answers, given the history so far.\<close>

record 'h os_env =
  os_TempDir :: string
  os_Getenv :: "string \<Rightarrow> string"
  os_MkdirAll :: "'h \<Rightarrow> string \<Rightarrow> gerror option"
  os_Stat :: "'h \<Rightarrow> string \<Rightarrow> bool result"
  os_MkdirTemp :: "'h \<Rightarrow> string \<Rightarrow> string \<Rightarrow> string result"
  os_WriteFile :: "'h \<Rightarrow> string \<Rightarrow> string \<Rightarrow> nat \<Rightarrow> gerror option"
  os_RemoveAll :: "'h \<Rightarrow> string \<Rightarrow> gerror option"
  os_Rename :: "'h \<Rightarrow> string \<Rightarrow> string \<Rightarrow> gerror option"
  os_OpenLock :: "'h \<Rightarrow> string \<Rightarrow> gerror option"
  os_FlockTry :: "'h \<Rightarrow> string \<Rightarrow> gerror option"
  os_RunGit :: "'h \<Rightarrow> string \<Rightarrow> string \<Rightarrow> string list \<Rightarrow> string list \<Rightarrow> string \<times> gerror option"
  os_ReadFile :: "'h \<Rightarrow> string \<Rightarrow> string result"
  os_WalkTree :: "'h \<Rightarrow> string \<Rightarrow> dir_tree"


subsection \<open>Calls, histories, answers\<close>

datatype 'o call =
    CallCtxErr "gerror option"
  | CallNow time
  | CallGetApp string string "git_application result"
  | CallGetSecret string string "secret result"
  | CallStatusPatch git_application git_application "git_application result"
      \<comment> \<open>base, modified; the object as the server returns it\<close>
  | CallDynPatch gvr "string option" string string patch_options "gerror option"
  | CallDynGet gvr "string option" string "'o result"
  | CallDynDelete gvr "string option" string "gerror option"
      \<comment> \<open>always with background propagation\<close>
  | CallOS os_call
  | CallQueue queue_call

type_synonym 'o history = "'o call list"

type_synonym ('o, 'a) prog = "('o call list, 'a) state"

record 'o env =
  env_ctxErr :: "'o call list \<Rightarrow> gerror option"
  env_now :: "'o call list \<Rightarrow> time"
  env_getApp :: "'o call list \<Rightarrow> string \<Rightarrow> string \<Rightarrow> git_application result"
  env_getSecret :: "'o call list \<Rightarrow> string \<Rightarrow> string \<Rightarrow> secret result"
  env_statusPatch :: "'o call list \<Rightarrow> git_application \<Rightarrow> git_application \<Rightarrow> git_application result"
  env_mapper :: "'o call list \<Rightarrow> gvk \<Rightarrow> rest_mapping result"
  env_dynPatch :: "'o call list \<Rightarrow> gvr \<Rightarrow> string option \<Rightarrow> string \<Rightarrow> string \<Rightarrow> patch_options \<Rightarrow> gerror option"
  env_dynGet :: "'o call list \<Rightarrow> gvr \<Rightarrow> string option \<Rightarrow> string \<Rightarrow> 'o result"
  env_dynDelete :: "'o call list \<Rightarrow> gvr \<Rightarrow> string option \<Rightarrow> string \<Rightarrow> gerror option"
  env_os :: "'o call list os_env"
  env_queueGet :: "'o call list \<Rightarrow> string \<times> bool"

definition ctxErr :: "'o env \<Rightarrow> ('o, gerror option) prog" where
  "ctxErr env = ask (env_ctxErr env) CallCtxErr"

definition Now :: "'o env \<Rightarrow> ('o, time) prog" where
  "Now env = ask (env_now env) CallNow"

definition getApp :: "'o env \<Rightarrow> string \<Rightarrow> string \<Rightarrow> ('o, git_application result) prog" where
  "getApp env ns n = ask (\<lambda>h. env_getApp env h ns n) (CallGetApp ns n)"

definition getSecret :: "'o env \<Rightarrow> string \<Rightarrow> string \<Rightarrow> ('o, secret result) prog" where
  "getSecret env ns n = ask (\<lambda>h. env_getSecret env h ns n) (CallGetSecret ns n)"

definition statusPatch ::
  "'o env \<Rightarrow> git_application \<Rightarrow> git_application \<Rightarrow> ('o, git_application result) prog" where
  "statusPatch env base app = ask (\<lambda>h. env_statusPatch env h base app) (CallStatusPatch base app)"

definition dynPatch ::
  "'o env \<Rightarrow> gvr \<Rightarrow> string option \<Rightarrow> string \<Rightarrow> string \<Rightarrow> patch_options \<Rightarrow> ('o, gerror option) prog" where
  "dynPatch env r ns n body opts =
     ask (\<lambda>h. env_dynPatch env h r ns n body opts) (CallDynPatch r ns n body opts)"

definition dynGet :: "'o env \<Rightarrow> gvr \<Rightarrow> string option \<Rightarrow> string \<Rightarrow> ('o, 'o result) prog" where
  "dynGet env r ns n = ask (\<lambda>h. env_dynGet env h r ns n) (CallDynGet r ns n)"

definition dynDelete :: "'o env \<Rightarrow> gvr \<Rightarrow> string option \<Rightarrow> string \<Rightarrow> ('o, gerror option) prog" where
  "dynDelete env r ns n = ask (\<lambda>h. env_dynDelete env h r ns n) (CallDynDelete r ns n)"

text \<open>The calls to the operating system.\<close>

definition osMkdirAll :: "'o env \<Rightarrow> string \<Rightarrow> ('o, gerror option) prog" where
  "osMkdirAll env p = ask (\<lambda>h. os_MkdirAll (env_os env) h p) (CallOS \<circ> MkdirAll p)"

definition osStat :: "'o env \<Rightarrow> string \<Rightarrow> ('o, bool result) prog" where
  "osStat env p = ask (\<lambda>h. os_Stat (env_os env) h p) (CallOS \<circ> StatPath p)"

definition osMkdirTemp :: "'o env \<Rightarrow> string \<Rightarrow> string \<Rightarrow> ('o, string result) prog" where
  "osMkdirTemp env d pat = ask (\<lambda>h. os_MkdirTemp (env_os env) h d pat) (CallOS \<circ> MkdirTemp d pat)"

definition osWriteFile :: "'o env \<Rightarrow> string \<Rightarrow> string \<Rightarrow> nat \<Rightarrow> ('o, gerror option) prog" where
  "osWriteFile env p content perm =
     ask (\<lambda>h. os_WriteFile (env_os env) h p content perm) (CallOS \<circ> WriteFile p content perm)"

definition osRemoveAll :: "'o env \<Rightarrow> string \<Rightarrow> ('o, gerror option) prog" where
  "osRemoveAll env p = ask (\<lambda>h. os_RemoveAll (env_os env) h p) (CallOS \<circ> RemoveAll p)"

definition osRename :: "'o env \<Rightarrow> string \<Rightarrow> string \<Rightarrow> ('o, gerror option) prog" where
  "osRename env p q = ask (\<lambda>h. os_Rename (env_os env) h p q) (CallOS \<circ> RenamePath p q)"

definition osOpenLock :: "'o env \<Rightarrow> string \<Rightarrow> ('o, gerror option) prog" where
  "osOpenLock env p = ask (\<lambda>h. os_OpenLock (env_os env) h p) (CallOS \<circ> OpenLock p)"

definition osFlockTry :: "'o env \<Rightarrow> string \<Rightarrow> ('o, gerror option) prog" where
  "osFlockTry env p = ask (\<lambda>h. os_FlockTry (env_os env) h p) (CallOS \<circ> FlockTry p)"

definition osFlockUnlock :: "string \<Rightarrow> ('o, unit) prog" where
  "osFlockUnlock p = ask (\<lambda>h. ()) (\<lambda>_. CallOS (FlockUnlock p))"

definition osCloseLock :: "string \<Rightarrow> ('o, unit) prog" where
  "osCloseLock p = ask (\<lambda>h. ()) (\<lambda>_. CallOS (CloseLock p))"

definition osSleep :: "duration \<Rightarrow> ('o, unit) prog" where
  "osSleep d = ask (\<lambda>h. ()) (\<lambda>_. CallOS (Sleep d))"

definition osRunGit ::
  "'o env \<Rightarrow> string \<Rightarrow> string \<Rightarrow> string list \<Rightarrow> string list \<Rightarrow> ('o, string \<times> gerror option) prog" where
  "osRunGit env bin dir extra args =
     ask (\<lambda>h. os_RunGit (env_os env) h bin dir extra args) (CallOS \<circ> RunGit bin dir extra args)"

definition osReadFile :: "'o env \<Rightarrow> string \<Rightarrow> ('o, string result) prog" where
  "osReadFile env p = ask (\<lambda>h. os_ReadFile (env_os env) h p) (CallOS \<circ> ReadFile p)"

definition osWalkTree :: "'o env \<Rightarrow> string \<Rightarrow> ('o, dir_tree) prog" where
  "osWalkTree env p = ask (\<lambda>h. os_WalkTree (env_os env) h p) (CallOS \<circ> WalkTree p)"

lemmas os_defs = osMkdirAll_def osStat_def osMkdirTemp_def osWriteFile_def osRemoveAll_def osRename_def
  osOpenLock_def osFlockTry_def osFlockUnlock_def osCloseLock_def osSleep_def osRunGit_def osReadFile_def
  osWalkTree_def

lemma emits_os [wp]:
  "(\<And>r. P (CallOS (MkdirAll p r))) \<Longrightarrow> emits P (osMkdirAll env p)"
  "(\<And>r. P (CallOS (StatPath p r))) \<Longrightarrow> emits P (osStat env p)"
  "(\<And>r. P (CallOS (MkdirTemp d pat r))) \<Longrightarrow> emits P (osMkdirTemp env d pat)"
  "(\<And>r. P (CallOS (WriteFile p content perm r))) \<Longrightarrow> emits P (osWriteFile env p content perm)"
  "(\<And>r. P (CallOS (RemoveAll p r))) \<Longrightarrow> emits P (osRemoveAll env p)"
  "(\<And>r. P (CallOS (RenamePath p q r))) \<Longrightarrow> emits P (osRename env p q)"
  "(\<And>r. P (CallOS (OpenLock p r))) \<Longrightarrow> emits P (osOpenLock env p)"
  "(\<And>r. P (CallOS (FlockTry p r))) \<Longrightarrow> emits P (osFlockTry env p)"
  "P (CallOS (FlockUnlock p)) \<Longrightarrow> emits P (osFlockUnlock p)"
  "P (CallOS (CloseLock p)) \<Longrightarrow> emits P (osCloseLock p)"
  "P (CallOS (Sleep t)) \<Longrightarrow> emits P (osSleep t)"
  "(\<And>r. P (CallOS (RunGit bin dir extra args r))) \<Longrightarrow> emits P (osRunGit env bin dir extra args)"
  "(\<And>r. P (CallOS (ReadFile p r))) \<Longrightarrow> emits P (osReadFile env p)"
  "(\<And>r. P (CallOS (WalkTree p r))) \<Longrightarrow> emits P (osWalkTree env p)"
  unfolding os_defs by (rule emits_ask, simp)+

text \<open>The calls to the work queue.\<close>

definition queueGet :: "'o env \<Rightarrow> ('o, string \<times> bool) prog" where
  "queueGet env = ask (env_queueGet env) (CallQueue \<circ> QGet)"

definition queueCall :: "queue_call \<Rightarrow> ('o, unit) prog" where
  "queueCall q = ask (\<lambda>h. ()) (\<lambda>_. CallQueue q)"

lemma emits_queue [wp]:
  "(\<And>r. P (CallQueue (QGet r))) \<Longrightarrow> emits P (queueGet env)"
  "P (CallQueue q) \<Longrightarrow> emits P (queueCall q)"
  unfolding queueGet_def queueCall_def by (rule emits_ask, simp)+

lemma run_queueCall [simp]: "run_state (queueCall q) h = ((), h @ [CallQueue q])"
  by (simp add: queueCall_def)

text \<open>Asking the mapper leaves no trace: it is a lookup.\<close>

definition restMapping :: "'o env \<Rightarrow> gvk \<Rightarrow> ('o, rest_mapping result) prog" where
  "restMapping env g = State (\<lambda>h. (env_mapper env h g, h))"

definition mapperNow :: "'o env \<Rightarrow> ('o, gvk \<Rightarrow> rest_mapping result) prog" where
  "mapperNow env = State (\<lambda>h. (env_mapper env h, h))"

lemma run_restMapping [simp]: "run_state (restMapping env g) h = (env_mapper env h g, h)"
  by (simp add: restMapping_def)

lemma run_mapperNow [simp]: "run_state (mapperNow env) h = (env_mapper env h, h)"
  by (simp add: mapperNow_def)

lemma emits_mapper [wp]: "emits P (restMapping env g)" "emits P (mapperNow env)"
  by (simp_all add: emits_def)

lemmas call_defs = ctxErr_def Now_def getApp_def getSecret_def statusPatch_def
  dynPatch_def dynGet_def dynDelete_def

lemma emits_calls [wp]:
  "(\<And>r. P (CallCtxErr r)) \<Longrightarrow> emits P (ctxErr env)"
  "(\<And>r. P (CallNow r)) \<Longrightarrow> emits P (Now env)"
  "(\<And>r. P (CallGetApp ns n r)) \<Longrightarrow> emits P (getApp env ns n)"
  "(\<And>r. P (CallGetSecret ns n r)) \<Longrightarrow> emits P (getSecret env ns n)"
  "(\<And>r. P (CallStatusPatch b a r)) \<Longrightarrow> emits P (statusPatch env b a)"
  "(\<And>r. P (CallDynPatch g s n body opts r)) \<Longrightarrow> emits P (dynPatch env g s n body opts)"
  "(\<And>r. P (CallDynGet g s n r)) \<Longrightarrow> emits P (dynGet env g s n)"
  "(\<And>r. P (CallDynDelete g s n r)) \<Longrightarrow> emits P (dynDelete env g s n)"
  unfolding call_defs by (rule emits_ask, simp)+

text \<open>The calls that change objects of the cluster.\<close>

fun is_mutation :: "'o call \<Rightarrow> bool" where
  "is_mutation (CallDynPatch r ns n body opts a) = True"
| "is_mutation (CallDynDelete r ns n a) = True"
| "is_mutation _ = False"

text \<open>The calls that do not leave this machine: files, processes, the clock, the context.\<close>

fun is_local :: "'o call \<Rightarrow> bool" where
  "is_local (CallOS c) = True"
| "is_local (CallCtxErr e) = True"
| "is_local (CallNow t) = True"
| "is_local _ = False"

lemma local_harmless: "is_local c \<Longrightarrow> \<not> is_mutation c"
  by (cases c) auto

end
