(* ===== verification/Samples.thy ===== *)
theory Samples
  imports World
begin

section \<open>Concrete objects for the witnesses\<close>

text \<open>
  A small concrete \<open>Unstructured\<close>: a record with the fields the accessors read, the accessors
  on it (lawful), two objects, and a mapper that knows ConfigMap (namespaced) and ClusterRole
  (cluster-scoped). The witnesses of the other theories apply their theorems to these; nothing
  here models code.
\<close>

record sobj =
  so_apiVersion :: string
  so_kind :: string
  so_name :: string
  so_namespace :: string
  so_group :: string
  so_version :: string
  so_labels :: "labels option"
  so_annotations :: "labels option"
  so_body :: string

definition s_api :: "sobj uapi" where
  "s_api = \<lparr>GetAPIVersion = so_apiVersion, GetKind = so_kind, GetName = so_name,
     GetNamespace = so_namespace,
     GroupVersionKind = (\<lambda>b. \<lparr>gvk_group = so_group b, gvk_version = so_version b, gvk_kind = so_kind b\<rparr>),
     HasGenerateName = (\<lambda>b. False), GetLabels = so_labels, GetAnnotations = so_annotations,
     SetNamespace = (\<lambda>ns b. b\<lparr>so_namespace := ns\<rparr>), SetLabels = (\<lambda>m b. b\<lparr>so_labels := Some m\<rparr>),
     SetAnnotations = (\<lambda>m b. b\<lparr>so_annotations := Some m\<rparr>), MarshalObject = (\<lambda>b. Inr (so_body b)),
     gvkString = (\<lambda>g. gvk_group g @ ''/'' @ gvk_version g @ '', Kind='' @ gvk_kind g),
     groupKindString = (\<lambda>g. gvk_kind g @ ''.'' @ gvk_group g),
     IsDNS1123Label = (\<lambda>s. if s = [] then [''empty''] else [])\<rparr>"

lemma s_api_simps [simp]:
  "GetAPIVersion s_api = so_apiVersion" "GetKind s_api = so_kind" "GetName s_api = so_name"
  "GetNamespace s_api = so_namespace" "GetLabels s_api = so_labels"
  "GetAnnotations s_api = so_annotations"
  "GroupVersionKind s_api b = \<lparr>gvk_group = so_group b, gvk_version = so_version b, gvk_kind = so_kind b\<rparr>"
  "HasGenerateName s_api b = False" "SetNamespace s_api ns b = b\<lparr>so_namespace := ns\<rparr>"
  "SetLabels s_api m b = b\<lparr>so_labels := Some m\<rparr>"
  "SetAnnotations s_api m b = b\<lparr>so_annotations := Some m\<rparr>"
  "MarshalObject s_api b = Inr (so_body b)"
  "gvkString s_api g = gvk_group g @ ''/'' @ gvk_version g @ '', Kind='' @ gvk_kind g"
  "groupKindString s_api g = gvk_kind g @ ''.'' @ gvk_group g"
  "IsDNS1123Label s_api s = (if s = [] then [''empty''] else [])"
  by (simp_all add: s_api_def)

lemma s_api_lawful [simp]: "lawful_uapi s_api"
  by (simp add: lawful_uapi_def Let_def)

definition s_configmap :: sobj where
  "s_configmap = \<lparr>so_apiVersion = ''v1'', so_kind = ''ConfigMap'', so_name = ''settings'',
     so_namespace = [], so_group = [], so_version = ''v1'', so_labels = None, so_annotations = None,
     so_body = ''{}''\<rparr>"

definition s_clusterrole :: sobj where
  "s_clusterrole = \<lparr>so_apiVersion = ''rbac/v1'', so_kind = ''ClusterRole'', so_name = ''reader'',
     so_namespace = ''apps'', so_group = ''rbac'', so_version = ''v1'', so_labels = None,
     so_annotations = None, so_body = ''{}''\<rparr>"

definition s_mapper :: "gvk \<Rightarrow> rest_mapping result" where
  "s_mapper g =
     (if gvk_kind g = ''ConfigMap'' then
        Inr \<lparr>rm_resource = \<lparr>gvr_group = [], gvr_version = ''v1'', gvr_resource = ''configmaps''\<rparr>,
             rm_scope = RESTScopeNameNamespace\<rparr>
      else if gvk_kind g = ''ClusterRole'' then
        Inr \<lparr>rm_resource = \<lparr>gvr_group = ''rbac'', gvr_version = ''v1'', gvr_resource = ''clusterroles''\<rparr>,
             rm_scope = RESTScopeNameRoot\<rparr>
      else Inl (Errorf ''no match''))"

text \<open>An operating system on which everything succeeds and git answers with a commit.\<close>

definition s_os :: "sobj call list os_env" where
  "s_os = \<lparr>os_TempDir = ''/tmp'', os_Getenv = (\<lambda>v. []), os_MkdirAll = (\<lambda>h p. None), os_Stat = (\<lambda>h p. Inr True),
     os_MkdirTemp = (\<lambda>h d pat. Inr (d @ ''/tmp-1'')), os_WriteFile = (\<lambda>h p content perm. None),
     os_RemoveAll = (\<lambda>h p. None), os_Rename = (\<lambda>h p q. None), os_OpenLock = (\<lambda>h p. None),
     os_FlockTry = (\<lambda>h p. None),
     os_RunGit = (\<lambda>h bin dir extra args. (replicate 40 (CHR ''a''), None)),
     os_ReadFile = (\<lambda>h p. Inr []), os_WalkTree = (\<lambda>h p. DirTree [])\<rparr>"

text \<open>
  A world in which every write succeeds, no object exists yet, and the clock stands still, with a given answer
  for the application and a given directory tree; and the one without an application and without files.
\<close>

definition s_world :: "git_application result \<Rightarrow> dir_tree \<Rightarrow> sobj env" where
  "s_world g t = \<lparr>env_ctxErr = (\<lambda>h. None), env_now = (\<lambda>h. 7), env_getApp = (\<lambda>h ns n. g),
     env_getSecret = (\<lambda>h ns n. Inl (ApiStatus True ''not found'')), env_statusPatch = (\<lambda>h base app. Inr app),
     env_mapper = (\<lambda>h. s_mapper), env_dynPatch = (\<lambda>h r ns n b opts. None),
     env_dynGet = (\<lambda>h r ns n. Inl (ApiStatus True ''not found'')), env_dynDelete = (\<lambda>h r ns n. None),
     env_os = s_os\<lparr>os_WalkTree := (\<lambda>h p. t)\<rparr>, env_queueGet = (\<lambda>h. ([], True))\<rparr>"

abbreviation s_env :: "sobj env" where
  "s_env \<equiv> s_world (Inl (Errorf [])) (DirTree [])"

lemmas s_env_def = s_world_def

end
