(* ===== verification/Apply_Objects.thy ===== *)
theory Apply_Objects
  imports Samples
begin

section \<open>Normalising, validating and applying objects: package internal/apply\<close>

text \<open>
  \<open>NormalizeAndValidate\<close> is a pure function of the rendered objects, the REST mapper and the
  policy: the loop body is \<open>normalize_object\<close>, the loop \<open>normalize_loop\<close>. A nil object is
  \<open>None\<close>. The Go code mutates the objects it was given and returns the same pointers; the
  rendered objects are used for nothing else, so the model returns the changed objects.
  \<open>Apply\<close> sends one Server-Side Apply patch per object and stops at the first failure.
\<close>

definition ManagedByLabel :: string where "ManagedByLabel = ''app.kubernetes.io/managed-by''"
definition ManagedByValue :: string where "ManagedByValue = ''tiny-gitops''"
definition ApplicationUIDAnno :: string where "ApplicationUIDAnno = ''gitops.cabure.io/application-uid''"
definition SourceRevisionAnno :: string where "SourceRevisionAnno = ''gitops.cabure.io/source-revision''"
definition DefaultFieldManager :: string where "DefaultFieldManager = ''tiny-gitops-controller''"
definition MaxObjectSizeBytes :: nat where "MaxObjectSizeBytes = 1024 * 1024"

definition supportedClusterScopedKinds :: "string list" where
  "supportedClusterScopedKinds =
     [''namespace'', ''customresourcedefinition'', ''clusterrole'', ''clusterrolebinding'']"

record policy =
  pol_destinationNamespace :: string
  pol_applicationUID :: string
  pol_sourceRevision :: string
  pol_allowClusterScoped :: bool
  pol_allowedClusterScopedKinds :: "string list"
  pol_forceApply :: bool
  pol_fieldManager :: string

definition IsSupportedClusterScopedKind :: "string \<Rightarrow> bool" where
  "IsSupportedClusterScopedKind kind \<longleftrightarrow> ToLower kind \<in> set supportedClusterScopedKinds"

fun scan_allowed :: "string \<Rightarrow> string list \<Rightarrow> bool" where
  "scan_allowed candidate [] = False"
| "scan_allowed candidate (item # allowed) =
     (if ToLower item = candidate then IsSupportedClusterScopedKind candidate
      else scan_allowed candidate allowed)"

definition clusterScopedKindAllowed :: "string \<Rightarrow> string list \<Rightarrow> bool" where
  "clusterScopedKindAllowed kind allowed =
     (if length allowed = 0 then False else scan_allowed (ToLower kind) allowed)"

definition ApplyPriority :: "string \<Rightarrow> nat" where
  "ApplyPriority kind =
     (let k = ToLower kind in
      if k = ''namespace'' then 0
      else if k = ''customresourcedefinition'' then 1
      else if k = ''serviceaccount'' then 2
      else if k = ''configmap'' \<or> k = ''secret'' then 3
      else if k = ''role'' \<or> k = ''clusterrole'' then 4
      else if k = ''rolebinding'' \<or> k = ''clusterrolebinding'' then 5
      else if k = ''service'' then 6
      else if k = ''persistentvolumeclaim'' then 7
      else if k = ''deployment'' \<or> k = ''statefulset'' \<or> k = ''daemonset'' \<or> k = ''job'' \<or> k = ''cronjob'' then 8
      else if k = ''ingress'' then 9
      else 10)"

definition applyPriority :: "'o uapi \<Rightarrow> 'o \<Rightarrow> nat" where
  "applyPriority u obj = ApplyPriority (GetKind u obj)"

definition basicValidate :: "'o uapi \<Rightarrow> 'o \<Rightarrow> gerror option" where
  "basicValidate u obj =
     (if GetAPIVersion u obj = [] \<or> GetKind u obj = [] then
        Some (Errorf ''missing apiVersion or kind'')
      else if GetName u obj = [] then
        (if HasGenerateName u obj then Some (Errorf ''generateName without name is not allowed'')
         else Some (Errorf ''metadata.name is required''))
      else None)"

definition ensureMetadata :: "'o uapi \<Rightarrow> policy \<Rightarrow> 'o \<Rightarrow> 'o" where
  "ensureMetadata u pol obj =
     (let labels = (case GetLabels u obj of None \<Rightarrow> Map.empty | Some m \<Rightarrow> m);
          obj1 = SetLabels u (labels(ManagedByLabel \<mapsto> ManagedByValue)) obj;
          annotations = (case GetAnnotations u obj1 of None \<Rightarrow> Map.empty | Some m \<Rightarrow> m)
      in SetAnnotations u (annotations(ApplicationUIDAnno \<mapsto> pol_applicationUID pol,
           SourceRevisionAnno \<mapsto> pol_sourceRevision pol)) obj1)"

definition sizeCheck :: "'o uapi \<Rightarrow> 'o \<Rightarrow> gerror option" where
  "sizeCheck u obj =
     (case MarshalObject u obj of
        Inl err \<Rightarrow> Some err
      | Inr raw \<Rightarrow>
          if MaxObjectSizeBytes < length raw then
            Some (Errorf (''object exceeds size limit ('' @ itoa (length raw) @ '' bytes)''))
          else None)"

definition resourceReferenceFor :: "'o uapi \<Rightarrow> gvr \<Rightarrow> 'o \<Rightarrow> resource_reference" where
  "resourceReferenceFor u res obj =
     \<lparr>rr_group = gvr_group res, rr_version = gvr_version res, rr_kind = GetKind u obj,
      rr_namespace = GetNamespace u obj, rr_name = GetName u obj\<rparr>"

text \<open>The message prefix \<open>kind/name\<close> of the loop's errors.\<close>

definition kind_name :: "'o uapi \<Rightarrow> 'o \<Rightarrow> string" where
  "kind_name u obj = gvk_kind (GroupVersionKind u obj) @ ''/'' @ GetName u obj"

text \<open>The two scope checks of the loop body: cluster-scoped kinds, then the namespace.\<close>

definition scope_check :: "'o uapi \<Rightarrow> policy \<Rightarrow> rest_mapping \<Rightarrow> 'o \<Rightarrow> gerror option" where
  "scope_check u pol mapping obj =
     (let kind = gvk_kind (GroupVersionKind u obj) in
      if rm_scope mapping = RESTScopeNameRoot then
        (if \<not> pol_allowClusterScoped pol then
           Some (Errorf (kind_name u obj @ '': cluster-scoped resources are disabled''))
         else if \<not> clusterScopedKindAllowed kind (pol_allowedClusterScopedKinds pol) then
           Some (Errorf (kind_name u obj @ '': cluster-scoped kind '' @ Quote kind @ '' is not allowed''))
         else None)
      else None)"

definition place_object :: "'o uapi \<Rightarrow> policy \<Rightarrow> rest_mapping \<Rightarrow> 'o \<Rightarrow> 'o result" where
  "place_object u pol mapping obj =
     (if rm_scope mapping = RESTScopeNameNamespace then
        (let ns = GetNamespace u obj in
         if ns = [] then Inr (SetNamespace u (pol_destinationNamespace pol) obj)
         else if ns \<noteq> pol_destinationNamespace pol then
           Inl (Errorf (kind_name u obj @ '': namespace '' @ Quote ns
             @ '' is outside destination namespace '' @ Quote (pol_destinationNamespace pol)))
         else Inr obj)
      else Inr (SetNamespace u [] obj))"

definition normalize_object ::
  "'o uapi \<Rightarrow> (gvk \<Rightarrow> rest_mapping result) \<Rightarrow> policy \<Rightarrow> nat \<Rightarrow> 'o option
     \<Rightarrow> ('o \<times> resource_reference) result" where
  "normalize_object u mapper pol idx o' =
     (case o' of
        None \<Rightarrow> Inl (Errorf (''object '' @ itoa (idx + 1) @ '': nil object''))
      | Some obj \<Rightarrow>
          (case basicValidate u obj of
             Some err \<Rightarrow> Inl (Wrapf (''object '' @ itoa (idx + 1) @ '': '') err [])
           | None \<Rightarrow>
               (case mapper (GroupVersionKind u obj) of
                  Inl err \<Rightarrow> Inl (Wrapf (groupKindString u (GroupVersionKind u obj) @ ''/''
                                       @ GetName u obj @ '': discovery: '') err [])
                | Inr mapping \<Rightarrow>
                    (case scope_check u pol mapping obj of
                       Some err \<Rightarrow> Inl err
                     | None \<Rightarrow>
                         (case place_object u pol mapping obj of
                            Inl err \<Rightarrow> Inl err
                          | Inr placed \<Rightarrow>
                              (let obj' = ensureMetadata u pol placed in
                               case sizeCheck u obj' of
                                 Some err \<Rightarrow> Inl (Wrapf (gvk_kind (GroupVersionKind u obj) @ ''/''
                                                    @ GetName u obj' @ '': '') err [])
                               | None \<Rightarrow>
                                   Inr (obj', resourceReferenceFor u (rm_resource mapping) obj')))))))"

fun normalize_loop ::
  "'o uapi \<Rightarrow> (gvk \<Rightarrow> rest_mapping result) \<Rightarrow> policy \<Rightarrow> nat \<Rightarrow> 'o option list
     \<Rightarrow> 'o list \<Rightarrow> resource_reference list \<Rightarrow> ('o list \<times> resource_reference list) result" where
  "normalize_loop u mapper pol idx [] out refs = Inr (out, refs)"
| "normalize_loop u mapper pol idx (obj # objects) out refs =
     (case normalize_object u mapper pol idx obj of
        Inl err \<Rightarrow> Inl err
      | Inr (obj', ref) \<Rightarrow>
          normalize_loop u mapper pol (idx + 1) objects (out @ [obj']) (refs @ [ref]))"

definition NormalizeAndValidate ::
  "'o uapi \<Rightarrow> (gvk \<Rightarrow> rest_mapping result) \<Rightarrow> 'o option list \<Rightarrow> policy
     \<Rightarrow> ('o list \<times> resource_reference list) result" where
  "NormalizeAndValidate u mapper objects pol =
     (let pol' = (if pol_fieldManager pol = [] then pol\<lparr>pol_fieldManager := DefaultFieldManager\<rparr>
                  else pol)
      in case normalize_loop u mapper pol' 0 objects [] [] of
           Inl err \<Rightarrow> Inl err
         | Inr (out, refs) \<Rightarrow>
             Inr (sort_key (applyPriority u) out, sort_key (Key (gvkString u)) refs))"

fun apply_loop :: "'o env \<Rightarrow> 'o uapi \<Rightarrow> string \<Rightarrow> bool \<Rightarrow> 'o list \<Rightarrow> ('o, gerror option) prog" where
  "apply_loop env u fieldManager forceApply [] = State_Monad.return None"
| "apply_loop env u fieldManager forceApply (obj # objects) =
     (case MarshalObject u obj of
        Inl err \<Rightarrow> State_Monad.return (Some err)
      | Inr patch \<Rightarrow> do {
          m \<leftarrow> restMapping env (GroupVersionKind u obj);
          case m of
            Inl err \<Rightarrow> State_Monad.return (Some err)
          | Inr mapping \<Rightarrow> do {
              r \<leftarrow> (if rm_scope mapping = RESTScopeNameNamespace then
                     dynPatch env (rm_resource mapping) (Some (GetNamespace u obj)) (GetName u obj) patch
                       \<lparr>po_fieldManager = fieldManager, po_force = forceApply\<rparr>
                   else
                     dynPatch env (rm_resource mapping) None (GetName u obj) patch
                       \<lparr>po_fieldManager = fieldManager, po_force = forceApply\<rparr>);
              (case r of
                 Some err \<Rightarrow> State_Monad.return (Some (Wrapf (kind_name u obj @ '': apply: '') err []))
               | None \<Rightarrow> apply_loop env u fieldManager forceApply objects)
            }
        })"

definition Apply :: "'o env \<Rightarrow> 'o uapi \<Rightarrow> 'o list \<Rightarrow> string \<Rightarrow> bool \<Rightarrow> ('o, gerror option) prog" where
  "Apply env u objects fieldManager forceApply =
     apply_loop env u (if fieldManager = [] then DefaultFieldManager else fieldManager)
       forceApply objects"



subsection \<open>What a normalised object satisfies\<close>

text \<open>
  The promise of the package, as one predicate on an object that is about to be applied: it
  carries Cabure's ownership metadata, its namespace fits its scope and the destination, a
  cluster-scoped kind is enabled, allowed and supported, and its JSON fits the size limit.
\<close>

definition owned_by :: "'o uapi \<Rightarrow> string \<Rightarrow> 'o \<Rightarrow> bool" where
  "owned_by u uid obj \<longleftrightarrow> map_index (GetAnnotations u obj) ApplicationUIDAnno = uid
     \<and> map_index (GetLabels u obj) ManagedByLabel = ManagedByValue"

definition well_placed :: "'o uapi \<Rightarrow> policy \<Rightarrow> rest_mapping \<Rightarrow> 'o \<Rightarrow> bool" where
  "well_placed u pol mapping obj \<longleftrightarrow>
     (case rm_scope mapping of
        RESTScopeNameNamespace \<Rightarrow> GetNamespace u obj = pol_destinationNamespace pol
      | RESTScopeNameRoot \<Rightarrow> GetNamespace u obj = [] \<and> pol_allowClusterScoped pol
          \<and> ToLower (gvk_kind (GroupVersionKind u obj)) \<in> ToLower ` set (pol_allowedClusterScopedKinds pol)
          \<and> ToLower (gvk_kind (GroupVersionKind u obj)) \<in> set supportedClusterScopedKinds
      | RESTScopeNameOther s \<Rightarrow> GetNamespace u obj = [])"

definition fits :: "'o uapi \<Rightarrow> 'o \<Rightarrow> bool" where
  "fits u obj \<longleftrightarrow> (\<exists>raw. MarshalObject u obj = Inr raw \<and> length raw \<le> 1024 * 1024)"

definition applicable :: "'o uapi \<Rightarrow> (gvk \<Rightarrow> rest_mapping result) \<Rightarrow> policy \<Rightarrow> 'o \<Rightarrow> bool" where
  "applicable u mapper pol obj \<longleftrightarrow>
     GetName u obj \<noteq> []
     \<and> owned_by u (pol_applicationUID pol) obj
     \<and> map_index (GetAnnotations u obj) SourceRevisionAnno = pol_sourceRevision pol
     \<and> (\<exists>mapping. mapper (GroupVersionKind u obj) = Inr mapping \<and> well_placed u pol mapping obj)
     \<and> fits u obj"

lemma scan_allowed_iff:
  "scan_allowed c allowed \<longleftrightarrow> c \<in> ToLower ` set allowed \<and> IsSupportedClusterScopedKind c"
  by (induction allowed) auto

lemma clusterScopedKindAllowed_iff:
  "clusterScopedKindAllowed kind allowed \<longleftrightarrow>
     ToLower kind \<in> ToLower ` set allowed \<and> ToLower kind \<in> set supportedClusterScopedKinds"
  by (auto simp: clusterScopedKindAllowed_def scan_allowed_iff IsSupportedClusterScopedKind_def)

lemma basicValidate_name: "basicValidate u obj = None \<Longrightarrow> GetName u obj \<noteq> []"
  by (auto simp: basicValidate_def split: if_splits)

lemma ensureMetadata_lawful:
  assumes "lawful_uapi u" and "GetName u obj \<noteq> []"
  shows "GetName u (ensureMetadata u pol obj) = GetName u obj"
    and "GetKind u (ensureMetadata u pol obj) = GetKind u obj"
    and "GroupVersionKind u (ensureMetadata u pol obj) = GroupVersionKind u obj"
    and "GetNamespace u (ensureMetadata u pol obj) = GetNamespace u obj"
    and "owned_by u (pol_applicationUID pol) (ensureMetadata u pol obj)"
    and "map_index (GetAnnotations u (ensureMetadata u pol obj)) SourceRevisionAnno = pol_sourceRevision pol"
  using assms
  by (simp_all add: ensureMetadata_def Let_def lawful_simps owned_by_def map_index_def
      ApplicationUIDAnno_def SourceRevisionAnno_def)

text \<open>The keys Cabure does not own keep the values the manifest gave them.\<close>

lemma ensureMetadata_frame:
  assumes "lawful_uapi u" and "GetName u obj \<noteq> []"
  shows "k \<noteq> ManagedByLabel \<Longrightarrow>
      map_index (GetLabels u (ensureMetadata u pol obj)) k = map_index (GetLabels u obj) k"
    and "k \<noteq> ApplicationUIDAnno \<Longrightarrow> k \<noteq> SourceRevisionAnno \<Longrightarrow>
      map_index (GetAnnotations u (ensureMetadata u pol obj)) k = map_index (GetAnnotations u obj) k"
  using assms
  by (auto simp: ensureMetadata_def Let_def lawful_simps map_index_def split: option.splits)

lemma place_object_lawful:
  assumes "place_object u pol mapping obj = Inr placed" and "lawful_uapi u" and "GetName u obj \<noteq> []"
  shows "GetName u placed = GetName u obj" and "GroupVersionKind u placed = GroupVersionKind u obj"
    and "GetKind u placed = GetKind u obj"
    and "GetLabels u placed = GetLabels u obj" and "GetAnnotations u placed = GetAnnotations u obj"
    and "GetNamespace u placed =
      (if rm_scope mapping = RESTScopeNameNamespace then pol_destinationNamespace pol else [])"
  using assms by (auto simp: place_object_def Let_def lawful_simps split: if_splits)

lemma sizeCheck_None: "sizeCheck u obj = None \<longleftrightarrow> fits u obj"
  by (auto simp: sizeCheck_def fits_def MaxObjectSizeBytes_def split: sum.splits if_splits)

lemma scope_check_placed:
  assumes "scope_check u pol mapping obj = None" and "place_object u pol mapping obj = Inr placed"
    and "lawful_uapi u" and "GetName u obj \<noteq> []"
  shows "well_placed u pol mapping placed"
  using assms(1) place_object_lawful [OF assms(2-4)]
  by (auto simp: scope_check_def well_placed_def clusterScopedKindAllowed_iff Let_def
      split: scope_name.splits if_splits)

lemma normalize_object_Inr:
  assumes "normalize_object u mapper pol idx o' = Inr (obj', ref)"
  obtains obj mapping placed where "o' = Some obj" "basicValidate u obj = None"
    "mapper (GroupVersionKind u obj) = Inr mapping" "scope_check u pol mapping obj = None"
    "place_object u pol mapping obj = Inr placed" "obj' = ensureMetadata u pol placed"
    "sizeCheck u obj' = None" "ref = resourceReferenceFor u (rm_resource mapping) obj'"
  using assms by (auto simp: normalize_object_def Let_def split: option.splits sum.splits)

lemma normalize_object_index:
  "normalize_object u mapper pol i o' = Inr p \<longleftrightarrow> normalize_object u mapper pol j o' = Inr p"
  by (auto simp: normalize_object_def Let_def split: option.splits sum.splits)

lemma normalize_object_applicable:
  assumes "normalize_object u mapper pol idx o' = Inr (obj', ref)" and law: "lawful_uapi u"
  shows "applicable u mapper pol obj'"
proof -
  from assms(1) obtain obj mapping placed where 1: "basicValidate u obj = None"
    "mapper (GroupVersionKind u obj) = Inr mapping" "scope_check u pol mapping obj = None"
    "place_object u pol mapping obj = Inr placed" "obj' = ensureMetadata u pol placed"
    "sizeCheck u obj' = None" by (rule normalize_object_Inr)
  note name = basicValidate_name [OF 1(1)]
  note pl = place_object_lawful [OF 1(4) law name]
  from name pl have "GetName u placed \<noteq> []" by simp
  note em = ensureMetadata_lawful [OF law this, of pol]
  have "well_placed u pol mapping placed" by (rule scope_check_placed [OF 1(3,4) law name])
  then have "well_placed u pol mapping obj'"
    using em pl 1(5) by (simp add: well_placed_def cong: scope_name.case_cong)
  with 1 em pl name show ?thesis by (simp add: applicable_def sizeCheck_None)
qed



subsection \<open>The loop\<close>

lemma normalize_loop_Inr:
  "normalize_loop u mapper pol idx objs out refs = Inr (out', refs') \<Longrightarrow>
     \<exists>ps. list_all2 (\<lambda>o' p. normalize_object u mapper pol 0 o' = Inr p) objs ps
        \<and> out' = out @ List.map fst ps \<and> refs' = refs @ List.map snd ps"
proof (induction objs arbitrary: idx out refs)
  case Nil
  then show ?case by simp
next
  case (Cons o' objs)
  from Cons.prems obtain obj' ref where 1: "normalize_object u mapper pol idx o' = Inr (obj', ref)"
    and "normalize_loop u mapper pol (idx + 1) objs (out @ [obj']) (refs @ [ref]) = Inr (out', refs')"
    by (auto split: sum.splits)
  from Cons.IH [OF this(2)] obtain ps
    where "list_all2 (\<lambda>o' p. normalize_object u mapper pol 0 o' = Inr p) objs ps"
      "out' = out @ obj' # List.map fst ps" "refs' = refs @ ref # List.map snd ps" by auto
  with 1 normalize_object_index [of u mapper pol idx o' "(obj', ref)" 0] show ?case
    by (intro exI [of _ "(obj', ref) # ps"]) simp
qed

lemma normalize_loop_Inl:
  "normalize_loop u mapper pol idx objs out refs = Inl err \<longleftrightarrow>
     (\<exists>pre bad post. objs = pre @ bad # post
        \<and> (\<forall>o' \<in> set pre. \<exists>p. normalize_object u mapper pol 0 o' = Inr p)
        \<and> normalize_object u mapper pol (idx + length pre) bad = Inl err)"
proof (induction objs arbitrary: idx out refs)
  case Nil
  then show ?case by simp
next
  case (Cons o' objs)
  show ?case
  proof (cases "normalize_object u mapper pol idx o'")
    case (Inl e)
    have first: "\<not> (\<exists>p. normalize_object u mapper pol 0 o' = Inr p)"
      using Inl normalize_object_index [of u mapper pol idx o' _ 0] by (metis sum.distinct(1))
    have "(\<exists>pre bad post. o' # objs = pre @ bad # post
        \<and> (\<forall>o' \<in> set pre. \<exists>p. normalize_object u mapper pol 0 o' = Inr p)
        \<and> normalize_object u mapper pol (idx + length pre) bad = Inl err) \<longleftrightarrow> e = err"
      (is "(\<exists>pre bad post. ?P pre bad post) \<longleftrightarrow> _")
    proof
      assume "\<exists>pre bad post. ?P pre bad post"
      then obtain pre bad post where P: "?P pre bad post" by blast
      with first have "pre = []" by (cases pre) auto
      with P Inl show "e = err" by simp
    next
      assume "e = err"
      with Inl show "\<exists>pre bad post. ?P pre bad post" by (intro exI [of _ "[]"]) auto
    qed
    with Inl show ?thesis by simp
  next
    case (Inr p)
    then have ok: "\<exists>p. normalize_object u mapper pol 0 o' = Inr p"
      using normalize_object_index [of u mapper pol idx o' _ 0] by blast
    have "normalize_loop u mapper pol idx (o' # objs) out refs = Inl err \<longleftrightarrow>
      (\<exists>pre bad post. objs = pre @ bad # post
        \<and> (\<forall>o' \<in> set pre. \<exists>p. normalize_object u mapper pol 0 o' = Inr p)
        \<and> normalize_object u mapper pol (idx + 1 + length pre) bad = Inl err)"
      using Inr Cons.IH by (simp split: prod.split)
    also have "\<dots> \<longleftrightarrow> (\<exists>pre bad post. o' # objs = pre @ bad # post
        \<and> (\<forall>o' \<in> set pre. \<exists>p. normalize_object u mapper pol 0 o' = Inr p)
        \<and> normalize_object u mapper pol (idx + length pre) bad = Inl err)"
      (is "(\<exists>pre bad post. ?A pre bad post) \<longleftrightarrow> (\<exists>pre bad post. ?B pre bad post)")
    proof
      assume "\<exists>pre bad post. ?A pre bad post"
      then obtain pre bad post where A: "?A pre bad post" by blast
      then have "?B (o' # pre) bad post" using ok by simp
      then show "\<exists>pre bad post. ?B pre bad post" by blast
    next
      assume "\<exists>pre bad post. ?B pre bad post"
      then obtain pre bad post where B: "?B pre bad post" by blast
      with Inr have "pre \<noteq> []" by auto
      with B have "?A (tl pre) bad post" by (cases pre) auto
      then show "\<exists>pre bad post. ?A pre bad post" by blast
    qed
    finally show ?thesis .
  qed
qed

lemma normalize_loop_policy:
  "normalize_loop u mapper (pol\<lparr>pol_fieldManager := m\<rparr>) idx objs out refs
     = normalize_loop u mapper pol idx objs out refs"
proof -
  have "scope_check u (pol\<lparr>pol_fieldManager := m\<rparr>) = scope_check u pol"
    "place_object u (pol\<lparr>pol_fieldManager := m\<rparr>) = place_object u pol"
    "ensureMetadata u (pol\<lparr>pol_fieldManager := m\<rparr>) = ensureMetadata u pol"
    by (intro ext; simp add: scope_check_def place_object_def ensureMetadata_def Let_def)+
  then have "normalize_object u mapper (pol\<lparr>pol_fieldManager := m\<rparr>) i o' = normalize_object u mapper pol i o'"
    for i o' unfolding normalize_object_def by (simp only:)
  then show ?thesis
    by (induction objs arbitrary: idx out refs) (simp_all split: sum.split prod.split)
qed

lemma NormalizeAndValidate_loop:
  "NormalizeAndValidate u mapper objs pol =
     (case normalize_loop u mapper pol 0 objs [] [] of
        Inl err \<Rightarrow> Inl err
      | Inr (out, refs) \<Rightarrow> Inr (sort_key (applyPriority u) out, sort_key (Key (gvkString u)) refs))"
  by (simp add: NormalizeAndValidate_def Let_def normalize_loop_policy)

lemma NormalizeAndValidate_Inr:
  assumes "NormalizeAndValidate u mapper objs pol = Inr (out, refs)"
  obtains ps where "list_all2 (\<lambda>o' p. normalize_object u mapper pol 0 o' = Inr p) objs ps"
    and "out = sort_key (applyPriority u) (List.map fst ps)"
    and "refs = sort_key (Key (gvkString u)) (List.map snd ps)"
  using assms by (auto simp: NormalizeAndValidate_loop split: sum.splits prod.splits
      dest!: normalize_loop_Inr)

lemma normalized_applicable:
  assumes "NormalizeAndValidate u mapper objs pol = Inr (out, refs)" and "lawful_uapi u"
    and "obj \<in> set out"
  shows "applicable u mapper pol obj"
proof -
  from assms(1) obtain ps where
    "list_all2 (\<lambda>o' p. normalize_object u mapper pol 0 o' = Inr p) objs ps"
    "out = sort_key (applyPriority u) (List.map fst ps)" by (rule NormalizeAndValidate_Inr)
  moreover from this(2) assms(3) obtain p where "p \<in> set ps" "obj = fst p" by auto
  ultimately obtain o' where "normalize_object u mapper pol 0 o' = Inr (obj, snd p)"
    by (auto dest: list_all2_mem2)
  with assms(2) show ?thesis by (simp add: normalize_object_applicable)
qed

text \<open>The reference recorded for an object, read off the object itself.\<close>

definition reference_of :: "'o uapi \<Rightarrow> (gvk \<Rightarrow> rest_mapping result) \<Rightarrow> 'o \<Rightarrow> resource_reference" where
  "reference_of u mapper obj = (case mapper (GroupVersionKind u obj) of
     Inr mapping \<Rightarrow> resourceReferenceFor u (rm_resource mapping) obj
   | Inl _ \<Rightarrow> resourceReferenceFor u \<lparr>gvr_group = [], gvr_version = [], gvr_resource = []\<rparr> obj)"

lemma normalize_object_reference:
  assumes "normalize_object u mapper pol idx o' = Inr (obj', ref)" and law: "lawful_uapi u"
  shows "ref = reference_of u mapper obj'"
proof -
  from assms(1) obtain obj mapping placed where 1: "basicValidate u obj = None"
    "mapper (GroupVersionKind u obj) = Inr mapping" "place_object u pol mapping obj = Inr placed"
    "obj' = ensureMetadata u pol placed" "ref = resourceReferenceFor u (rm_resource mapping) obj'"
    by (rule normalize_object_Inr)
  note name = basicValidate_name [OF 1(1)]
  note pl = place_object_lawful [OF 1(3) law name]
  from name pl have "GetName u placed \<noteq> []" by simp
  note em = ensureMetadata_lawful [OF law this, of pol]
  from 1 pl em show ?thesis by (simp add: reference_of_def)
qed



subsection \<open>Apply\<close>

text \<open>
  \<open>c\<close> is the patch of \<open>obj\<close> with these options, sent to the object's own name at the resource the
  mapper names for its kind, in its namespace if the kind is namespaced.
\<close>

definition patch_of :: "'o env \<Rightarrow> 'o uapi \<Rightarrow> string \<Rightarrow> bool \<Rightarrow> 'o \<Rightarrow> 'o call \<Rightarrow> bool" where
  "patch_of env u fm force obj c \<longleftrightarrow>
     (case c of CallDynPatch res ns n body opts a \<Rightarrow>
        n = GetName u obj
        \<and> (\<exists>h mapping. env_mapper env h (GroupVersionKind u obj) = Inr mapping
             \<and> res = rm_resource mapping
             \<and> ns = (if rm_scope mapping = RESTScopeNameNamespace then Some (GetNamespace u obj) else None))
        \<and> MarshalObject u obj = Inr body \<and> opts = \<lparr>po_fieldManager = fm, po_force = force\<rparr>
      | _ \<Rightarrow> False)"

fun patch_ok :: "'o call \<Rightarrow> bool" where
  "patch_ok (CallDynPatch res ns n body opts a) \<longleftrightarrow> a = None"
| "patch_ok _ \<longleftrightarrow> False"

text \<open>
  The run of the loop: the calls are patches of the first objects, one each and in order, all
  accepted except possibly the last; success means that every object was patched.
\<close>

definition apply_run :: "'o env \<Rightarrow> 'o uapi \<Rightarrow> string \<Rightarrow> bool \<Rightarrow> 'o list \<Rightarrow> 'o call list \<Rightarrow> gerror option \<Rightarrow> bool" where
  "apply_run env u fm force objs new r \<longleftrightarrow>
     length new \<le> length objs
     \<and> list_all2 (patch_of env u fm force) (take (length new) objs) new
     \<and> list_all patch_ok (butlast new)
     \<and> (r = None \<longrightarrow> length new = length objs \<and> list_all patch_ok new)"

lemma apply_run_Nil [simp]: "apply_run env u fm force objs [] (Some e)" "apply_run env u fm force [] [] None"
  by (simp_all add: apply_run_def)

lemma apply_run_single:
  "patch_of env u fm force obj c \<Longrightarrow> apply_run env u fm force (obj # objs) [c] (Some e)"
  by (simp add: apply_run_def)

lemma apply_run_Cons:
  "patch_of env u fm force obj c \<Longrightarrow> patch_ok c \<Longrightarrow> apply_run env u fm force objs new r
    \<Longrightarrow> apply_run env u fm force (obj # objs) (c # new) r"
  by (auto simp: apply_run_def)

lemma apply_loop_run:
  "run_state (apply_loop env u fm force objs) h = (r, h') \<Longrightarrow>
     \<exists>new. h' = h @ new \<and> apply_run env u fm force objs new r"
proof (induction objs arbitrary: h)
  case Nil
  then show ?case by simp
next
  case (Cons obj objs)
  show ?case
  proof (cases "\<exists>patch mapping. MarshalObject u obj = Inr patch
      \<and> env_mapper env h (GroupVersionKind u obj) = Inr mapping")
    case False
    with Cons.prems have "h' = h" "r \<noteq> None" by (auto split: sum.splits)
    then show ?thesis by (intro exI [of _ "[]"]) auto
  next
    case True
    then obtain patch mapping where m: "MarshalObject u obj = Inr patch"
      "env_mapper env h (GroupVersionKind u obj) = Inr mapping" by blast
    define ns where "ns = (if rm_scope mapping = RESTScopeNameNamespace
      then Some (GetNamespace u obj) else None)"
    define opts where "opts = \<lparr>po_fieldManager = fm, po_force = force\<rparr>"
    define a where "a = env_dynPatch env h (rm_resource mapping) ns (GetName u obj) patch opts"
    define c where "c = (CallDynPatch (rm_resource mapping) ns (GetName u obj) patch opts a :: 'a call)"
    have p: "patch_of env u fm force obj c"
      using m by (auto simp: patch_of_def c_def opts_def ns_def)
    have step: "run_state (apply_loop env u fm force (obj # objs)) h =
      (case a of Some err \<Rightarrow> (Some (Wrapf (kind_name u obj @ '': apply: '') err []), h @ [c])
       | None \<Rightarrow> run_state (apply_loop env u fm force objs) (h @ [c]))"
      by (simp add: m dynPatch_def c_def a_def ns_def opts_def split: option.split)
    show ?thesis
    proof (cases a)
      case (Some err)
      with Cons.prems step have "h' = h @ [c]" "r \<noteq> None" by auto
      with p show ?thesis by (auto intro!: exI [of _ "[c]"] apply_run_single)
    next
      case None
      with Cons.prems step obtain new where "h' = (h @ [c]) @ new" "apply_run env u fm force objs new r"
        using Cons.IH [of "h @ [c]"] by auto
      moreover from None have "patch_ok c" by (simp add: c_def)
      ultimately show ?thesis using p by (intro exI [of _ "c # new"]) (simp add: apply_run_Cons)
    qed
  qed
qed

lemma emits_Apply [wp]:
  assumes "\<And>obj c. obj \<in> set objs \<Longrightarrow>
      patch_of env u (if fm = [] then DefaultFieldManager else fm) force obj c \<Longrightarrow> P c"
  shows "emits P (Apply env u objs fm force)"
  unfolding emits_def Apply_def
proof
  fix h
  let ?fm = "if fm = [] then DefaultFieldManager else fm"
  obtain r h' where run: "run_state (apply_loop env u ?fm force objs) h = (r, h')"
    by (cases "run_state (apply_loop env u ?fm force objs) h")
  from apply_loop_run [OF run] obtain new
    where new: "h' = h @ new" "list_all2 (patch_of env u ?fm force) (take (length new) objs) new"
    by (auto simp: apply_run_def)
  have "P c" if "c \<in> set new" for c
  proof -
    from that new(2) obtain obj where "obj \<in> set (take (length new) objs)" "patch_of env u ?fm force obj c"
      by (blast dest: list_all2_mem2)
    then show ?thesis using assms by (blast dest: in_set_takeD)
  qed
  with run new(1) show "\<exists>new. snd (run_state (apply_loop env u ?fm force objs) h) = h @ new \<and> list_all P new"
    by (auto simp: list_all_iff)
qed



subsection \<open>Properties\<close>

definition s_policy :: policy where
  "s_policy = \<lparr>pol_destinationNamespace = ''demo'', pol_applicationUID = ''uid-1'',
     pol_sourceRevision = ''abc'', pol_allowClusterScoped = True,
     pol_allowedClusterScopedKinds = [''clusterrole''], pol_forceApply = False, pol_fieldManager = []\<rparr>"

text \<open>The sample ConfigMap and ClusterRole, normalised in that order.\<close>

definition s_configmap' :: sobj where
  "s_configmap' = ensureMetadata s_api s_policy (s_configmap\<lparr>so_namespace := ''demo''\<rparr>)"

definition s_clusterrole' :: sobj where
  "s_clusterrole' = ensureMetadata s_api s_policy (s_clusterrole\<lparr>so_namespace := []\<rparr>)"

lemmas s_eval = ToLower_def lower_char_def char_eval ApplyPriority_def applyPriority_def

lemma s_lower [simp]:
  "ToLower ''ClusterRole'' = ''clusterrole''" "ToLower ''clusterrole'' = ''clusterrole''"
  "ToLower ''ConfigMap'' = ''configmap''"
  by (simp_all add: s_eval)

lemma s_normalize_configmap:
  "normalize_object s_api s_mapper s_policy i (Some s_configmap)
     = Inr (s_configmap', resourceReferenceFor s_api \<lparr>gvr_group = [], gvr_version = ''v1'',
         gvr_resource = ''configmaps''\<rparr> s_configmap')"
  by (simp add: normalize_object_def basicValidate_def s_configmap_def s_mapper_def scope_check_def
      place_object_def Let_def sizeCheck_def ensureMetadata_def s_configmap'_def MaxObjectSizeBytes_def
      s_policy_def)

lemma s_normalize_clusterrole:
  "normalize_object s_api s_mapper s_policy i (Some s_clusterrole)
     = Inr (s_clusterrole', resourceReferenceFor s_api \<lparr>gvr_group = ''rbac'', gvr_version = ''v1'',
         gvr_resource = ''clusterroles''\<rparr> s_clusterrole')"
  by (simp add: normalize_object_def basicValidate_def s_clusterrole_def s_mapper_def scope_check_def
      place_object_def Let_def sizeCheck_def ensureMetadata_def s_clusterrole'_def MaxObjectSizeBytes_def
      s_policy_def clusterScopedKindAllowed_iff supportedClusterScopedKinds_def)

lemma s_normalized_fields [simp]:
  "so_kind s_configmap' = ''ConfigMap''" "so_kind s_clusterrole' = ''ClusterRole''"
  "so_name s_configmap' = ''settings''" "so_name s_clusterrole' = ''reader''"
  "so_namespace s_configmap' = ''demo''" "so_namespace s_clusterrole' = []"
  "so_body s_configmap' = ''{}''"
  by (simp_all add: s_configmap'_def s_clusterrole'_def ensureMetadata_def Let_def s_configmap_def
      s_clusterrole_def)

lemma s_priority [simp]: "applyPriority s_api s_configmap' = 3" "applyPriority s_api s_clusterrole' = 4"
  by (simp_all add: applyPriority_def ApplyPriority_def Let_def)

text \<open>The sample batch, in the order ClusterRole, ConfigMap, normalises; applying reorders it.\<close>

lemma s_normalized:
  "NormalizeAndValidate s_api s_mapper [Some s_clusterrole, Some s_configmap] s_policy
     = Inr ([s_configmap', s_clusterrole'], sort_key (Key (gvkString s_api))
         [resourceReferenceFor s_api \<lparr>gvr_group = ''rbac'', gvr_version = ''v1'',
            gvr_resource = ''clusterroles''\<rparr> s_clusterrole',
          resourceReferenceFor s_api \<lparr>gvr_group = [], gvr_version = ''v1'',
            gvr_resource = ''configmaps''\<rparr> s_configmap'])"
  by (simp add: NormalizeAndValidate_loop s_normalize_configmap s_normalize_clusterrole)

text \<open>
  C6: when \<open>NormalizeAndValidate\<close> accepts a batch, every object it returns is fit to be applied:
  it carries Cabure's managed-by label, the application's UID and the source revision; if its kind
  is namespaced it lies in the destination namespace; if its kind is cluster-scoped, the operator
  enabled cluster scope, the application allows the kind, the kind is one of the four supported ones,
  and the namespace is cleared; and its JSON is at most 1 MiB.
\<close>

theorem normalize_safe:
  assumes "lawful_uapi u"
    and "NormalizeAndValidate u mapper objects pol = Inr (out, refs)"
    and "obj \<in> set out"
  shows "applicable u mapper pol obj"
  using normalized_applicable [OF assms(2,1,3)] .

theorem normalize_safe_witness:
  "applicable s_api s_mapper s_policy s_configmap' \<and> applicable s_api s_mapper s_policy s_clusterrole'"
  by (intro conjI; rule normalize_safe [OF s_api_lawful s_normalized]) simp_all

text \<open>
  C17: the accepted batch is in apply order. The returned objects are the normalised forms of the
  given ones, sorted by apply priority (namespaces, then CRDs, and so on), and objects of the same
  priority keep the order in which the repository rendered them.
\<close>

theorem normalize_order:
  assumes "NormalizeAndValidate u mapper objects pol = Inr (out, refs)"
  shows "\<exists>ps. list_all2 (\<lambda>o' p. normalize_object u mapper pol 0 o' = Inr p) objects ps
    \<and> mset out = mset (List.map fst ps)
    \<and> sorted (List.map (applyPriority u) out)
    \<and> (\<forall>k. filter (\<lambda>x. applyPriority u x = k) out
           = filter (\<lambda>x. applyPriority u x = k) (List.map fst ps))"
proof -
  from assms obtain ps where "list_all2 (\<lambda>o' p. normalize_object u mapper pol 0 o' = Inr p) objects ps"
    and "out = sort_key (applyPriority u) (List.map fst ps)" by (rule NormalizeAndValidate_Inr)
  then show ?thesis by (intro exI [of _ ps]) (simp add: sort_key_stable)
qed

theorem normalize_order_witness:
  "sorted (List.map (applyPriority s_api) [s_configmap', s_clusterrole'])"
  using normalize_order [OF s_normalized] by blast

text \<open>
  the recorded inventory is exact. The references returned with an accepted batch are, up to
  order, the references of the objects that will be applied, one each, and they are sorted by key.
\<close>

lemma normalize_inventory:
  assumes "lawful_uapi u" and "NormalizeAndValidate u mapper objects pol = Inr (out, refs)"
  shows "mset refs = image_mset (reference_of u mapper) (mset out)
    \<and> sorted (List.map (Key (gvkString u)) refs)"
proof -
  from assms(2) obtain ps where ps: "list_all2 (\<lambda>o' p. normalize_object u mapper pol 0 o' = Inr p) objects ps"
    "out = sort_key (applyPriority u) (List.map fst ps)"
    "refs = sort_key (Key (gvkString u)) (List.map snd ps)" by (rule NormalizeAndValidate_Inr)
  have "snd p = reference_of u mapper (fst p)" if "p \<in> set ps" for p
    using list_all2_mem2 [OF ps(1) that] assms(1) by (metis normalize_object_reference prod.collapse)
  then have "List.map snd ps = List.map (reference_of u mapper) (List.map fst ps)" by simp
  with ps(2,3) show ?thesis by (metis mset_map mset_sort sorted_sort_key)
qed

theorem normalize_inventory_witness:
  "mset (sort_key (Key (gvkString s_api))
         [resourceReferenceFor s_api \<lparr>gvr_group = ''rbac'', gvr_version = ''v1'',
            gvr_resource = ''clusterroles''\<rparr> s_clusterrole',
          resourceReferenceFor s_api \<lparr>gvr_group = [], gvr_version = ''v1'',
            gvr_resource = ''configmaps''\<rparr> s_configmap'])
     = image_mset (reference_of s_api s_mapper) (mset [s_configmap', s_clusterrole'])"
  using normalize_inventory [OF s_api_lawful s_normalized] by blast

text \<open>
  C16: a batch is rejected exactly when one of its objects is, and the error is that of the first bad
  object, numbered by its position; the objects before it were fine. Nothing is returned then, so a
  violation anywhere in the repository's objects keeps all of them from being applied.
\<close>

theorem normalize_first_error:
  "NormalizeAndValidate u mapper objects pol = Inl err \<longleftrightarrow>
     (\<exists>pre bad post. objects = pre @ bad # post
        \<and> (\<forall>o' \<in> set pre. \<exists>p. normalize_object u mapper pol 0 o' = Inr p)
        \<and> normalize_object u mapper pol (length pre) bad = Inl err)"
  by (simp add: NormalizeAndValidate_loop flip: normalize_loop_Inl [of u mapper pol 0 objects "[]" "[]" err, simplified])
    (auto split: sum.splits)

theorem normalize_first_error_witness:
  "NormalizeAndValidate s_api s_mapper [Some s_configmap, None] s_policy
     = Inl (Errorf (''object '' @ itoa 2 @ '': nil object''))"
proof (subst normalize_first_error, intro exI conjI)
  show "[Some s_configmap, None] = [Some s_configmap] @ None # []" by simp
  show "\<forall>o' \<in> set [Some s_configmap]. \<exists>p. normalize_object s_api s_mapper s_policy 0 o' = Inr p"
    using s_normalize_configmap [of 0] by auto
  show "normalize_object s_api s_mapper s_policy (length [Some s_configmap]) None
      = Inl (Errorf (''object '' @ itoa 2 @ '': nil object''))"
    by (simp add: normalize_object_def numeral_2_eq_2)
qed

text \<open>
  \<open>Apply\<close> sends Server-Side Apply patches and nothing else: one per object, in the order of the
  list, each to the object's own name with the configured field manager and force flag; every patch
  before the last one sent was accepted; it stops at the first failure, and it reports success only
  when every object was patched and accepted.
\<close>

lemma apply_in_order:
  assumes "run_state (Apply env u objects fm force) h = (r, h')"
  shows "\<exists>new. h' = h @ new
    \<and> length new \<le> length objects
    \<and> list_all2 (patch_of env u (if fm = [] then DefaultFieldManager else fm) force)
         (take (length new) objects) new
    \<and> list_all patch_ok (butlast new)
    \<and> (r = None \<longrightarrow> length new = length objects \<and> list_all patch_ok new)"
proof -
  from assms obtain new where "h' = h @ new"
    "apply_run env u (if fm = [] then DefaultFieldManager else fm) force objects new r"
    using apply_loop_run unfolding Apply_def by blast
  then show ?thesis unfolding apply_run_def by blast
qed

theorem apply_in_order_witness:
  "\<exists>new. snd (run_state (Apply s_env s_api [s_configmap', s_clusterrole'] [] False) []) = new
     \<and> length new \<le> 2"
proof -
  obtain r h' where "run_state (Apply s_env s_api [s_configmap', s_clusterrole'] [] False) [] = (r, h')"
    by (cases "run_state (Apply s_env s_api [s_configmap', s_clusterrole'] [] False) []")
  with apply_in_order [OF this] show ?thesis by auto
qed

text \<open>
  normalising changes only what it must. The name, kind and group/version/kind of the object stay,
  and every label and annotation of the manifest other than the three keys that Cabure owns keeps its
  value.
\<close>

lemma normalize_preserves:
  assumes "lawful_uapi u" and "normalize_object u mapper pol idx (Some obj) = Inr (obj', ref)"
  shows "GetName u obj' = GetName u obj \<and> GetKind u obj' = GetKind u obj
    \<and> GroupVersionKind u obj' = GroupVersionKind u obj
    \<and> (\<forall>k. k \<noteq> ManagedByLabel \<longrightarrow> map_index (GetLabels u obj') k = map_index (GetLabels u obj) k)
    \<and> (\<forall>k. k \<noteq> ApplicationUIDAnno \<and> k \<noteq> SourceRevisionAnno \<longrightarrow>
          map_index (GetAnnotations u obj') k = map_index (GetAnnotations u obj) k)"
proof -
  from assms(2) obtain mapping placed where 1: "basicValidate u obj = None"
    "place_object u pol mapping obj = Inr placed" "obj' = ensureMetadata u pol placed"
    by (rule normalize_object_Inr) auto
  note name = basicValidate_name [OF 1(1)]
  note pl = place_object_lawful [OF 1(2) assms(1) name]
  from name pl have "GetName u placed \<noteq> []" by simp
  note em = ensureMetadata_lawful [OF assms(1) this] ensureMetadata_frame [OF assms(1) this]
  show ?thesis using em pl 1(3) by simp
qed

theorem normalize_preserves_witness:
  "GetName s_api s_configmap' = ''settings''
    \<and> map_index (GetLabels s_api s_configmap') ''team'' = map_index (GetLabels s_api s_configmap) ''team''"
  using normalize_preserves [OF s_api_lawful s_normalize_configmap [of 0]]
  by (simp add: ManagedByLabel_def)

end
