(* ===== verification/Validation.thy ===== *)
theory Validation
  imports Paths Apply_Objects
begin

section \<open>Validation of the spec: the controller's validateSpec\<close>

text \<open>
  \<open>internal/controller/options.go\<close> and the pure functions of
  \<open>internal/controller/gitapplication_controller.go\<close> that decide whether a \<open>GitApplication\<close> may be
  reconciled: the interval, the repository URL and its allow-list, the source path, the render
  type, the destination namespace (\<open>IsDNS1123Label\<close> of k8s.io/apimachinery is a field of
  \<open>'o uapi\<close>), the Helm settings and the allowed cluster-scoped kinds. The checks are in the
  code's order, each with its error.
\<close>

record operator_config =
  cfg_watchNamespace :: string
  cfg_concurrentReconciles :: int
  cfg_minimumRequeueInterval :: duration
  cfg_allowClusterScopedResources :: bool
  cfg_allowedRepositoryPrefixes :: "string list"
  cfg_fieldManager :: string
  cfg_cacheDir :: string

text \<open>
  The regular expression \<open>^[^@[:space:]]+@[^:[:space:]]+:.+\<close>. Each class excludes the character that
  must follow it, so there is one way to match, and reading greedily finds it. The dot does not
  match a newline.
\<close>

definition scp_user_char :: "char \<Rightarrow> bool" where
  "scp_user_char c \<longleftrightarrow> c \<noteq> CHR ''@'' \<and> \<not> is_space c"

definition scp_host_char :: "char \<Rightarrow> bool" where
  "scp_host_char c \<longleftrightarrow> c \<noteq> CHR '':'' \<and> \<not> is_space c"

definition sshSCPStyle :: "string \<Rightarrow> bool" where
  "sshSCPStyle s =
     (takeWhile scp_user_char s \<noteq> [] \<and>
      (case dropWhile scp_user_char s of
         [] \<Rightarrow> False
       | c # r \<Rightarrow> c = CHR ''@'' \<and> takeWhile scp_host_char r \<noteq> [] \<and>
           (case dropWhile scp_host_char r of
              c' # d # _ \<Rightarrow> c' = CHR '':'' \<and> d \<noteq> CHR 0x0A
            | _ \<Rightarrow> False)))"

definition isSSHRepositoryURL :: "string \<Rightarrow> bool" where
  "isSSHRepositoryURL repoURL \<longleftrightarrow> HasPrefix repoURL ''ssh://'' \<or> sshSCPStyle repoURL"

definition isSupportedRepositoryURL :: "string \<Rightarrow> bool" where
  "isSupportedRepositoryURL repoURL \<longleftrightarrow>
     HasPrefix repoURL ''https://'' \<or> isSSHRepositoryURL repoURL"

fun validateAllowedClusterScopedKinds :: "string list \<Rightarrow> gerror option" where
  "validateAllowedClusterScopedKinds [] = None"
| "validateAllowedClusterScopedKinds (kind # kinds) =
     (if \<not> IsSupportedClusterScopedKind kind then
        Some (Errorf (''allowedClusterScopedKinds: unsupported kind '' @ Quote kind))
      else validateAllowedClusterScopedKinds kinds)"

definition fieldManagerOrDefault :: "string \<Rightarrow> string" where
  "fieldManagerOrDefault value = (if value = [] then DefaultFieldManager else value)"

definition minimumRequeueInterval :: "operator_config \<Rightarrow> duration" where
  "minimumRequeueInterval cfg =
     (if cfg_minimumRequeueInterval cfg \<le> 0 then 15 * Second else cfg_minimumRequeueInterval cfg)"

fun validate_values_files :: "string list \<Rightarrow> gerror option" where
  "validate_values_files [] = None"
| "validate_values_files (vf # vfs) =
     (case validateValuesFilePath vf of
        Some err \<Rightarrow> Some (Wrapf ''render.helm.valuesFiles: '' err [])
      | None \<Rightarrow> validate_values_files vfs)"

definition validate_helm :: "git_application_spec \<Rightarrow> gerror option" where
  "validate_helm spec =
     (if rd_type (spec_render spec) = ''helm'' then
        (case rd_helm (spec_render spec) of
           None \<Rightarrow> Some (Errorf ''render.helm is required for helm rendering'')
         | Some helm \<Rightarrow>
             if hr_releaseName helm = [] then Some (Errorf ''render.helm.releaseName is required'')
             else validate_values_files (hr_valuesFiles helm))
      else None)"

definition validateSpec :: "'o uapi \<Rightarrow> git_application \<Rightarrow> operator_config \<Rightarrow> gerror option" where
  "validateSpec u app cfg =
     (let spec = app_spec app;
          repo = src_repository (spec_source spec);
          rtype = rd_type (spec_render spec);
          ns = dst_namespace (spec_destination spec)
      in
      if spec_interval spec < minimumRequeueInterval cfg then
        Some (Errorf (''interval must be at least '' @ Duration_String (minimumRequeueInterval cfg)))
      else if repo = [] \<or> \<not> isSupportedRepositoryURL repo then
        Some (Errorf ''repository must use https, ssh://, or scp-style ssh'')
      else if 0 < length (cfg_allowedRepositoryPrefixes cfg)
              \<and> \<not> list_ex (HasPrefix repo) (cfg_allowedRepositoryPrefixes cfg) then
        Some (Errorf (''repository '' @ Quote repo @ '' is not allowed''))
      else
        (case validateRelPath (src_path (spec_source spec)) of
           Some err \<Rightarrow> Some (Wrapf ''source.path: '' err [])
         | None \<Rightarrow>
             if rtype \<noteq> ''yaml'' \<and> rtype \<noteq> ''helm'' then
               Some (Errorf (''unsupported render type '' @ Quote rtype))
             else if ns = [] then Some (Errorf ''destination.namespace is required'')
             else if 0 < length (IsDNS1123Label u ns) then
               Some (Errorf (''destination.namespace: '' @ Join (IsDNS1123Label u ns) '', ''))
             else
               (case validate_helm spec of
                  Some err \<Rightarrow> Some err
                | None \<Rightarrow> validateAllowedClusterScopedKinds (spec_allowedClusterScopedKinds spec))))"


subsection \<open>Lemmas\<close>

lemma validateKinds_None:
  "validateAllowedClusterScopedKinds kinds = None \<longleftrightarrow> list_all IsSupportedClusterScopedKind kinds"
  by (induction kinds) auto

lemma validate_values_files_None:
  "validate_values_files vfs = None \<longleftrightarrow> (\<forall>vf \<in> set vfs. validateValuesFilePath vf = None)"
  by (induction vfs) (auto split: option.splits)

lemma minimumRequeueInterval_pos: "0 < minimumRequeueInterval cfg"
  by (simp add: minimumRequeueInterval_def Second_def)

subsection \<open>The scp-style pattern\<close>

text \<open>What the regular expression says, as a language.\<close>

definition scp_language :: "string \<Rightarrow> bool" where
  "scp_language s \<longleftrightarrow> (\<exists>user host c rest.
     s = user @ ''@'' @ host @ '':'' @ c # rest
     \<and> user \<noteq> [] \<and> (\<forall>x \<in> set user. x \<noteq> CHR ''@'' \<and> \<not> is_space x)
     \<and> host \<noteq> [] \<and> (\<forall>x \<in> set host. x \<noteq> CHR '':'' \<and> \<not> is_space x)
     \<and> c \<noteq> CHR 0x0A)"

lemma takeWhile_stop:
  "\<forall>x \<in> set u. P x \<Longrightarrow> \<not> P c \<Longrightarrow> takeWhile P (u @ c # v) = u \<and> dropWhile P (u @ c # v) = c # v"
  by (induction u) auto

lemma sshSCPStyle_iff: "sshSCPStyle s \<longleftrightarrow> scp_language s"
proof
  assume s: "sshSCPStyle s"
  let ?u = "takeWhile scp_user_char s"
  from s obtain r where r: "dropWhile scp_user_char s = CHR ''@'' # r" "?u \<noteq> []"
    "takeWhile scp_host_char r \<noteq> []"
    "case dropWhile scp_host_char r of c' # d # _ \<Rightarrow> c' = CHR '':'' \<and> d \<noteq> CHR 0x0A | _ \<Rightarrow> False"
    by (auto simp: sshSCPStyle_def split: list.splits)
  let ?h = "takeWhile scp_host_char r"
  from r(4) obtain d rest where d: "dropWhile scp_host_char r = CHR '':'' # d # rest" "d \<noteq> CHR 0x0A"
    by (auto split: list.splits)
  have "s = ?u @ ''@'' @ r" using takeWhile_dropWhile_id [of scp_user_char s] r(1) by simp
  moreover have "r = ?h @ '':'' @ d # rest"
    using takeWhile_dropWhile_id [of scp_host_char r] d(1) by simp
  moreover have "\<forall>x \<in> set ?u. x \<noteq> CHR ''@'' \<and> \<not> is_space x"
    by (auto dest: set_takeWhileD simp: scp_user_char_def)
  moreover have "\<forall>x \<in> set ?h. x \<noteq> CHR '':'' \<and> \<not> is_space x"
    by (auto dest: set_takeWhileD simp: scp_host_char_def)
  ultimately show "scp_language s" using r(2,3) d(2) unfolding scp_language_def by metis
next
  assume "scp_language s"
  then obtain user host c rest where s: "s = user @ CHR ''@'' # host @ CHR '':'' # c # rest"
    "user \<noteq> []" "\<forall>x \<in> set user. scp_user_char x" "host \<noteq> []" "\<forall>x \<in> set host. scp_host_char x"
    "c \<noteq> CHR 0x0A"
    by (auto simp: scp_language_def scp_user_char_def scp_host_char_def)
  from s takeWhile_stop [of user scp_user_char "CHR ''@''" "host @ CHR '':'' # c # rest"]
    takeWhile_stop [of host scp_host_char "CHR '':''" "c # rest"]
  show "sshSCPStyle s"
    by (simp add: sshSCPStyle_def scp_user_char_def [of "CHR ''@''"] scp_host_char_def [of "CHR '':''"])
qed


subsection \<open>The specification of an acceptable spec\<close>

text \<open>
  Constraint by constraint and without the code's own checks. \<open>supported_url\<close>: the text begins with one of two
  schemes, or is in the language of the scp-style pattern. \<open>inner_path\<close>: a relative path that, cleaned, names
  no parent directory and whose first name does not begin with two dots. A values file is one or more file
  names joined by single slashes.
\<close>

definition supported_url :: "string \<Rightarrow> bool" where
  "supported_url url \<longleftrightarrow> (\<exists>rest. url = ''https://'' @ rest) \<or> (\<exists>rest. url = ''ssh://'' @ rest) \<or> scp_language url"

definition inner_path :: "string \<Rightarrow> bool" where
  "inner_path p \<longleftrightarrow> p \<noteq> [] \<and> hd p \<noteq> CHR ''/''
     \<and> (\<forall>name \<in> set (path_comps p). name \<noteq> ''..'')
     \<and> (\<forall>name rest. path_comps p \<noteq> (''..'' @ name) # rest)"

definition valid_helm_settings :: "render_spec \<Rightarrow> bool" where
  "valid_helm_settings r \<longleftrightarrow> (rd_type r = ''helm'' \<longrightarrow>
     (\<exists>helm. rd_helm r = Some helm \<and> hr_releaseName helm \<noteq> []
        \<and> (\<forall>vf \<in> set (hr_valuesFiles helm).
              \<exists>cs. cs \<noteq> [] \<and> list_all ordinary cs \<and> vf = Join cs ''/'')))"

definition valid_spec :: "'o uapi \<Rightarrow> operator_config \<Rightarrow> git_application_spec \<Rightarrow> bool" where
  "valid_spec u cfg spec \<longleftrightarrow>
     (let repo = src_repository (spec_source spec); ns = dst_namespace (spec_destination spec);
          least = cfg_minimumRequeueInterval cfg in
       (if 0 < least then least else 15 * Second) \<le> spec_interval spec
     \<and> supported_url repo
     \<and> (cfg_allowedRepositoryPrefixes cfg = []
          \<or> (\<exists>p \<in> set (cfg_allowedRepositoryPrefixes cfg). \<exists>rest. repo = p @ rest))
     \<and> inner_path (src_path (spec_source spec))
     \<and> rd_type (spec_render spec) \<in> {''yaml'', ''helm''}
     \<and> ns \<noteq> [] \<and> IsDNS1123Label u ns = []
     \<and> valid_helm_settings (spec_render spec)
     \<and> (\<forall>k \<in> set (spec_allowedClusterScopedKinds spec). ToLower k \<in> set supportedClusterScopedKinds))"

lemma supported_url_iff: "isSupportedRepositoryURL url \<longleftrightarrow> supported_url url"
  by (simp add: isSupportedRepositoryURL_def isSSHRepositoryURL_def HasPrefix_def supported_url_def prefix_def
      sshSCPStyle_iff)

lemma dotdot_prefix_comps:
  assumes "\<not> IsAbs p"
  shows "prefix ''..'' (Clean p) \<longleftrightarrow> (\<exists>name rest. path_comps p = (''..'' @ name) # rest)"
proof (cases "path_comps p")
  case Nil
  with assms show ?thesis by (simp add: Clean_comps path_of_def)
next
  case (Cons c cs)
  from path_comps_shape [of p] Cons have "slash \<notin> set c" by (auto dest: clean_shape_slash_free)
  moreover have "Clean p = Join (c # cs) ''/''" using assms Cons by (simp add: Clean_comps path_of_def)
  ultimately have "prefix ''..'' (Clean p) \<longleftrightarrow> prefix ''..'' c"
    by (cases cs; cases c; cases "tl c") auto
  with Cons show ?thesis by (auto simp: prefix_def)
qed

lemma inner_path_iff: "validateRelPath p = None \<longleftrightarrow> inner_path p"
proof (cases "p = [] \<or> IsAbs p")
  case True
  then show ?thesis by (auto simp: validateRelPath_def inner_path_def IsAbs_def HasPrefix_def Let_def prefix_def)
next
  case False
  then have "hd p \<noteq> CHR ''/''" "p \<noteq> []" by (cases p; auto simp: IsAbs_def HasPrefix_def)+
  moreover have "dotdot \<in> set (path_comps p) \<Longrightarrow> \<exists>name rest. path_comps p = (''..'' @ name) # rest"
    using False rel_comps_starts_dotdot [of p] dotdot_prefix_comps [of p] by (auto simp: prefix_def)
  ultimately show ?thesis
    using False dotdot_prefix_comps [of p] by (auto simp: validateRelPath_def inner_path_def HasPrefix_def Let_def)
qed

lemma supported_not_empty: "isSupportedRepositoryURL repo \<Longrightarrow> repo \<noteq> []"
  by (auto simp: isSupportedRepositoryURL_def isSSHRepositoryURL_def HasPrefix_def sshSCPStyle_def)

lemma validate_helm_None: "validate_helm spec = None \<longleftrightarrow> valid_helm_settings (spec_render spec)"
  by (auto simp: validate_helm_def valid_helm_settings_def validate_values_files_None
      validateValuesFilePath_iff split: option.split)

lemma validateSpec_None: "validateSpec u app cfg = None \<longleftrightarrow> valid_spec u cfg (app_spec app)"
  using supported_not_empty [of "src_repository (spec_source (app_spec app))"]
  by (auto simp: validateSpec_def valid_spec_def Let_def validateKinds_None minimumRequeueInterval_def
      list_ex_iff list_all_iff IsSupportedClusterScopedKind_def HasPrefix_def prefix_def
      simp flip: validate_helm_None supported_url_iff inner_path_iff
      split: option.splits if_splits)



subsection \<open>Properties\<close>

definition s_app :: git_application where
  "s_app = \<lparr>app_meta = \<lparr>om_name = ''demo'', om_namespace = ''app-ns'', om_uid = ''uid-1'',
       om_generation = 3, om_deletionTimestamp = None\<rparr>,
     app_spec = \<lparr>spec_source = \<lparr>src_repository = ''https://x/r.git'', src_revision = ''main'',
         src_path = ''apps/demo'', src_secretRef = None\<rparr>,
       spec_destination = \<lparr>dst_namespace = ''demo''\<rparr>,
       spec_render = \<lparr>rd_type = ''yaml'', rd_helm = None\<rparr>,
       spec_allowedClusterScopedKinds = [''clusterrole''], spec_takeoverExistingResources = False,
       spec_interval = 60 * Second, spec_prune = True, spec_suspend = False\<rparr>,
     app_status = \<lparr>st_observedGeneration = 0, st_attemptedRevision = [], st_appliedRevision = [],
       st_lastAttemptTime = None, st_lastSuccessTime = None, st_inventory = [], st_conditions = []\<rparr>\<rparr>"

definition s_config :: operator_config where
  "s_config = \<lparr>cfg_watchNamespace = [], cfg_concurrentReconciles = 2, cfg_minimumRequeueInterval = 0,
     cfg_allowClusterScopedResources = True, cfg_allowedRepositoryPrefixes = [],
     cfg_fieldManager = [], cfg_cacheDir = ''/cache''\<rparr>"

text \<open>
  C18: \<open>validateSpec\<close> accepts exactly the specs that meet these constraints, each stated without the code's
  own checks: the interval reaches the operator's minimum (15 seconds, if none is set); the repository begins
  with \<open>https://\<close> or \<open>ssh://\<close> or is in the language of the scp-style pattern, a user without \<open>@\<close>, \<open>@\<close>, a host
  without \<open>:\<close>, \<open>:\<close> and more (a language that contains URLs of other schemes too), and begins with a prefix
  of the allow-list, if there is one; the source path is relative, does not lead to a parent directory and does
  not begin, cleaned, with two dots; the render type is yaml or helm; the destination namespace is given and a
  DNS label; Helm rendering has a release name, and its values files are file names joined by single slashes;
  and only supported kinds are allow-listed.
\<close>

theorem validate_spec_exact:
  "validateSpec u app cfg = None \<longleftrightarrow> valid_spec u cfg (app_spec app)"
  by (rule validateSpec_None)

text \<open>
  the matcher for scp-style URLs accepts the language of its regular expression: a user without
  \<open>@\<close> and white space, \<open>@\<close>, a host without \<open>:\<close> and white space, \<open>:\<close>, and at least one character that is
  not a newline, each part non-empty.
\<close>

lemma scp_pattern_exact: "sshSCPStyle repoURL \<longleftrightarrow> scp_language repoURL"
  by (rule sshSCPStyle_iff)

text \<open>
  the scp-style pattern is not anchored against other schemes. A plain-http URL, or a URL of any
  other scheme, with a user and a port passes \<open>validateSpec\<close>'s repository check although the error text
  promises https, ssh:// or scp-style only; and an https URL with a user and a port is
  classified as an SSH repository, so it is refused later for want of SSH credentials.
\<close>

lemma repository_check_too_wide:
  "isSupportedRepositoryURL ''http://git@host:8080/r.git''
     \<and> isSupportedRepositoryURL ''file://a@b:c''
     \<and> isSSHRepositoryURL ''https://git@host:8443/r.git''"
  by (simp add: isSupportedRepositoryURL_def isSSHRepositoryURL_def HasPrefix_def sshSCPStyle_def
      scp_user_char_def scp_host_char_def is_space_def Let_def)

text \<open>
  an allow-list is a hard limit. When the operator configures repository prefixes, no spec whose
  repository starts with none of them is accepted.
\<close>

lemma allow_list_enforced:
  assumes "validateSpec u app cfg = None" and "cfg_allowedRepositoryPrefixes cfg \<noteq> []"
  shows "\<exists>p \<in> set (cfg_allowedRepositoryPrefixes cfg). prefix p (src_repository (spec_source (app_spec app)))"
  using assms by (auto simp: validateSpec_None valid_spec_def Let_def prefix_def)

lemmas s_app_eval = valid_spec_def s_config_def s_app_def Second_def
  supported_url_def inner_path_def path_comps_def valid_helm_settings_def supportedClusterScopedKinds_def

lemma s_app_valid: "valid_spec s_api s_config (app_spec s_app)"
  by (simp add: s_app_eval)

theorem allow_list_enforced_witness:
  "\<exists>p \<in> {''https://x/''}. prefix p (src_repository (spec_source (app_spec s_app)))"
proof -
  let ?cfg = "s_config\<lparr>cfg_allowedRepositoryPrefixes := [''https://x/'']\<rparr>"
  have "valid_spec s_api ?cfg (app_spec s_app)"
    by (simp add: s_app_eval)
  then have "validateSpec s_api s_app ?cfg = None" by (simp add: validateSpec_None)
  from allow_list_enforced [OF this] show ?thesis by simp
qed

end
