(* ===== verification/Inventory.thy ===== *)
theory Inventory
  imports Api_Types "HOL-Library.AList"
begin

section \<open>Inventory: package internal/inventory\<close>

text \<open>
  \<open>Normalize\<close>, \<open>Equal\<close> and \<open>Diff\<close>. The Go map of \<open>Diff\<close> is an association list kept by
  \<open>AList.update\<close> and \<open>AList.delete\<close>; the order in which Go ranges over a map is not
  specified, so \<open>Diff\<close> takes it as its argument \<open>iter\<close>, and \<open>Diff_order_irrelevant\<close> shows that
  no order changes the result. \<open>sort.Slice\<close> is modelled by the library's sort; for the lists
  that \<open>Diff\<close> sorts, any other sorted permutation would be the same list.
\<close>

definition Normalize :: "(gvk \<Rightarrow> string) \<Rightarrow> resource_reference list \<Rightarrow> resource_reference list" where
  "Normalize ks items = sort_key (Key ks) items"

fun equal_from :: "resource_reference list \<Rightarrow> resource_reference list \<Rightarrow> bool" where
  "equal_from (a # as) (b # bs) = (if a \<noteq> b then False else equal_from as bs)"
| "equal_from _ _ = True"

definition Equal :: "(gvk \<Rightarrow> string) \<Rightarrow> resource_reference list \<Rightarrow> resource_reference list \<Rightarrow> bool" where
  "Equal ks a b =
     (if length a \<noteq> length b then False else equal_from (Normalize ks a) (Normalize ks b))"

text \<open>The loop that fills the map and the loop that deletes from it.\<close>

definition index_refs ::
  "(gvk \<Rightarrow> string) \<Rightarrow> resource_reference list \<Rightarrow> (string \<times> resource_reference) list" where
  "index_refs ks previous = fold (\<lambda>r m. AList.update (Key ks r) r m) previous []"

definition drop_refs ::
  "(gvk \<Rightarrow> string) \<Rightarrow> resource_reference list \<Rightarrow> (string \<times> resource_reference) list
     \<Rightarrow> (string \<times> resource_reference) list" where
  "drop_refs ks desired m = fold (\<lambda>r. AList.delete (Key ks r)) desired m"

definition Diff ::
  "(gvk \<Rightarrow> string) \<Rightarrow> ((string \<times> resource_reference) list \<Rightarrow> (string \<times> resource_reference) list)
     \<Rightarrow> resource_reference list \<Rightarrow> resource_reference list \<Rightarrow> resource_reference list" where
  "Diff ks iter previous desired =
     Normalize ks (List.map snd (iter (drop_refs ks desired (index_refs ks previous))))"

text \<open>A legal iteration visits every entry once.\<close>

definition visits_all :: "('a list \<Rightarrow> 'a list) \<Rightarrow> bool" where
  "visits_all iter \<longleftrightarrow> (\<forall>es. mset (iter es) = mset es)"

lemma visits_all_id [simp]: "visits_all (\<lambda>es. es)"
  by (simp add: visits_all_def)

lemma visits_all_rev [simp]: "visits_all rev"
  by (simp add: visits_all_def)


subsection \<open>The map of the previous inventory\<close>

text \<open>
  Reading the association list as a map: filling it maps each key to the last reference of the
  list with that key, deleting restricts it. Keys stay distinct, and each entry sits under its
  own key.
\<close>

lemma index_refs_snoc:
  "index_refs ks (rs @ [r]) = AList.update (Key ks r) r (index_refs ks rs)"
  by (simp add: index_refs_def)

lemma index_refs_distinct: "distinct (List.map fst (index_refs ks rs))"
  by (induction rs rule: rev_induct) (simp_all add: index_refs_snoc distinct_update, simp add: index_refs_def)

lemma index_refs_Some:
  "map_of (index_refs ks rs) k = Some r \<Longrightarrow> r \<in> set rs \<and> Key ks r = k"
  by (induction rs rule: rev_induct)
    (auto simp: index_refs_snoc update_conv' index_refs_def split: if_splits)

lemmas index_refs_mem = index_refs_Some [THEN conjunct1]
lemmas index_refs_Key = index_refs_Some [THEN conjunct2]

lemma index_refs_dom: "dom (map_of (index_refs ks rs)) = Key ks ` set rs"
  by (induction rs rule: rev_induct) (auto simp: index_refs_snoc update_conv', auto simp: index_refs_def)

lemma drop_refs_distinct: "distinct (List.map fst m) \<Longrightarrow> distinct (List.map fst (drop_refs ks ds m))"
  unfolding drop_refs_def by (induction ds arbitrary: m) (auto simp: distinct_delete)

lemma drop_refs_map_of:
  "map_of (drop_refs ks ds m) k = (if k \<in> Key ks ` set ds then None else map_of m k)"
  unfolding drop_refs_def by (induction ds arbitrary: m) (auto simp: delete_conv')

lemma fst_in_drop_index: "(k, r) \<in> set (drop_refs ks ds (index_refs ks ps)) \<longleftrightarrow>
    k \<notin> Key ks ` set ds \<and> map_of (index_refs ks ps) k = Some r"
  using drop_refs_map_of [of ks ds "index_refs ks ps" k]
    map_of_eq_Some_iff [OF drop_refs_distinct [OF index_refs_distinct], of ks ds ks ps k r]
  by (auto split: if_splits)

lemma entries_Key_map:
  "List.map (Key ks) (List.map snd (drop_refs ks ds (index_refs ks ps)))
     = List.map fst (drop_refs ks ds (index_refs ks ps))"
  by (auto simp: fst_in_drop_index dest: index_refs_Key)


subsection \<open>Normalize and Equal\<close>

lemma mset_Normalize [simp]: "mset (Normalize ks items) = mset items"
  by (simp add: Normalize_def)

lemma set_Normalize [simp]: "set (Normalize ks items) = set items"
  by (simp add: Normalize_def)

lemma sorted_Normalize: "sorted (List.map (Key ks) (Normalize ks items))"
  by (simp add: Normalize_def)

lemma Normalize_idem [simp]: "Normalize ks (Normalize ks items) = Normalize ks items"
  using sorted_Normalize [of ks items] by (simp add: Normalize_def [of ks "Normalize ks items"] sort_key_id_if_sorted)

lemma Normalize_unique:
  "sorted_perm (Key ks) items out \<Longrightarrow> inj_on (Key ks) (set items) \<Longrightarrow> out = Normalize ks items"
  unfolding Normalize_def by (rule sorted_perm_unique)

lemma Normalize_cong_mset:
  "mset xs = mset ys \<Longrightarrow> inj_on (Key ks) (set xs) \<Longrightarrow> Normalize ks xs = Normalize ks ys"
  by (rule Normalize_unique) (auto simp: sorted_perm_def sorted_Normalize dest: mset_eq_setD)

lemma equal_from_eq: "length xs = length ys \<Longrightarrow> equal_from xs ys \<longleftrightarrow> xs = ys"
  by (induction xs ys rule: list_induct2) auto

lemma Equal_eq: "Equal ks a b \<longleftrightarrow> Normalize ks a = Normalize ks b"
  by (auto simp: Equal_def equal_from_eq Normalize_def) (metis length_sort)+


subsection \<open>Diff\<close>

lemma Diff_mem:
  assumes "visits_all iter"
  shows "r \<in> set (Diff ks iter ps ds) \<longleftrightarrow>
    Key ks r \<notin> Key ks ` set ds \<and> map_of (index_refs ks ps) (Key ks r) = Some r"
proof -
  from assms have "set (iter es) = set es" for es :: "(string \<times> resource_reference) list"
    by (metis visits_all_def set_mset_mset)
  then have "r \<in> set (Diff ks iter ps ds) \<longleftrightarrow> (\<exists>k. (k, r) \<in> set (drop_refs ks ds (index_refs ks ps)))"
    by (force simp: Diff_def image_iff)
  also have "\<dots> \<longleftrightarrow> (\<exists>k. k \<notin> Key ks ` set ds \<and> map_of (index_refs ks ps) k = Some r)"
    by (simp add: fst_in_drop_index)
  also have "\<dots> \<longleftrightarrow> Key ks r \<notin> Key ks ` set ds \<and> map_of (index_refs ks ps) (Key ks r) = Some r"
    by (metis index_refs_Key)
  finally show ?thesis .
qed

lemma Diff_keys:
  assumes "visits_all iter"
  shows "Key ks ` set (Diff ks iter ps ds) = Key ks ` set ps - Key ks ` set ds"
proof
  show "Key ks ` set (Diff ks iter ps ds) \<subseteq> Key ks ` set ps - Key ks ` set ds"
    using assms by (auto simp: Diff_mem intro!: imageI dest: index_refs_mem)
  show "Key ks ` set ps - Key ks ` set ds \<subseteq> Key ks ` set (Diff ks iter ps ds)"
  proof
    fix k assume k: "k \<in> Key ks ` set ps - Key ks ` set ds"
    then obtain r where "map_of (index_refs ks ps) k = Some r"
      using index_refs_dom [of ks ps] by (auto simp: dom_def)
    moreover from this have "Key ks r = k" by (rule index_refs_Key)
    ultimately show "k \<in> Key ks ` set (Diff ks iter ps ds)"
      using k assms by (intro image_eqI [of k _ r]) (simp_all add: Diff_mem)
  qed
qed

lemma Diff_key_inj: "visits_all iter \<Longrightarrow> inj_on (Key ks) (set (Diff ks iter ps ds))"
  by (rule inj_onI) (simp add: Diff_mem)

lemma Diff_subset: "visits_all iter \<Longrightarrow> set (Diff ks iter ps ds) \<subseteq> set ps"
  by (auto simp: Diff_mem dest: index_refs_mem)

lemma Diff_sorted_distinct:
  assumes "visits_all iter"
  shows "sorted_wrt (<) (List.map (Key ks) (Diff ks iter ps ds))"
proof -
  have "mset (List.map (Key ks) (Diff ks iter ps ds))
      = mset (List.map (Key ks) (List.map snd (drop_refs ks ds (index_refs ks ps))))"
    using assms by (simp add: Diff_def visits_all_def image_mset.compositionality)
  also have "\<dots> = mset (List.map fst (drop_refs ks ds (index_refs ks ps)))"
    by (simp only: entries_Key_map)
  finally have "distinct (List.map (Key ks) (Diff ks iter ps ds))"
    using drop_refs_distinct [OF index_refs_distinct] by (metis mset_eq_imp_distinct_iff)
  then show ?thesis
    by (simp add: strict_sorted_iff Diff_def sorted_Normalize)
qed


subsection \<open>The interface that pruning relies on\<close>

text \<open>
  What the controller's prune step uses of this package: a function that finds, among the
  references of the previous inventory, those whose key is no longer desired.
\<close>

locale stale_finder =
  fixes key :: "'r \<Rightarrow> 'k"
    and stale :: "'r list \<Rightarrow> 'r list \<Rightarrow> 'r list"
  assumes stale_subset: "set (stale ps ds) \<subseteq> set ps"
    and stale_keys: "key ` set (stale ps ds) = key ` set ps - key ` set ds"
    and stale_distinct: "distinct (List.map key (stale ps ds))"
begin

lemma stale_not_desired: "r \<in> set (stale ps ds) \<Longrightarrow> key r \<notin> key ` set ds"
  using stale_keys [of ps ds] by auto

lemma stale_previous: "r \<in> set (stale ps ds) \<Longrightarrow> r \<in> set ps"
  using stale_subset by auto

lemma stale_self [simp]: "stale ps ps = []"
  using stale_keys [of ps ps] by simp

lemma stale_Nil_previous [simp]: "stale [] ds = []"
  using stale_keys [of "[]" ds] by simp

text \<open>What is desired and what is stale cover the previous inventory, without overlap.\<close>

lemma stale_partition:
  "key ` set ps \<subseteq> key ` set ds \<union> key ` set (stale ps ds)"
  "key ` set ds \<inter> key ` set (stale ps ds) = {}"
  by (auto simp: stale_keys)

lemma length_stale: "length (stale ps ds) = card (key ` set ps - key ` set ds)"
proof -
  have "length (stale ps ds) = card (set (List.map key (stale ps ds)))"
    using distinct_card [OF stale_distinct] by simp
  then show ?thesis by (simp add: stale_keys)
qed

text \<open>Pruning twice finds nothing the second time.\<close>

lemma stale_stable: "key ` set (stale (stale ps ds) ds) = key ` set (stale ps ds)"
  by (auto simp: stale_keys)

end

interpretation inv: stale_finder "Key ks" "Diff ks (\<lambda>es. es)" for ks
proof unfold_locales
  fix ps ds
  show "set (Diff ks (\<lambda>es. es) ps ds) \<subseteq> set ps" by (rule Diff_subset) simp
  show "Key ks ` set (Diff ks (\<lambda>es. es) ps ds) = Key ks ` set ps - Key ks ` set ds"
    by (rule Diff_keys) simp
  show "distinct (List.map (Key ks) (Diff ks (\<lambda>es. es) ps ds))"
    using Diff_sorted_distinct [of "\<lambda>es. es" ks ps ds] by (simp add: strict_sorted_iff)
qed



subsection \<open>Properties\<close>

definition s_refs :: "resource_reference list" where
  "s_refs = [\<lparr>rr_group = [], rr_version = ''v1'', rr_kind = ''Secret'', rr_namespace = ''ns'', rr_name = ''kept''\<rparr>,
     \<lparr>rr_group = [], rr_version = ''v1'', rr_kind = ''ConfigMap'', rr_namespace = ''ns'', rr_name = ''old''\<rparr>]"

text \<open>
  \<open>Diff\<close> is deterministic although Go ranges over a map in an arbitrary order and \<open>sort.Slice\<close>
  is not stable: whatever order the entries are visited in, and whatever sorted permutation of them
  the sort returns, the result is one and the same list.
\<close>

lemma diff_deterministic:
  assumes "visits_all iter"
    and "sorted_perm (Key ks) (List.map snd (iter (drop_refs ks ds (index_refs ks ps)))) out"
  shows "out = Diff ks (\<lambda>es. es) ps ds"
proof -
  let ?es = "drop_refs ks ds (index_refs ks ps)"
  from assms have "sorted_perm (Key ks) (List.map snd ?es) out"
    by (simp add: sorted_perm_def visits_all_def)
  moreover have "inj_on (Key ks) (set (List.map snd ?es))"
    using Diff_key_inj [OF visits_all_id, of ks ps ds] by (simp add: Diff_def)
  ultimately show ?thesis unfolding Diff_def by (rule Normalize_unique)
qed

theorem diff_deterministic_witness:
  "Diff gvk_kind rev s_refs [] = Diff gvk_kind (\<lambda>es. es) s_refs []"
  by (rule diff_deterministic [OF visits_all_rev]) (simp add: Diff_def Normalize_def sorted_perm_def)

text \<open>
  C15: \<open>Diff\<close> finds exactly the stale references. Its result is strictly sorted by key (so without
  duplicates), contains only references of the previous inventory, and its keys are the previous
  keys that are no longer desired.
\<close>

theorem diff_exact:
  assumes "visits_all iter"
  shows "sorted_wrt (<) (List.map (Key ks) (Diff ks iter previous desired))
    \<and> set (Diff ks iter previous desired) \<subseteq> set previous
    \<and> Key ks ` set (Diff ks iter previous desired) = Key ks ` set previous - Key ks ` set desired"
  using assms by (simp add: Diff_sorted_distinct Diff_subset Diff_keys)

theorem diff_exact_witness:
  "Key gvk_kind ` set (Diff gvk_kind rev s_refs [hd s_refs])
     = {''ConfigMap/ns/old''}"
  using diff_exact [OF visits_all_rev, of gvk_kind s_refs "[hd s_refs]"]
  by (auto simp: s_refs_def Key_def)

text \<open>
  \<open>Equal\<close> compares inventories as multisets: when the key identifies the references at hand, it
  answers true exactly when one list is a permutation of the other.
\<close>

lemma equal_iff_permutation:
  assumes "inj_on (Key ks) (set a \<union> set b)"
  shows "Equal ks a b \<longleftrightarrow> mset a = mset b"
proof
  assume "Equal ks a b"
  then show "mset a = mset b" by (metis Equal_eq mset_Normalize)
next
  assume "mset a = mset b"
  moreover have "inj_on (Key ks) (set a)" using assms by (rule inj_on_subset) simp
  ultimately show "Equal ks a b" by (simp add: Equal_eq Normalize_cong_mset)
qed

theorem equal_iff_permutation_witness:
  "Equal gvk_kind s_refs (rev s_refs) \<and> \<not> Equal gvk_kind s_refs []"
proof -
  have "inj_on (Key gvk_kind) (set s_refs \<union> set (rev s_refs))"
    and "inj_on (Key gvk_kind) (set s_refs \<union> set [])"
    by (auto simp: s_refs_def Key_def inj_on_def)
  from this [THEN equal_iff_permutation] show ?thesis by (simp add: s_refs_def)
qed

text \<open>
  the inventory key identifies a resource. Kubernetes names and namespaces contain no slash; for
  references whose group, version and kind print differently when they differ, distinct references
  have distinct keys, so the inventory can neither confuse two live objects nor lose one.
\<close>

lemma key_identifies:
  assumes "\<forall>r \<in> S. segment_ref r" and "inj_on ks (rr_gvk ` S)"
  shows "inj_on (Key ks) S"
proof (rule inj_onI)
  fix r r' assume "r \<in> S" "r' \<in> S" "Key ks r = Key ks r'"
  moreover from this assms(2) have "inj_on ks {rr_gvk r, rr_gvk r'}"
    by (intro inj_on_subset [OF assms(2)]) auto
  ultimately show "r = r'" using assms(1) Key_inject by blast
qed

theorem key_identifies_witness: "inj_on (Key gvk_kind) (set s_refs)"
  by (rule key_identifies) (auto simp: s_refs_def segment_ref_def rr_gvk_def inj_on_def)

end
