(* ===== verification/Status.thy ===== *)
theory Status
  imports Validation Inventory
begin

section \<open>Status: conditions and the three status writers of the controller\<close>

text \<open>
  \<open>setCondition\<close>, \<open>stageReason\<close>, \<open>updateSuccess\<close>, \<open>fail\<close> and \<open>updateSuspended\<close> of
  \<open>internal/controller/gitapplication_controller.go\<close>. The writers change the in-memory object they
  were given and send the difference to a copy taken before (\<open>client.MergeFrom(base)\<close>);
  \<open>statusPatch\<close> records both. The server's answer overwrites the in-memory object, so
  \<open>updateSuccess\<close> also returns the object as it is afterwards.
\<close>

fun setCondition :: "condition list \<Rightarrow> condition \<Rightarrow> condition list" where
  "setCondition [] c = [c]"
| "setCondition (x # xs) c =
     (if cond_type x = cond_type c then c # xs else x # setCondition xs c)"

definition stageReason :: "string \<Rightarrow> string" where
  "stageReason stage =
     (let s = RemoveBlanks (TrimSpace stage) in
      case s of [] \<Rightarrow> ''Unknown'' | c # cs \<Rightarrow> ToUpper [c] @ cs)"

definition mk_condition ::
  "string \<Rightarrow> condition_status \<Rightarrow> string \<Rightarrow> string \<Rightarrow> int \<Rightarrow> time \<Rightarrow> condition" where
  "mk_condition ty st reason message gen now =
     \<lparr>cond_type = ty, cond_status = st, cond_reason = reason, cond_message = message,
      cond_observedGeneration = gen, cond_lastTransitionTime = now\<rparr>"

definition success_status ::
  "'o uapi \<Rightarrow> time \<Rightarrow> string \<Rightarrow> resource_reference list \<Rightarrow> git_application \<Rightarrow> git_application_status" where
  "success_status u now sha desired app =
     (let gen = om_generation (app_meta app);
          c0 = st_conditions (app_status app);
          c1 = setCondition c0 (mk_condition ''Reconciling'' ConditionFalse ''Reconciled'' ''reconciliation complete'' gen now);
          c2 = setCondition c1 (mk_condition ''Ready'' ConditionTrue ''Reconciled'' ''application is ready'' gen now);
          c3 = setCondition c2 (mk_condition ''Stalled'' ConditionFalse ''Reconciled'' [] gen now)
      in (app_status app)\<lparr>st_observedGeneration := gen, st_attemptedRevision := sha, st_appliedRevision := sha,
           st_lastAttemptTime := Some now, st_lastSuccessTime := Some now,
           st_inventory := Normalize (gvkString u) desired, st_conditions := c3\<rparr>)"

definition updateSuccess ::
  "'o env \<Rightarrow> 'o uapi \<Rightarrow> git_application \<Rightarrow> string \<Rightarrow> resource_reference list
     \<Rightarrow> ('o, git_application \<times> gerror option) prog" where
  "updateSuccess env u app sha desired = do {
     now \<leftarrow> Now env;
     let base = app;
     let app' = app\<lparr>app_status := success_status u now sha desired app\<rparr>;
     r \<leftarrow> statusPatch env base app';
     (case r of
        Inl err \<Rightarrow> State_Monad.return (app', Some err)
      | Inr updated \<Rightarrow> State_Monad.return (updated, None))
   }"

definition failure_status ::
  "time \<Rightarrow> string \<Rightarrow> gerror \<Rightarrow> bool \<Rightarrow> git_application \<Rightarrow> git_application_status" where
  "failure_status now stage err stalled app =
     (let gen = om_generation (app_meta app);
          message = stage @ '': '' @ error_string err;
          stalledStatus = (if stalled then ConditionTrue else ConditionFalse);
          stalledMessage = (if stalled then message else []);
          c0 = st_conditions (app_status app);
          c1 = setCondition c0 (mk_condition ''Stalled'' stalledStatus (stageReason stage) stalledMessage gen now);
          c2 = setCondition c1 (mk_condition ''Reconciling'' ConditionFalse (stageReason stage) message gen now);
          c3 = setCondition c2 (mk_condition ''Ready'' ConditionFalse (stageReason stage) message gen now)
      in (app_status app)\<lparr>st_observedGeneration := gen, st_lastAttemptTime := Some now, st_conditions := c3\<rparr>)"

definition fail ::
  "'o env \<Rightarrow> git_application \<Rightarrow> string \<Rightarrow> gerror \<Rightarrow> bool \<Rightarrow> ('o, gerror) prog" where
  "fail env app stage err stalled = do {
     now \<leftarrow> Now env;
     let base = app;
     let app' = app\<lparr>app_status := failure_status now stage err stalled app\<rparr>;
     r \<leftarrow> statusPatch env base app';
     (case r of
        Inl updateErr \<Rightarrow> State_Monad.return (Wrapf (stage @ '': '') updateErr [])
      | Inr updated \<Rightarrow> State_Monad.return err)
   }"

record ctrl_result =
  res_requeue :: bool
  res_requeueAfter :: duration

definition no_result :: ctrl_result where
  "no_result = \<lparr>res_requeue = False, res_requeueAfter = 0\<rparr>"

definition suspended_status :: "time \<Rightarrow> git_application \<Rightarrow> git_application_status" where
  "suspended_status now app =
     (let gen = om_generation (app_meta app);
          c0 = st_conditions (app_status app);
          c1 = setCondition c0 (mk_condition ''Reconciling'' ConditionFalse ''Suspended'' ''reconciliation is suspended'' gen now);
          c2 = setCondition c1 (mk_condition ''Ready'' ConditionFalse ''Suspended'' ''reconciliation is suspended'' gen now)
      in (app_status app)\<lparr>st_conditions := c2, st_lastAttemptTime := Some now\<rparr>)"

definition updateSuspended ::
  "'o env \<Rightarrow> operator_config \<Rightarrow> git_application \<Rightarrow> ('o, ctrl_result \<times> gerror option) prog" where
  "updateSuspended env cfg app = do {
     now \<leftarrow> Now env;
     let base = app;
     let app' = app\<lparr>app_status := suspended_status now app\<rparr>;
     r \<leftarrow> statusPatch env base app';
     (case r of
        Inl err \<Rightarrow> State_Monad.return (no_result, Some err)
      | Inr updated \<Rightarrow>
          State_Monad.return (no_result\<lparr>res_requeueAfter := minimumRequeueInterval cfg\<rparr>, None))
   }"


subsection \<open>The conditions as a map\<close>

text \<open>
  What the writers need of a condition list: setting a condition makes it the one found under
  its type and leaves the others alone; the types stay distinct if they were.
\<close>

locale condition_map =
  fixes set_cond :: "'m \<Rightarrow> 'c \<Rightarrow> 'm"
    and get_cond :: "'m \<Rightarrow> 'k \<Rightarrow> 'c option"
    and ctype :: "'c \<Rightarrow> 'k"
    and well_formed :: "'m \<Rightarrow> bool"
  assumes get_set: "get_cond (set_cond m c) k = (if k = ctype c then Some c else get_cond m k)"
    and well_formed_set: "well_formed m \<Longrightarrow> well_formed (set_cond m c)"
begin

lemma get_set_same [simp]: "get_cond (set_cond m c) (ctype c) = Some c"
  by (simp add: get_set)

lemma get_set_other: "k \<noteq> ctype c \<Longrightarrow> get_cond (set_cond m c) k = get_cond m k"
  by (simp add: get_set)

lemma get_set3:
  assumes "ctype a \<noteq> ctype b" "ctype a \<noteq> ctype c" "ctype b \<noteq> ctype c"
  shows "get_cond (set_cond (set_cond (set_cond m a) b) c) (ctype a) = Some a"
    and "get_cond (set_cond (set_cond (set_cond m a) b) c) (ctype b) = Some b"
    and "get_cond (set_cond (set_cond (set_cond m a) b) c) (ctype c) = Some c"
    and "k \<notin> {ctype a, ctype b, ctype c} \<Longrightarrow>
      get_cond (set_cond (set_cond (set_cond m a) b) c) k = get_cond m k"
  using assms by (auto simp: get_set)

lemma well_formed_set3: "well_formed m \<Longrightarrow> well_formed (set_cond (set_cond (set_cond m a) b) c)"
  by (simp add: well_formed_set)

end

definition findCondition :: "condition list \<Rightarrow> string \<Rightarrow> condition option" where
  "findCondition cs ty = List.find (\<lambda>c. cond_type c = ty) cs"

definition distinct_types :: "condition list \<Rightarrow> bool" where
  "distinct_types cs \<longleftrightarrow> distinct (List.map cond_type cs)"

lemma types_setCondition:
  "cond_type ` set (setCondition cs c) = insert (cond_type c) (cond_type ` set cs)"
  by (induction cs) auto

interpretation conds: condition_map setCondition findCondition cond_type distinct_types
proof unfold_locales
  fix m c k
  show "findCondition (setCondition m c) k = (if k = cond_type c then Some c else findCondition m k)"
    unfolding findCondition_def by (induction m) auto
  show "distinct_types m \<Longrightarrow> distinct_types (setCondition m c)"
    unfolding distinct_types_def
  proof (induction m)
    case (Cons x xs)
    then show ?case
      using types_setCondition [of xs c] by (auto simp: image_iff)
  qed simp
qed


subsection \<open>What the writers write\<close>

lemma mk_condition_simps [simp]:
  "cond_type (mk_condition ty st r m g n) = ty" "cond_status (mk_condition ty st r m g n) = st"
  "cond_reason (mk_condition ty st r m g n) = r" "cond_message (mk_condition ty st r m g n) = m"
  by (simp_all add: mk_condition_def)

definition cond_is :: "git_application_status \<Rightarrow> string \<Rightarrow> condition_status \<Rightarrow> bool" where
  "cond_is st ty s \<longleftrightarrow> (\<exists>c. findCondition (st_conditions st) ty = Some c \<and> cond_status c = s)"

lemma success_conditions:
  "cond_is (success_status u now sha desired app) ''Ready'' ConditionTrue"
  "cond_is (success_status u now sha desired app) ''Reconciling'' ConditionFalse"
  "cond_is (success_status u now sha desired app) ''Stalled'' ConditionFalse"
  by (simp_all add: cond_is_def success_status_def Let_def conds.get_set)

lemma failure_conditions:
  "cond_is (failure_status now stage err stalled app) ''Ready'' ConditionFalse"
  "cond_is (failure_status now stage err stalled app) ''Reconciling'' ConditionFalse"
  "cond_is (failure_status now stage err stalled app) ''Stalled''
     (if stalled then ConditionTrue else ConditionFalse)"
  by (simp_all add: cond_is_def failure_status_def Let_def conds.get_set)

lemma suspended_conditions:
  "cond_is (suspended_status now app) ''Ready'' ConditionFalse"
  "cond_is (suspended_status now app) ''Reconciling'' ConditionFalse"
  by (simp_all add: cond_is_def suspended_status_def Let_def conds.get_set)

lemma failure_frame:
  "st_attemptedRevision (failure_status now stage err stalled app) = st_attemptedRevision (app_status app)"
  "st_appliedRevision (failure_status now stage err stalled app) = st_appliedRevision (app_status app)"
  "st_inventory (failure_status now stage err stalled app) = st_inventory (app_status app)"
  "st_lastSuccessTime (failure_status now stage err stalled app) = st_lastSuccessTime (app_status app)"
  by (simp_all add: failure_status_def Let_def)

lemma suspended_frame:
  "st_attemptedRevision (suspended_status now app) = st_attemptedRevision (app_status app)"
  "st_appliedRevision (suspended_status now app) = st_appliedRevision (app_status app)"
  "st_inventory (suspended_status now app) = st_inventory (app_status app)"
  by (simp_all add: suspended_status_def Let_def)

lemma success_fields:
  "st_attemptedRevision (success_status u now sha desired app) = sha"
  "st_appliedRevision (success_status u now sha desired app) = sha"
  "st_inventory (success_status u now sha desired app) = Normalize (gvkString u) desired"
  by (simp_all add: success_status_def Let_def)

lemmas status_defs = success_status_def failure_status_def suspended_status_def

text \<open>The runs of the writers: the clock, then one status patch.\<close>

lemma run_updateSuccess:
  "run_state (updateSuccess env u app sha desired) h =
     (let now = env_now env h; h1 = h @ [CallNow now];
          app' = app\<lparr>app_status := success_status u now sha desired app\<rparr>;
          a = env_statusPatch env h1 app app'
      in ((case a of Inl err \<Rightarrow> (app', Some err) | Inr updated \<Rightarrow> (updated, None)),
          h1 @ [CallStatusPatch app app' a]))"
  by (simp add: updateSuccess_def Now_def statusPatch_def Let_def split: sum.split)

lemma run_fail:
  "run_state (fail env app stage err stalled) h =
     (let now = env_now env h; h1 = h @ [CallNow now];
          app' = app\<lparr>app_status := failure_status now stage err stalled app\<rparr>;
          a = env_statusPatch env h1 app app'
      in ((case a of Inl e \<Rightarrow> Wrapf (stage @ '': '') e [] | Inr updated \<Rightarrow> err),
          h1 @ [CallStatusPatch app app' a]))"
  by (simp add: fail_def Now_def statusPatch_def Let_def split: sum.split)

lemma run_updateSuspended:
  "run_state (updateSuspended env cfg app) h =
     (let now = env_now env h; h1 = h @ [CallNow now];
          app' = app\<lparr>app_status := suspended_status now app\<rparr>;
          a = env_statusPatch env h1 app app'
      in ((case a of Inl err \<Rightarrow> (no_result, Some err)
           | Inr updated \<Rightarrow> (no_result\<lparr>res_requeueAfter := minimumRequeueInterval cfg\<rparr>, None)),
          h1 @ [CallStatusPatch app app' a]))"
  by (simp add: updateSuspended_def Now_def statusPatch_def Let_def split: sum.split)


subsection \<open>Properties\<close>

text \<open>
  \<open>setCondition\<close> is an upsert by type. The condition that was set is the one found under its type,
  every other type keeps its condition, no type is ever listed twice, and an existing entry is replaced in
  place: the order of the types does not change, and only a new type is appended.
\<close>

lemma set_condition_upsert:
  "findCondition (setCondition cs c) ty = (if ty = cond_type c then Some c else findCondition cs ty)
    \<and> (distinct_types cs \<longrightarrow> distinct_types (setCondition cs c))
    \<and> List.map cond_type (setCondition cs c) = List.map cond_type cs
        @ (if cond_type c \<in> cond_type ` set cs then [] else [cond_type c])"
proof -
  have "List.map cond_type (setCondition cs c) = List.map cond_type cs
        @ (if cond_type c \<in> cond_type ` set cs then [] else [cond_type c])"
    by (induction cs) auto
  then show ?thesis using conds.get_set conds.well_formed_set by simp
qed

theorem set_condition_upsert_witness:
  "distinct_types (setCondition [mk_condition ''Ready'' ConditionTrue [] [] 1 2] (mk_condition ''Ready'' ConditionFalse [] [] 1 3))"
  using set_condition_upsert [of "[mk_condition ''Ready'' ConditionTrue [] [] 1 2]"
      "mk_condition ''Ready'' ConditionFalse [] [] 1 3" "''Ready''"]
  by (simp add: distinct_types_def)

end
