(* ===== verification/Credentials.thy ===== *)
theory Credentials
  imports Validation
begin

section \<open>Credentials: the controller's loadCredentials\<close>

text \<open>
  \<open>git.Credentials\<close> (\<open>internal/git/repository.go\<close>) and \<open>loadCredentials\<close>
  (\<open>internal/controller/gitapplication_controller.go\<close>). The Go function returns the credentials (a
  nil pointer is \<open>None\<close>), whether the failure is permanent (stalled), and the error.
  \<open>kube\<close> says whether the reconciler has a client for secrets (\<open>r.Kube != nil\<close>).
\<close>

record credentials =
  cr_username :: string
  cr_password :: string
  cr_token :: string
  cr_sshPrivateKey :: string
  cr_knownHosts :: string

definition data_index :: "secret \<Rightarrow> string \<Rightarrow> string" where
  "data_index s k = (case sec_data s k of None \<Rightarrow> [] | Some v \<Rightarrow> v)"

definition SecretTypeSSHAuth :: string where
  "SecretTypeSSHAuth = ''kubernetes.io/ssh-auth''"

type_synonym loaded = "credentials option \<times> bool \<times> gerror option"

text \<open>What is read out of the secret that was found.\<close>

definition secret_credentials :: "secret \<Rightarrow> loaded" where
  "secret_credentials s =
     (let qname = sec_namespace s @ ''/'' @ sec_name s in
      if sec_type s = SecretTypeSSHAuth \<or> 0 < length (data_index s ''ssh-privatekey'') then
        (let privateKey = data_index s ''ssh-privatekey''; knownHosts = data_index s ''known_hosts'' in
         if length privateKey = 0 then
           (None, True, Some (Errorf (''ssh secret '' @ qname @ '' is missing ssh-privatekey'')))
         else if length knownHosts = 0 then
           (None, True, Some (Errorf (''ssh secret '' @ qname @ '' is missing known_hosts'')))
         else
           (Some \<lparr>cr_username = [], cr_password = [], cr_token = [],
                  cr_sshPrivateKey = privateKey, cr_knownHosts = knownHosts\<rparr>, False, None))
      else
        (let username = data_index s ''username'';
             password0 = data_index s ''password'';
             token = data_index s ''token'';
             password = (if password0 = [] then token else password0)
         in if password = [] then
              (None, True, Some (Errorf (''credentials secret '' @ qname
                 @ '' must include ssh-privatekey, password, or token'')))
            else
              (Some \<lparr>cr_username = username, cr_password = password, cr_token = token,
                     cr_sshPrivateKey = [], cr_knownHosts = []\<rparr>, False, None)))"

definition loadCredentials :: "'o env \<Rightarrow> bool \<Rightarrow> git_application \<Rightarrow> ('o, loaded) prog" where
  "loadCredentials env kube app =
     (case src_secretRef (spec_source (app_spec app)) of
        None \<Rightarrow> State_Monad.return (None, False, None)
      | Some name \<Rightarrow>
          if name = [] then State_Monad.return (None, False, None)
          else if \<not> kube then
            State_Monad.return (None, True, Some (Errorf ''secret client is not configured''))
          else do {
            r \<leftarrow> getSecret env (om_namespace (app_meta app)) name;
            (case r of
               Inl err \<Rightarrow>
                 State_Monad.return (None, is_not_found err, Some (Wrapf ''read credentials secret: '' err []))
             | Inr s \<Rightarrow> State_Monad.return (secret_credentials s))
          })"


subsection \<open>Lemmas\<close>

text \<open>Credentials git can use: a private key with its known hosts, or a password.\<close>

definition usable :: "credentials \<Rightarrow> bool" where
  "usable c \<longleftrightarrow> (cr_sshPrivateKey c \<noteq> [] \<and> cr_knownHosts c \<noteq> []) \<or> cr_password c \<noteq> []"

lemma secret_credentials_cases:
  assumes "secret_credentials s = (c, stalled, err)"
  shows "(err = None \<longrightarrow> \<not> stalled \<and> (\<exists>cr. c = Some cr \<and> usable cr))
    \<and> (err \<noteq> None \<longrightarrow> stalled \<and> c = None)"
  using assms by (auto simp: secret_credentials_def usable_def Let_def split: if_splits)

lemma emits_loadCredentials [wp]:
  assumes "\<And>n r. P (CallGetSecret (om_namespace (app_meta app)) n r)"
  shows "emits P (loadCredentials env kube app)"
  unfolding loadCredentials_def by (intro wp assms)

lemma loadCredentials_run:
  "run_state (loadCredentials env kube app) h = ((c, stalled, err), h') \<Longrightarrow>
     (h' = h \<and> (c = None \<and> err = None \<and> \<not> stalled
                 \<or> c = None \<and> stalled \<and> \<not> kube \<and> err \<noteq> None)) \<or>
     (\<exists>n r. src_secretRef (spec_source (app_spec app)) = Some n \<and> n \<noteq> [] \<and> kube
        \<and> r = env_getSecret env h (om_namespace (app_meta app)) n
        \<and> h' = h @ [CallGetSecret (om_namespace (app_meta app)) n r]
        \<and> (case r of Inl e \<Rightarrow> c = None \<and> stalled = is_not_found e
              \<and> err = Some (Wrapf ''read credentials secret: '' e [])
           | Inr s \<Rightarrow> (c, stalled, err) = secret_credentials s))"
  by (auto simp: loadCredentials_def getSecret_def split: option.splits if_splits sum.splits)


subsection \<open>Properties\<close>

definition s_secret_app :: git_application where
  "s_secret_app = s_app\<lparr>app_spec := (app_spec s_app)\<lparr>spec_source :=
     (spec_source (app_spec s_app))\<lparr>src_secretRef := Some ''creds''\<rparr>\<rparr>\<rparr>"

definition s_secret :: secret where
  "s_secret = \<lparr>sec_name = ''creds'', sec_namespace = ''app-ns'', sec_type = SecretTypeSSHAuth,
     sec_data = [''ssh-privatekey'' \<mapsto> ''key'', ''known_hosts'' \<mapsto> ''hosts'']\<rparr>"

definition s_secret_env :: "sobj env" where
  "s_secret_env = s_env\<lparr>env_getSecret := (\<lambda>h ns n. Inr s_secret)\<rparr>"

text \<open>
  the credentials that are loaded are usable, and every failure is classified. Without a secret
  reference there are no credentials and no error. Otherwise, if there is no error, the credentials are
  a private key with known hosts, or a non-empty password; if there is an error, there are no
  credentials, and the failure counts as permanent (stalled) unless the API server failed to answer
  with something other than NotFound.
\<close>

lemma load_credentials_outcome:
  assumes "run_state (loadCredentials env kube app) h = ((c, stalled, err), h')"
  shows "(err = None \<longrightarrow> \<not> stalled
            \<and> (case src_secretRef (spec_source (app_spec app)) of
                 None \<Rightarrow> c = None
               | Some n \<Rightarrow> if n = [] then c = None else \<exists>cr. c = Some cr \<and> usable cr))
    \<and> (err \<noteq> None \<longrightarrow> c = None
            \<and> (stalled \<longleftrightarrow> \<not> (\<exists>n e. env_getSecret env h (om_namespace (app_meta app)) n = Inl e
                  \<and> src_secretRef (spec_source (app_spec app)) = Some n \<and> kube \<and> \<not> is_not_found e)))"
  using assms unfolding loadCredentials_def getSecret_def
  by (auto split: option.splits if_splits sum.splits dest!: secret_credentials_cases)

lemma s_secret_run:
  "run_state (loadCredentials s_secret_env True s_secret_app) []
     = ((Some \<lparr>cr_username = [], cr_password = [], cr_token = [], cr_sshPrivateKey = ''key'',
          cr_knownHosts = ''hosts''\<rparr>, False, None), [CallGetSecret ''app-ns'' ''creds'' (Inr s_secret)])"
  by (simp add: loadCredentials_def getSecret_def s_secret_app_def s_app_def s_secret_env_def s_env_def
      secret_credentials_def s_secret_def data_index_def Let_def)

theorem load_credentials_outcome_witness:
  "usable \<lparr>cr_username = [], cr_password = [], cr_token = [], cr_sshPrivateKey = ''key'', cr_knownHosts = ''hosts''\<rparr>"
  using load_credentials_outcome [OF s_secret_run] by (simp add: s_secret_app_def)

text \<open>
  secrets are read from the namespace of the \<open>GitApplication\<close> only. Loading credentials makes at
  most one call, and that call reads the referenced secret in the application's own namespace.
\<close>

lemma secrets_own_namespace:
  assumes "run_state (loadCredentials env kube app) h = (r, h')"
  shows "h' = h \<or> (\<exists>n a. src_secretRef (spec_source (app_spec app)) = Some n
    \<and> h' = h @ [CallGetSecret (om_namespace (app_meta app)) n a])"
proof -
  obtain c stalled err where "r = (c, stalled, err)" by (cases r)
  with loadCredentials_run [of env kube app h c stalled err h'] assms show ?thesis by auto
qed

theorem secrets_own_namespace_witness:
  "\<exists>n a. [CallGetSecret ''app-ns'' ''creds'' (Inr s_secret) :: sobj call] = [CallGetSecret ''app-ns'' n a]
     \<and> src_secretRef (spec_source (app_spec s_secret_app)) = Some n"
  using secrets_own_namespace [OF s_secret_run] by (auto simp: s_secret_app_def)

end
