(* ===== verification/Controller.thy ===== *)
theory Controller
  imports Status Credentials
begin

section \<open>The reconciler: internal/controller/gitapplication_controller.go\<close>

text \<open>
  \<open>Reconcile\<close> and the steps it is composed of. The reconciler's fields are the record
  \<open>'o reconciler\<close>: the world it talks to, the functions of k8s.io/apimachinery, whether it has a
  client for secrets, its configuration, the repository checkouter and the two renderers (interfaces
  in the Go code, hence fields here), and the order in which Go ranges over the map inside
  \<open>inventory.Diff\<close>. \<open>SetupWithManager\<close> only registers the reconciler with controller-runtime.
\<close>

record 'o reconciler =
  rc_env :: "'o env"
  rc_api :: "'o uapi"
  rc_kube :: bool
  rc_config :: operator_config
  rc_checkout :: "string \<Rightarrow> string \<Rightarrow> credentials option \<Rightarrow> ('o, (string \<times> string) result) prog"
  rc_renderYAML :: "string \<Rightarrow> git_application_spec \<Rightarrow> string \<Rightarrow> ('o, 'o option list result) prog"
  rc_renderHelm :: "string \<Rightarrow> git_application_spec \<Rightarrow> string \<Rightarrow> ('o, 'o option list result) prog"
  rc_mapOrder :: "(string \<times> resource_reference) list \<Rightarrow> (string \<times> resource_reference) list"

definition concurrentReconciles :: "operator_config \<Rightarrow> int" where
  "concurrentReconciles cfg =
     (if cfg_concurrentReconciles cfg \<le> 0 then 1 else cfg_concurrentReconciles cfg)"

definition render ::
  "'o reconciler \<Rightarrow> git_application \<Rightarrow> string \<Rightarrow> string \<Rightarrow> ('o, 'o option list result) prog" where
  "render rc app checkoutDir sha =
     (if rd_type (spec_render (app_spec app)) = ''yaml'' then
        rc_renderYAML rc checkoutDir (app_spec app) sha
      else if rd_type (spec_render (app_spec app)) = ''helm'' then
        rc_renderHelm rc checkoutDir (app_spec app) sha
      else State_Monad.return (Inl (Errorf (''unsupported render type ''
             @ Quote (rd_type (spec_render (app_spec app)))))))"

definition fetchLiveObject :: "'o env \<Rightarrow> resource_reference \<Rightarrow> ('o, 'o result) prog" where
  "fetchLiveObject env ref = do {
     m \<leftarrow> restMapping env (rr_gvk ref);
     (case m of
        Inl err \<Rightarrow> State_Monad.return (Inl err)
      | Inr mapping \<Rightarrow>
          if rm_scope mapping = RESTScopeNameNamespace then
            dynGet env (rm_resource mapping) (Some (rr_namespace ref)) (rr_name ref)
          else dynGet env (rm_resource mapping) None (rr_name ref))
   }"

definition deleteObject :: "'o env \<Rightarrow> 'o uapi \<Rightarrow> 'o \<Rightarrow> ('o, gerror option) prog" where
  "deleteObject env u obj = do {
     m \<leftarrow> restMapping env (GroupVersionKind u obj);
     (case m of
        Inl err \<Rightarrow> State_Monad.return (Some err)
      | Inr mapping \<Rightarrow>
          if rm_scope mapping = RESTScopeNameNamespace then
            dynDelete env (rm_resource mapping) (Some (GetNamespace u obj)) (GetName u obj)
          else dynDelete env (rm_resource mapping) None (GetName u obj))
   }"

fun prune_loop :: "'o env \<Rightarrow> 'o uapi \<Rightarrow> string \<Rightarrow> resource_reference list \<Rightarrow> ('o, gerror option) prog" where
  "prune_loop env u uid [] = State_Monad.return None"
| "prune_loop env u uid (ref # stale) = do {
     r \<leftarrow> fetchLiveObject env ref;
     (case r of
        Inl err \<Rightarrow>
          if is_not_found err then prune_loop env u uid stale else State_Monad.return (Some err)
      | Inr obj \<Rightarrow>
          if map_index (GetAnnotations u obj) ApplicationUIDAnno \<noteq> uid
             \<or> map_index (GetLabels u obj) ManagedByLabel \<noteq> ManagedByValue then
            prune_loop env u uid stale
          else do {
            d \<leftarrow> deleteObject env u obj;
            (case d of
               Some err \<Rightarrow> State_Monad.return (Some err)
             | None \<Rightarrow> prune_loop env u uid stale)
          })
   }"

definition prune ::
  "'o reconciler \<Rightarrow> git_application \<Rightarrow> resource_reference list \<Rightarrow> ('o, gerror option) prog" where
  "prune rc app desired =
     prune_loop (rc_env rc) (rc_api rc) (om_uid (app_meta app))
       (Diff (gvkString (rc_api rc)) (rc_mapOrder rc) (st_inventory (app_status app)) desired)"

text \<open>
  The policy that \<open>Reconcile\<close> hands to \<open>NormalizeAndValidate\<close>.
\<close>

definition reconcile_policy :: "operator_config \<Rightarrow> git_application \<Rightarrow> string \<Rightarrow> policy" where
  "reconcile_policy cfg app sha =
     \<lparr>pol_destinationNamespace = dst_namespace (spec_destination (app_spec app)),
      pol_applicationUID = om_uid (app_meta app),
      pol_sourceRevision = sha,
      pol_allowClusterScoped = cfg_allowClusterScopedResources cfg,
      pol_allowedClusterScopedKinds = spec_allowedClusterScopedKinds (app_spec app),
      pol_forceApply = spec_takeoverExistingResources (app_spec app),
      pol_fieldManager = fieldManagerOrDefault (cfg_fieldManager cfg)\<rparr>"

text \<open>\<open>return ctrl.Result{}, r.fail(...)\<close>.\<close>

definition fail_result ::
  "'o reconciler \<Rightarrow> git_application \<Rightarrow> string \<Rightarrow> gerror \<Rightarrow> bool \<Rightarrow> ('o, ctrl_result \<times> gerror option) prog" where
  "fail_result rc app stage err stalled = do {
     e \<leftarrow> fail (rc_env rc) app stage err stalled;
     State_Monad.return (no_result, Some e)
   }"

text \<open>The last part of \<open>Reconcile\<close>: from the successful status update on.\<close>

definition reconcile_finish ::
  "'o reconciler \<Rightarrow> git_application \<Rightarrow> string \<Rightarrow> resource_reference list
     \<Rightarrow> ('o, ctrl_result \<times> gerror option) prog" where
  "reconcile_finish rc app sha desired = do {
     (app', upd) \<leftarrow> updateSuccess (rc_env rc) (rc_api rc) app sha desired;
     (case upd of
        Some err \<Rightarrow> fail_result rc app' ''status update'' err False
      | None \<Rightarrow>
          (let interval = spec_interval (app_spec app');
               interval' = (if interval < cfg_minimumRequeueInterval (rc_config rc)
                            then cfg_minimumRequeueInterval (rc_config rc) else interval)
           in State_Monad.return (no_result\<lparr>res_requeueAfter := interval'\<rparr>, None)))
   }"

text \<open>From the normalised objects on: apply, prune, report.\<close>

definition reconcile_apply ::
  "'o reconciler \<Rightarrow> git_application \<Rightarrow> string \<Rightarrow> 'o list \<Rightarrow> resource_reference list
     \<Rightarrow> ('o, ctrl_result \<times> gerror option) prog" where
  "reconcile_apply rc app sha normalized desired = do {
     a \<leftarrow> Apply (rc_env rc) (rc_api rc) normalized (fieldManagerOrDefault (cfg_fieldManager (rc_config rc)))
            (spec_takeoverExistingResources (app_spec app));
     (case a of
        Some err \<Rightarrow> fail_result rc app ''apply'' err False
      | None \<Rightarrow>
          if spec_prune (app_spec app) then do {
            p \<leftarrow> prune rc app desired;
            (case p of
               Some err \<Rightarrow> fail_result rc app ''prune'' err False
             | None \<Rightarrow> reconcile_finish rc app sha desired)
          }
          else reconcile_finish rc app sha desired)
   }"

text \<open>From the checkout on: render, normalise and validate.\<close>

definition reconcile_checkout ::
  "'o reconciler \<Rightarrow> git_application \<Rightarrow> string \<Rightarrow> string \<Rightarrow> ('o, ctrl_result \<times> gerror option) prog" where
  "reconcile_checkout rc app checkoutDir sha = do {
     r \<leftarrow> render rc app checkoutDir sha;
     (case r of
        Inl err \<Rightarrow> fail_result rc app ''render'' err False
      | Inr rendered \<Rightarrow> do {
          mapper \<leftarrow> mapperNow (rc_env rc);
          (case NormalizeAndValidate (rc_api rc) mapper rendered (reconcile_policy (rc_config rc) app sha) of
             Inl err \<Rightarrow> fail_result rc app ''policy validation'' err True
           | Inr (normalized, desired) \<Rightarrow> reconcile_apply rc app sha normalized desired)
        })
   }"

text \<open>The part after the early returns: validate, load credentials, check out.\<close>

definition reconcile_active ::
  "'o reconciler \<Rightarrow> git_application \<Rightarrow> ('o, ctrl_result \<times> gerror option) prog" where
  "reconcile_active rc app =
     (case validateSpec (rc_api rc) app (rc_config rc) of
        Some err \<Rightarrow> fail_result rc app ''policy validation'' err True
      | None \<Rightarrow> do {
          (creds, stalled, cerr) \<leftarrow> loadCredentials (rc_env rc) (rc_kube rc) app;
          (case cerr of
             Some err \<Rightarrow> fail_result rc app ''source fetch'' err stalled
           | None \<Rightarrow> do {
               c \<leftarrow> rc_checkout rc (src_repository (spec_source (app_spec app)))
                      (src_revision (spec_source (app_spec app))) creds;
               (case c of
                  Inl err \<Rightarrow> fail_result rc app ''checkout'' err False
                | Inr (checkoutDir, sha) \<Rightarrow>
                    reconcile_checkout rc
                      (app\<lparr>app_status := (app_status app)\<lparr>st_attemptedRevision := sha\<rparr>\<rparr>) checkoutDir sha)
             })
        })"

definition is_deleted :: "git_application \<Rightarrow> bool" where
  "is_deleted app \<longleftrightarrow>
     (case om_deletionTimestamp (app_meta app) of None \<Rightarrow> False | Some t \<Rightarrow> t \<noteq> 0)"

definition Reconcile ::
  "'o reconciler \<Rightarrow> string \<Rightarrow> string \<Rightarrow> ('o, ctrl_result \<times> gerror option) prog" where
  "Reconcile rc ns name = do {
     g \<leftarrow> getApp (rc_env rc) ns name;
     (case g of
        Inl err \<Rightarrow> State_Monad.return (no_result, if is_not_found err then None else Some err)
      | Inr app \<Rightarrow>
          if is_deleted app then State_Monad.return (no_result, None)
          else if spec_suspend (app_spec app) then updateSuspended (rc_env rc) (rc_config rc) app
          else reconcile_active rc app)
   }"

end
