(* ===== verification/Prune_Trace.thy ===== *)
theory Prune_Trace
  imports Controller
begin

section \<open>What pruning does to the cluster\<close>

text \<open>
  The abstract specification of the prune step of
  \<open>internal/controller/gitapplication_controller.go\<close>: \<open>prune_trace\<close> is an inductive relation between
  the stale references, the calls made and the outcome, one rule per way a reference can be dealt
  with. \<open>prune_loop_trace\<close> shows that the loop implements it; safety and completeness follow by
  rule induction.
\<close>

fun is_delete :: "'o call \<Rightarrow> bool" where
  "is_delete (CallDynDelete r ns n a) = True"
| "is_delete _ = False"

fun is_patch :: "'o call \<Rightarrow> bool" where
  "is_patch (CallDynPatch r ns n body opts a) = True"
| "is_patch _ = False"

lemma is_mutation_iff: "is_mutation c \<longleftrightarrow> is_patch c \<or> is_delete c"
  by (cases c) auto

text \<open>The lookup of the live object behind a reference, and the deletion of a live object.\<close>

definition scoped :: "rest_mapping \<Rightarrow> string \<Rightarrow> string option" where
  "scoped mapping ns = (if rm_scope mapping = RESTScopeNameNamespace then Some ns else None)"

definition get_of :: "'o env \<Rightarrow> resource_reference \<Rightarrow> 'o result \<Rightarrow> 'o call \<Rightarrow> bool" where
  "get_of env ref a c \<longleftrightarrow> (\<exists>h mapping. env_mapper env h (rr_gvk ref) = Inr mapping
     \<and> c = CallDynGet (rm_resource mapping) (scoped mapping (rr_namespace ref)) (rr_name ref) a)"

definition delete_of :: "'o env \<Rightarrow> 'o uapi \<Rightarrow> 'o \<Rightarrow> gerror option \<Rightarrow> 'o call \<Rightarrow> bool" where
  "delete_of env u obj a c \<longleftrightarrow> (\<exists>h mapping. env_mapper env h (GroupVersionKind u obj) = Inr mapping
     \<and> c = CallDynDelete (rm_resource mapping) (scoped mapping (GetNamespace u obj)) (GetName u obj) a)"

lemma get_of_simps [simp]:
  "get_of env ref a c \<Longrightarrow> \<not> is_delete c" "get_of env ref a c \<Longrightarrow> \<not> is_patch c"
  "delete_of env u obj d c \<Longrightarrow> is_delete c" "delete_of env u obj d c \<Longrightarrow> \<not> is_patch c"
  by (auto simp: get_of_def delete_of_def)

lemma run_fetchLiveObject:
  assumes "run_state (fetchLiveObject env ref) h = (r, h')"
  obtains (unmapped) e where "env_mapper env h (rr_gvk ref) = Inl e" "r = Inl e" "h' = h"
    | (asked) g where "get_of env ref r g" "h' = h @ [g]"
proof (cases "env_mapper env h (rr_gvk ref)")
  case (Inl e)
  with assms show ?thesis by (intro unmapped) (auto simp: fetchLiveObject_def)
next
  case (Inr mapping)
  with assms have "h' = h @ [CallDynGet (rm_resource mapping) (scoped mapping (rr_namespace ref)) (rr_name ref) r]"
    by (auto simp: fetchLiveObject_def dynGet_def scoped_def split: if_splits)
  with Inr show ?thesis by (intro asked) (auto simp: get_of_def)
qed

lemma run_deleteObject:
  assumes "run_state (deleteObject env u obj) h = (r, h')"
  obtains (unmapped) e where "env_mapper env h (GroupVersionKind u obj) = Inl e" "r = Some e" "h' = h"
    | (asked) d where "delete_of env u obj r d" "h' = h @ [d]"
proof (cases "env_mapper env h (GroupVersionKind u obj)")
  case (Inl e)
  with assms show ?thesis by (intro unmapped) (auto simp: deleteObject_def)
next
  case (Inr mapping)
  with assms have "h' = h @ [CallDynDelete (rm_resource mapping) (scoped mapping (GetNamespace u obj)) (GetName u obj) r]"
    by (auto simp: deleteObject_def dynDelete_def scoped_def split: if_splits)
  with Inr show ?thesis by (intro asked) (auto simp: delete_of_def)
qed


subsection \<open>The specification\<close>

inductive prune_trace ::
  "'o env \<Rightarrow> 'o uapi \<Rightarrow> string \<Rightarrow> resource_reference list \<Rightarrow> 'o call list \<Rightarrow> gerror option \<Rightarrow> bool"
  for env u uid
where
  all_done: "prune_trace env u uid [] [] None"
| kind_gone: "env_mapper env h (rr_gvk ref) = Inl e \<Longrightarrow> is_not_found e \<Longrightarrow> prune_trace env u uid refs cs r
    \<Longrightarrow> prune_trace env u uid (ref # refs) cs r"
| kind_unknown: "env_mapper env h (rr_gvk ref) = Inl e \<Longrightarrow> \<not> is_not_found e
    \<Longrightarrow> prune_trace env u uid (ref # refs) [] (Some e)"
| object_gone: "get_of env ref (Inl e) g \<Longrightarrow> is_not_found e \<Longrightarrow> prune_trace env u uid refs cs r
    \<Longrightarrow> prune_trace env u uid (ref # refs) (g # cs) r"
| lookup_failed: "get_of env ref (Inl e) g \<Longrightarrow> \<not> is_not_found e
    \<Longrightarrow> prune_trace env u uid (ref # refs) [g] (Some e)"
| foreign: "get_of env ref (Inr obj) g \<Longrightarrow> \<not> owned_by u uid obj \<Longrightarrow> prune_trace env u uid refs cs r
    \<Longrightarrow> prune_trace env u uid (ref # refs) (g # cs) r"
| not_deletable: "get_of env ref (Inr obj) g \<Longrightarrow> owned_by u uid obj
    \<Longrightarrow> prune_trace env u uid (ref # refs) [g] (Some e)"
| refused: "get_of env ref (Inr obj) g \<Longrightarrow> owned_by u uid obj \<Longrightarrow> delete_of env u obj (Some e) d
    \<Longrightarrow> prune_trace env u uid (ref # refs) [g, d] (Some e)"
| deleted: "get_of env ref (Inr obj) g \<Longrightarrow> owned_by u uid obj \<Longrightarrow> delete_of env u obj None d
    \<Longrightarrow> prune_trace env u uid refs cs r \<Longrightarrow> prune_trace env u uid (ref # refs) (g # d # cs) r"

inductive_cases prune_trace_Nil: "prune_trace env u uid [] cs r"
inductive_cases prune_trace_Cons: "prune_trace env u uid (ref # refs) cs r"
inductive_simps prune_trace_Nil_iff [simp]: "prune_trace env u uid [] cs r"

definition prune_step ::
  "'o env \<Rightarrow> 'o uapi \<Rightarrow> string \<Rightarrow> resource_reference list \<Rightarrow> 'o result \<Rightarrow> ('o, gerror option) prog" where
  "prune_step env u uid refs a =
     (case a of
        Inl err \<Rightarrow> if is_not_found err then prune_loop env u uid refs else State_Monad.return (Some err)
      | Inr obj \<Rightarrow> if owned_by u uid obj then
            State_Monad.bind (deleteObject env u obj) (\<lambda>d. case d of
               Some err \<Rightarrow> State_Monad.return (Some err) | None \<Rightarrow> prune_loop env u uid refs)
          else prune_loop env u uid refs)"

lemma prune_loop_Cons:
  "prune_loop env u uid (ref # refs)
     = State_Monad.bind (fetchLiveObject env ref) (prune_step env u uid refs)"
  by (auto simp: prune_step_def owned_by_def fun_eq_iff split: sum.split
      intro!: arg_cong [where f = "State_Monad.bind (fetchLiveObject env ref)"])

lemma prune_loop_trace:
  "run_state (prune_loop env u uid refs) h = (r, h') \<Longrightarrow>
     \<exists>new. h' = h @ new \<and> prune_trace env u uid refs new r"
proof (induction refs arbitrary: h)
  case Nil
  then show ?case by simp
next
  case (Cons ref refs)
  from Cons.prems obtain a h1 where fetch: "run_state (fetchLiveObject env ref) h = (a, h1)"
    and rest: "run_state (prune_step env u uid refs a) h1 = (r, h')"
    unfolding prune_loop_Cons by (rule run_bindE)
  note rest = rest [unfolded prune_step_def]
  from fetch show ?case
  proof (cases rule: run_fetchLiveObject)
    case (unmapped e)
    show ?thesis
    proof (cases "is_not_found e")
      case True
      with unmapped rest Cons.IH [of h1] show ?thesis by (auto intro: kind_gone)
    next
      case False
      with unmapped rest show ?thesis by (auto intro: kind_unknown)
    qed
  next
    case (asked g)
    show ?thesis
    proof (cases a)
      case (Inl e)
      with asked rest Cons.IH [of h1] show ?thesis
        by (cases "is_not_found e") (auto intro: object_gone lookup_failed)
    next
      case (Inr obj)
      show ?thesis
      proof (cases "owned_by u uid obj")
        case False
        with asked rest Inr Cons.IH [of h1] show ?thesis by (auto intro: foreign)
      next
        case True
        with rest Inr obtain x h2 where del: "run_state (deleteObject env u obj) h1 = (x, h2)"
          and tail: "run_state (case x of Some err \<Rightarrow> State_Monad.return (Some err)
            | None \<Rightarrow> prune_loop env u uid refs) h2 = (r, h')"
          by (simp only: sum.case if_True) (rule run_bindE)
        from del show ?thesis
        proof (cases rule: run_deleteObject)
          case (unmapped e)
          with tail asked Inr True show ?thesis by (auto intro: not_deletable)
        next
          case (asked d)
          with tail \<open>get_of env ref a g\<close> \<open>h1 = h @ [g]\<close> Inr True Cons.IH [of h2] show ?thesis
            by (cases x) (auto intro: refused deleted)
        qed
      qed
    qed
  qed
qed


subsection \<open>Safety and completeness of the specification\<close>

text \<open>
  \<open>owned_delete u uid refs g d\<close>: \<open>g\<close> looked up one of the references, found an object the
  application owns, and \<open>d\<close> deletes just that object.
\<close>

definition owned_delete ::
  "'o env \<Rightarrow> 'o uapi \<Rightarrow> string \<Rightarrow> resource_reference set \<Rightarrow> 'o call \<Rightarrow> 'o call \<Rightarrow> bool" where
  "owned_delete env u uid refs g d \<longleftrightarrow> (\<exists>ref obj a. ref \<in> refs \<and> get_of env ref (Inr obj) g
     \<and> owned_by u uid obj \<and> delete_of env u obj a d)"

lemma prune_trace_guarded:
  "prune_trace env u uid refs new r \<Longrightarrow> set refs \<subseteq> R \<Longrightarrow>
     guarded is_delete (owned_delete env u uid R) new"
proof (induction rule: prune_trace.induct)
  case (object_gone ref e g refs cs r)
  then show ?case using guarded_append [of _ _ "[g]" cs] by (simp add: guarded_none)
next
  case (foreign ref obj g refs cs r)
  then show ?case using guarded_append [of _ _ "[g]" cs] by (simp add: guarded_none)
next
  case (refused ref obj g e d refs)
  then show ?case by (intro guarded_pair) (auto simp: owned_delete_def)
next
  case (deleted ref obj g d refs cs r)
  then have "guarded is_delete (owned_delete env u uid R) [g, d]"
    by (intro guarded_pair) (auto simp: owned_delete_def)
  with deleted show ?case using guarded_append [of _ _ "[g, d]" cs] by simp
qed (auto simp: guarded_none)

lemma prune_trace_no_patch: "prune_trace env u uid refs new r \<Longrightarrow> list_all (\<lambda>c. \<not> is_patch c) new"
  by (induction rule: prune_trace.induct) auto

text \<open>
  \<open>settled\<close>: the reference needs no more work: its kind or its object is gone, or the live object is
  somebody else's, or its deletion was accepted.
\<close>

definition settled ::
  "'o env \<Rightarrow> 'o uapi \<Rightarrow> string \<Rightarrow> 'o call list \<Rightarrow> resource_reference \<Rightarrow> bool" where
  "settled env u uid new ref \<longleftrightarrow>
     (\<exists>h e. env_mapper env h (rr_gvk ref) = Inl e \<and> is_not_found e)
     \<or> (\<exists>g \<in> set new. \<exists>e. get_of env ref (Inl e) g \<and> is_not_found e)
     \<or> (\<exists>g \<in> set new. \<exists>obj. get_of env ref (Inr obj) g
          \<and> (\<not> owned_by u uid obj \<or> (\<exists>d \<in> set new. delete_of env u obj None d)))"

lemma settled_mono: "settled env u uid new ref \<Longrightarrow> set new \<subseteq> set new' \<Longrightarrow> settled env u uid new' ref"
  unfolding settled_def by (meson subsetD)

lemma prune_trace_settled:
  "prune_trace env u uid refs new r \<Longrightarrow> r = None \<Longrightarrow> \<forall>ref \<in> set refs. settled env u uid new ref"
proof (induction rule: prune_trace.induct)
  case (kind_gone h ref e refs cs r)
  then have "settled env u uid cs ref" unfolding settled_def by blast
  with kind_gone show ?case by simp
next
  case (object_gone ref e g refs cs r)
  then have "settled env u uid (g # cs) ref" unfolding settled_def by auto
  with object_gone show ?case by (auto intro: settled_mono [of _ _ _ cs])
next
  case (foreign ref obj g refs cs r)
  then have "settled env u uid (g # cs) ref" unfolding settled_def by auto
  with foreign show ?case by (auto intro: settled_mono [of _ _ _ cs])
next
  case (deleted ref obj g d refs cs r)
  then have "settled env u uid (g # d # cs) ref" unfolding settled_def by auto
  with deleted show ?case by (auto intro: settled_mono [of _ _ _ cs])
qed auto

end
