(* ===== verification/Reconcile_Facts.thy ===== *)
theory Reconcile_Facts
  imports Prune_Trace
begin

section \<open>How the reconciler's steps compose\<close>

text \<open>
  Lemmas about the steps of \<open>Reconcile\<close>, proved along its structure: which calls each step can
  make, in which order, and what a successful reconcile has done. The checkouter and the
  renderers are reached through the reconciler's fields; \<open>well_behaved\<close> is what is needed of them:
  they work on local files and processes, they never write to the API server.
\<close>

definition well_behaved :: "'o reconciler \<Rightarrow> bool" where
  "well_behaved rc \<longleftrightarrow> lawful_uapi (rc_api rc) \<and> visits_all (rc_mapOrder rc)
     \<and> (\<forall>repo revision creds. emits is_local (rc_checkout rc repo revision creds))
     \<and> (\<forall>dir spec sha. emits is_local (rc_renderYAML rc dir spec sha))
     \<and> (\<forall>dir spec sha. emits is_local (rc_renderHelm rc dir spec sha))"

lemma well_behavedD:
  assumes "well_behaved rc"
  shows "lawful_uapi (rc_api rc)" and "visits_all (rc_mapOrder rc)"
    and "emits is_local (rc_checkout rc repo revision creds)"
    and "emits is_local (rc_renderYAML rc dir spec sha)"
    and "emits is_local (rc_renderHelm rc dir spec sha)"
  using assms by (simp_all add: well_behaved_def)

lemma emits_render:
  assumes "well_behaved rc" and "\<And>c. is_local c \<Longrightarrow> P c"
  shows "emits P (render rc app dir sha)"
  unfolding render_def
  by (intro wp; rule emits_mono [of is_local]; simp add: assms well_behavedD [OF assms(1)])

lemma emits_checkout:
  assumes "well_behaved rc" and "\<And>c. is_local c \<Longrightarrow> P c"
  shows "emits P (rc_checkout rc repo revision creds)"
  by (rule emits_mono [OF well_behavedD(3) [OF assms(1)]]) (rule assms(2))

lemma run_prune:
  assumes "run_state (prune rc app desired) h = (r, h')"
  obtains new where "h' = h @ new"
    "prune_trace (rc_env rc) (rc_api rc) (om_uid (app_meta app))
       (Diff (gvkString (rc_api rc)) (rc_mapOrder rc) (st_inventory (app_status app)) desired) new r"
  using prune_loop_trace assms unfolding prune_def by blast

lemma emits_prune [wp]:
  assumes "\<And>g s n r. P (CallDynGet g s n r)" and "\<And>g s n r. P (CallDynDelete g s n r)"
  shows "emits P (prune rc app desired)"
proof -
  have "emits P (prune_loop env u uid refs)" for env u uid refs
  proof (induction refs)
    case (Cons ref refs)
    have "emits P (fetchLiveObject env ref)" "emits P (deleteObject env u obj)" for obj
      unfolding fetchLiveObject_def deleteObject_def by (intro wp assms)+
    then show ?case
      unfolding prune_loop.simps by (intro wp Cons.IH)
  qed (simp add: wp)
  then show ?thesis unfolding prune_def .
qed


subsection \<open>Status writers\<close>

lemma emits_fail [wp]:
  assumes "\<And>t. P (CallNow t)"
    and "\<And>now a. P (CallStatusPatch app (app\<lparr>app_status := failure_status now stage err stalled app\<rparr>) a)"
  shows "emits P (fail env app stage err stalled)"
  unfolding fail_def Let_def by (intro wp assms)

lemma emits_fail_result [wp]:
  assumes "\<And>t. P (CallNow t)"
    and "\<And>now a. P (CallStatusPatch app (app\<lparr>app_status := failure_status now stage err stalled app\<rparr>) a)"
  shows "emits P (fail_result rc app stage err stalled)"
  unfolding fail_result_def by (intro wp assms)

lemma emits_updateSuccess [wp]:
  assumes "\<And>t. P (CallNow t)"
    and "\<And>now a. P (CallStatusPatch app (app\<lparr>app_status := success_status u now sha desired app\<rparr>) a)"
  shows "emits P (updateSuccess env u app sha desired)"
  unfolding updateSuccess_def Let_def by (intro wp assms)

lemma emits_updateSuspended [wp]:
  assumes "\<And>t. P (CallNow t)"
    and "\<And>now a. P (CallStatusPatch app (app\<lparr>app_status := suspended_status now app\<rparr>) a)"
  shows "emits P (updateSuspended env cfg app)"
  unfolding updateSuspended_def Let_def by (intro wp assms)

lemma emits_reconcile_finish:
  assumes "\<And>t. P (CallNow t)" and "\<And>base app a. P (CallStatusPatch base app a)"
  shows "emits P (reconcile_finish rc app sha desired)"
  unfolding reconcile_finish_def Let_def by (intro wp assms)


subsection \<open>The early returns\<close>

lemma run_Reconcile:
  "run_state (Reconcile rc ns name) h =
     (let a = env_getApp (rc_env rc) h ns name; h1 = h @ [CallGetApp ns name a] in
      case a of
        Inl err \<Rightarrow> ((no_result, if is_not_found err then None else Some err), h1)
      | Inr app \<Rightarrow>
          if is_deleted app then ((no_result, None), h1)
          else if spec_suspend (app_spec app) then run_state (updateSuspended (rc_env rc) (rc_config rc) app) h1
          else run_state (reconcile_active rc app) h1)"
  by (simp add: Reconcile_def getApp_def Let_def split: sum.split)

text \<open>The application is to be worked on: it exists, is not being deleted, and is not suspended.\<close>

definition active :: "'o env \<Rightarrow> 'o history \<Rightarrow> string \<Rightarrow> string \<Rightarrow> git_application \<Rightarrow> bool" where
  "active env h ns name app \<longleftrightarrow> env_getApp env h ns name = Inr app
     \<and> \<not> is_deleted app \<and> \<not> spec_suspend (app_spec app)"

lemma run_Reconcile_active:
  assumes "active (rc_env rc) h ns name app"
  shows "run_state (Reconcile rc ns name) h
    = run_state (reconcile_active rc app) (h @ [CallGetApp ns name (Inr app)])"
  using assms by (simp add: active_def run_Reconcile Let_def)

lemma emits_Reconcile:
  assumes "\<And>a. P (CallGetApp ns name a)"
    and "\<And>app. emits P (updateSuspended (rc_env rc) (rc_config rc) app)"
    and "\<And>app. emits P (reconcile_active rc app)"
  shows "emits P (Reconcile rc ns name)"
  unfolding Reconcile_def by (intro wp assms)

text \<open>A reconcile of an application that is not active does not touch the cluster.\<close>

lemma Reconcile_inactive:
  assumes "run_state (Reconcile rc ns name) h = (r, h @ new)"
    and "\<nexists>app. active (rc_env rc) h ns name app"
  shows "list_all (\<lambda>c. \<not> is_mutation c) new"
proof -
  have susp: "emits (\<lambda>c. \<not> is_mutation c) (updateSuspended (rc_env rc) (rc_config rc) app)" for app
    by (intro wp) simp_all
  from assms show ?thesis
    by (auto simp: run_Reconcile active_def Let_def split: sum.splits if_splits elim: emitsE [OF susp])
qed


subsection \<open>The stages of the active part\<close>

text \<open>The application with the attempted revision noted, as \<open>Reconcile\<close> holds it after the checkout.\<close>

abbreviation attempted :: "git_application \<Rightarrow> string \<Rightarrow> git_application" where
  "attempted app sha \<equiv> app\<lparr>app_status := (app_status app)\<lparr>st_attemptedRevision := sha\<rparr>\<rparr>"

lemma attempted_frame [simp]:
  "render rc (app\<lparr>app_status := s\<rparr>) dir sha = render rc app dir sha"
  "reconcile_policy cfg (app\<lparr>app_status := s\<rparr>) sha = reconcile_policy cfg app sha"
  by (simp_all add: render_def reconcile_policy_def)

lemma fieldManagerOrDefault_nonempty [simp]: "fieldManagerOrDefault fm \<noteq> []"
  by (simp add: fieldManagerOrDefault_def DefaultFieldManager_def)

text \<open>
  \<open>batch rc app h sha normalized desired\<close>: the specification was valid, the checkout resolved the
  revision to \<open>sha\<close>, and what was rendered from it up to the history \<open>h\<close> normalised to these objects
  and this inventory.
\<close>

definition batch ::
  "'o reconciler \<Rightarrow> git_application \<Rightarrow> 'o history \<Rightarrow> string \<Rightarrow> 'o list \<Rightarrow> resource_reference list \<Rightarrow> bool" where
  "batch rc app h sha normalized desired \<longleftrightarrow>
     validateSpec (rc_api rc) app (rc_config rc) = None
     \<and> (\<exists>creds dir h1 h2 rendered.
          run_state (rc_checkout rc (src_repository (spec_source (app_spec app)))
            (src_revision (spec_source (app_spec app))) creds) h1 = (Inr (dir, sha), h2)
          \<and> run_state (render rc app dir sha) h2 = (Inr rendered, h)
          \<and> NormalizeAndValidate (rc_api rc) (env_mapper (rc_env rc) h) rendered
              (reconcile_policy (rc_config rc) app sha) = Inr (normalized, desired))"

text \<open>
  The same with the calls of each stage: from the history \<open>h\<close> on, the credentials were loaded (\<open>l\<close>), the checkout
  was made (\<open>k\<close>), and the objects were rendered from its directory (\<open>b\<close>). Since runs are deterministic, there is
  at most one such batch from a history (\<open>batch_from\<close>).
\<close>

definition staged ::
  "'o reconciler \<Rightarrow> git_application \<Rightarrow> 'o history \<Rightarrow> credentials option \<Rightarrow> string \<Rightarrow> string
     \<Rightarrow> 'o call list \<Rightarrow> 'o call list \<Rightarrow> 'o call list \<Rightarrow> 'o option list \<Rightarrow> 'o list \<Rightarrow> resource_reference list \<Rightarrow> bool" where
  "staged rc app h creds dir sha l k b rendered normalized desired \<longleftrightarrow>
     validateSpec (rc_api rc) app (rc_config rc) = None
     \<and> (\<exists>stalled. run_state (loadCredentials (rc_env rc) (rc_kube rc) app) h = ((creds, stalled, None), h @ l))
     \<and> run_state (rc_checkout rc (src_repository (spec_source (app_spec app)))
         (src_revision (spec_source (app_spec app))) creds) (h @ l) = (Inr (dir, sha), h @ l @ k)
     \<and> run_state (render rc app dir sha) (h @ l @ k) = (Inr rendered, h @ l @ k @ b)
     \<and> NormalizeAndValidate (rc_api rc) (env_mapper (rc_env rc) (h @ l @ k @ b)) rendered
         (reconcile_policy (rc_config rc) app sha) = Inr (normalized, desired)"

definition batch_from ::
  "'o reconciler \<Rightarrow> git_application \<Rightarrow> 'o history \<Rightarrow> string \<Rightarrow> 'o list \<Rightarrow> resource_reference list \<Rightarrow> bool" where
  "batch_from rc app h sha normalized desired \<longleftrightarrow>
     (\<exists>creds dir l k b rendered. staged rc app h creds dir sha l k b rendered normalized desired)"

lemma staged_batch:
  "staged rc app h creds dir sha l k b rendered normalized desired \<Longrightarrow> batch rc app (h @ l @ k @ b) sha normalized desired"
  unfolding staged_def batch_def by blast

lemma staged_unique:
  assumes "staged rc app h creds dir sha l k b rendered n d" and "staged rc app h creds' dir' sha' l' k' b' rendered' n' d'"
  shows "creds' = creds \<and> dir' = dir \<and> sha' = sha \<and> l' = l \<and> k' = k \<and> b' = b \<and> rendered' = rendered \<and> n' = n \<and> d' = d"
  using assms unfolding staged_def by auto

text \<open>Applying, then pruning if asked, as traces.\<close>

definition applied ::
  "'o reconciler \<Rightarrow> git_application \<Rightarrow> 'o list \<Rightarrow> 'o call list \<Rightarrow> gerror option \<Rightarrow> bool" where
  "applied rc app normalized patches r \<longleftrightarrow>
     apply_run (rc_env rc) (rc_api rc) (fieldManagerOrDefault (cfg_fieldManager (rc_config rc)))
       (spec_takeoverExistingResources (app_spec app)) normalized patches r"

definition stale_refs ::
  "'o reconciler \<Rightarrow> git_application \<Rightarrow> resource_reference list \<Rightarrow> resource_reference list" where
  "stale_refs rc app desired =
     Diff (gvkString (rc_api rc)) (rc_mapOrder rc) (st_inventory (app_status app)) desired"

definition pruned ::
  "'o reconciler \<Rightarrow> git_application \<Rightarrow> resource_reference list \<Rightarrow> 'o call list \<Rightarrow> gerror option \<Rightarrow> bool" where
  "pruned rc app desired prunes r \<longleftrightarrow>
     (if spec_prune (app_spec app)
      then prune_trace (rc_env rc) (rc_api rc) (om_uid (app_meta app)) (stale_refs rc app desired) prunes r
      else prunes = [] \<and> r = None)"

lemma attempted_stages [simp]:
  "applied rc (attempted app sha) = applied rc app" "pruned rc (attempted app sha) = pruned rc app"
  "stale_refs rc (attempted app sha) = stale_refs rc app"
  by (simp_all add: applied_def pruned_def stale_refs_def fun_eq_iff)

abbreviation harmless :: "'o call list \<Rightarrow> bool" where
  "harmless \<equiv> list_all (\<lambda>c. \<not> is_mutation c)"

lemma fail_result_harmless:
  assumes "run_state (fail_result rc app stage err stalled) h = (res, h')"
  obtains tail where "h' = h @ tail" "harmless tail" "snd res \<noteq> None"
proof -
  have "emits (\<lambda>c. \<not> is_mutation c) (fail_result rc app stage err stalled)" by (intro wp) simp_all
  from emitsE [OF this assms] obtain tail where "h' = h @ tail" "harmless tail" by blast
  moreover from assms have "snd res \<noteq> None"
    unfolding fail_result_def by (elim run_bindE) auto
  ultimately show ?thesis by (rule that)
qed

lemma reconcile_finish_harmless:
  assumes "run_state (reconcile_finish rc app sha desired) h = (res, h')"
  obtains tail where "h' = h @ tail" "harmless tail"
proof -
  have "emits (\<lambda>c. \<not> is_mutation c) (reconcile_finish rc app sha desired)"
    by (rule emits_reconcile_finish) simp_all
  from emitsE [OF this assms] that show ?thesis by blast
qed

lemma run_reconcile_apply:
  assumes "run_state (reconcile_apply rc app sha normalized desired) h = (res, h')"
  obtains patches prunes ra rp tail where "h' = h @ patches @ prunes @ tail" "harmless tail"
    "applied rc app normalized patches ra"
    "if ra = None then pruned rc app desired prunes rp else prunes = [] \<and> rp = None"
    "snd res = None \<Longrightarrow> ra = None \<and> rp = None \<and>
       run_state (reconcile_finish rc app sha desired) (h @ patches @ prunes) = (res, h')"
proof -
  from assms obtain ra h1 where ap: "run_state (Apply (rc_env rc) (rc_api rc) normalized
        (fieldManagerOrDefault (cfg_fieldManager (rc_config rc))) (spec_takeoverExistingResources (app_spec app))) h
      = (ra, h1)"
    and rest: "run_state (case ra of
          Some err \<Rightarrow> fail_result rc app ''apply'' err False
        | None \<Rightarrow> if spec_prune (app_spec app) then State_Monad.bind (prune rc app desired) (\<lambda>p. case p of
             Some err \<Rightarrow> fail_result rc app ''prune'' err False
           | None \<Rightarrow> reconcile_finish rc app sha desired)
          else reconcile_finish rc app sha desired) h1 = (res, h')"
    unfolding reconcile_apply_def by (rule run_bindE)
  from ap obtain patches where 1: "h1 = h @ patches" "applied rc app normalized patches ra"
    using apply_loop_run unfolding Apply_def applied_def by fastforce
  show ?thesis
  proof (cases ra)
    case (Some err)
    with rest have "run_state (fail_result rc app ''apply'' err False) h1 = (res, h')" by simp
    from fail_result_harmless [OF this] obtain tail where "h' = h1 @ tail" "harmless tail" "snd res \<noteq> None" .
    with 1 Some show ?thesis by (intro that [of patches "[]" tail ra None]) auto
  next
    case None
    show ?thesis
    proof (cases "spec_prune (app_spec app)")
      case False
      with rest None have fin: "run_state (reconcile_finish rc app sha desired) h1 = (res, h')" by simp
      from reconcile_finish_harmless [OF this] obtain tail where "h' = h1 @ tail" "harmless tail" .
      with 1 None False fin show ?thesis
        by (intro that [of patches "[]" tail ra None]) (auto simp: pruned_def)
    next
      case True
      with rest None obtain rp h2 where pr: "run_state (prune rc app desired) h1 = (rp, h2)"
        and tail: "run_state (case rp of Some err \<Rightarrow> fail_result rc app ''prune'' err False
           | None \<Rightarrow> reconcile_finish rc app sha desired) h2 = (res, h')"
        by (simp only: option.case if_True) (rule run_bindE)
      from run_prune [OF pr] obtain prunes where 2: "h2 = h1 @ prunes" "pruned rc app desired prunes rp"
        using True by (metis pruned_def stale_refs_def)
      show ?thesis
      proof (cases rp)
        case (Some err)
        with tail have "run_state (fail_result rc app ''prune'' err False) h2 = (res, h')" by simp
        from fail_result_harmless [OF this] obtain t where "h' = h2 @ t" "harmless t" "snd res \<noteq> None" .
        with 1 2 None show ?thesis by (intro that [of patches prunes t ra rp]) auto
      next
        case None': None
        with tail have fin: "run_state (reconcile_finish rc app sha desired) h2 = (res, h')" by simp
        from reconcile_finish_harmless [OF this] obtain t where "h' = h2 @ t" "harmless t" .
        with 1 2 None None' fin show ?thesis by (intro that [of patches prunes t ra rp]) auto
      qed
    qed
  qed
qed


text \<open>
  The master lemma on an active reconcile: it stops before touching the cluster and reports an error,
  or it reaches a normalised batch and goes on with \<open>reconcile_apply\<close>. Everything before that
  is harmless.
\<close>

lemma local_emits_harmless:
  assumes "well_behaved rc"
  shows "emits (\<lambda>c. \<not> is_mutation c) (render rc app dir sha)"
    and "emits (\<lambda>c. \<not> is_mutation c) (rc_checkout rc repo revision creds)"
  by (rule emits_render [OF assms] emits_checkout [OF assms]; erule local_harmless)+

lemma run_reconcile_checkout:
  assumes "well_behaved rc" and "run_state (reconcile_checkout rc app dir sha) h = (res, h')"
  obtains (stopped) new where "h' = h @ new" "harmless new" "snd res \<noteq> None"
    | (reached) pre rendered normalized desired where "harmless pre"
        "run_state (render rc app dir sha) h = (Inr rendered, h @ pre)"
        "NormalizeAndValidate (rc_api rc) (env_mapper (rc_env rc) (h @ pre)) rendered
           (reconcile_policy (rc_config rc) app sha) = Inr (normalized, desired)"
        "run_state (reconcile_apply rc app sha normalized desired) (h @ pre) = (res, h')"
proof -
  from assms(2) obtain r h1 where rn: "run_state (render rc app dir sha) h = (r, h1)"
    and rest: "run_state (case r of
        Inl err \<Rightarrow> fail_result rc app ''render'' err False
      | Inr rendered \<Rightarrow> State_Monad.bind (mapperNow (rc_env rc)) (\<lambda>mapper.
          case NormalizeAndValidate (rc_api rc) mapper rendered (reconcile_policy (rc_config rc) app sha) of
             Inl err \<Rightarrow> fail_result rc app ''policy validation'' err True
           | Inr (normalized, desired) \<Rightarrow> reconcile_apply rc app sha normalized desired)) h1 = (res, h')"
    unfolding reconcile_checkout_def by (rule run_bindE)
  from emitsE [OF local_emits_harmless(1) [OF assms(1)] rn]
  obtain pre where pre: "h1 = h @ pre" "harmless pre" by blast
  show ?thesis
  proof (cases r)
    case (Inl err)
    with rest have "run_state (fail_result rc app ''render'' err False) h1 = (res, h')" by simp
    from fail_result_harmless [OF this] pre show ?thesis by (metis append.assoc list_all_append stopped)
  next
    case (Inr rendered)
    show ?thesis
    proof (cases "NormalizeAndValidate (rc_api rc) (env_mapper (rc_env rc) h1) rendered
        (reconcile_policy (rc_config rc) app sha)")
      case (Inl err)
      with rest Inr have "run_state (fail_result rc app ''policy validation'' err True) h1 = (res, h')" by simp
      from fail_result_harmless [OF this] pre show ?thesis by (metis append.assoc list_all_append stopped)
    next
      case out: (Inr p)
      obtain normalized desired where "p = (normalized, desired)" by (cases p)
      with rest Inr out rn pre show ?thesis by (intro reached) auto
    qed
  qed
qed

lemma run_reconcile_staged:
  assumes "well_behaved rc" and "run_state (reconcile_active rc app) h = (res, h')"
  obtains (stopped) new where "h' = h @ new" "harmless new" "snd res \<noteq> None"
    | (reached) creds dir sha l k b rendered normalized desired where "harmless (l @ k @ b)"
        "staged rc app h creds dir sha l k b rendered normalized desired"
        "run_state (reconcile_apply rc (attempted app sha) sha normalized desired) (h @ l @ k @ b) = (res, h')"
proof (cases "validateSpec (rc_api rc) app (rc_config rc)")
  case (Some err)
  with assms(2) have "run_state (fail_result rc app ''policy validation'' err True) h = (res, h')"
    by (simp add: reconcile_active_def)
  then show ?thesis by (rule fail_result_harmless) (rule stopped)
next
  case valid: None
  let ?repo = "src_repository (spec_source (app_spec app))"
  let ?rev = "src_revision (spec_source (app_spec app))"
  from assms(2) valid obtain creds stalled cerr h1
    where ld: "run_state (loadCredentials (rc_env rc) (rc_kube rc) app) h = ((creds, stalled, cerr), h1)"
      and rest: "run_state (case cerr of
             Some err \<Rightarrow> fail_result rc app ''source fetch'' err stalled
           | None \<Rightarrow> State_Monad.bind (rc_checkout rc ?repo ?rev creds) (\<lambda>c. case c of
                  Inl err \<Rightarrow> fail_result rc app ''checkout'' err False
                | Inr (checkoutDir, sha) \<Rightarrow> reconcile_checkout rc (attempted app sha) checkoutDir sha)) h1
        = (res, h')"
    unfolding reconcile_active_def by (simp only: option.case, elim run_bindE) (auto split: prod.splits)
  have "emits (\<lambda>c. \<not> is_mutation c) (loadCredentials (rc_env rc) (rc_kube rc) app)"
    by (rule emits_loadCredentials) simp
  from emitsE [OF this ld] obtain l where l: "h1 = h @ l" "harmless l" by blast
  show ?thesis
  proof (cases cerr)
    case (Some err)
    with rest have "run_state (fail_result rc app ''source fetch'' err stalled) h1 = (res, h')" by simp
    from fail_result_harmless [OF this] obtain t where "h' = h1 @ t" "harmless t" "snd res \<noteq> None" .
    with l show ?thesis by (intro stopped [of "l @ t"]) simp_all
  next
    case None
    with rest obtain c h2 where co: "run_state (rc_checkout rc ?repo ?rev creds) h1 = (c, h2)"
      and rest2: "run_state (case c of
                  Inl err \<Rightarrow> fail_result rc app ''checkout'' err False
                | Inr (checkoutDir, sha) \<Rightarrow> reconcile_checkout rc (attempted app sha) checkoutDir sha) h2
        = (res, h')" by (simp only: option.case) (rule run_bindE)
    from emitsE [OF local_emits_harmless(2) [OF assms(1)] co]
    obtain k where k: "h2 = h1 @ k" "harmless k" by blast
    show ?thesis
    proof (cases c)
      case (Inl err)
      with rest2 have "run_state (fail_result rc app ''checkout'' err False) h2 = (res, h')" by simp
      from fail_result_harmless [OF this] obtain t where "h' = h2 @ t" "harmless t" "snd res \<noteq> None" .
      with l k show ?thesis by (intro stopped [of "l @ k @ t"]) simp_all
    next
      case (Inr p)
      obtain dir sha where "p = (dir, sha)" by (cases p)
      with rest2 Inr have "run_state (reconcile_checkout rc (attempted app sha) dir sha) h2 = (res, h')" by simp
      from assms(1) this show ?thesis
      proof (cases rule: run_reconcile_checkout)
        case (stopped new)
        with l k that(1) [of "l @ k @ new"] show ?thesis by simp
      next
        case (reached pre rendered normalized desired)
        have "staged rc app h creds dir sha l k pre rendered normalized desired"
          unfolding staged_def
          by (intro conjI exI [of _ stalled])
            (use valid ld None co l k Inr \<open>p = (dir, sha)\<close> reached(2,3) in simp_all)
        with l k reached(1,4) that(2) [of l k pre creds dir sha rendered normalized desired]
        show ?thesis by simp
      qed
    qed
  qed
qed

lemma run_reconcile_active:
  assumes "well_behaved rc" and "run_state (reconcile_active rc app) h = (res, h')"
  obtains (stopped) new where "h' = h @ new" "harmless new" "snd res \<noteq> None"
    | (reached) pre sha normalized desired where "harmless pre" "batch rc app (h @ pre) sha normalized desired"
        "run_state (reconcile_apply rc (attempted app sha) sha normalized desired) (h @ pre) = (res, h')"
        "batch_from rc app h sha normalized desired"
  using assms
proof (cases rule: run_reconcile_staged)
  case (stopped new)
  then show ?thesis by (rule that(1))
next
  case (reached creds dir sha l k b rendered normalized desired)
  from reached(2) have "batch_from rc app h sha normalized desired" unfolding batch_from_def by blast
  with reached staged_batch [OF reached(2)] show ?thesis by (intro that(2) [of "l @ k @ b"]) simp_all
qed

text \<open>The same for \<open>Reconcile\<close>.\<close>

lemma Reconcile_work:
  assumes wb: "well_behaved rc" and run: "run_state (Reconcile rc ns name) h = (r, h @ new)"
  obtains (idle) "harmless new"
    | (work) app pre sha normalized desired patches prunes ra rp tail where
        "active (rc_env rc) h ns name app" "new = pre @ patches @ prunes @ tail"
        "harmless pre" "harmless tail" "batch rc app (h @ pre) sha normalized desired"
        "applied rc app normalized patches ra"
        "if ra = None then pruned rc app desired prunes rp else prunes = [] \<and> rp = None"
        "snd r = None \<Longrightarrow> ra = None \<and> rp = None \<and> run_state (reconcile_finish rc (attempted app sha)
           sha desired) (h @ pre @ patches @ prunes) = (r, h @ new)"
        "batch_from rc app (h @ [CallGetApp ns name (Inr app)]) sha normalized desired"
proof (cases "\<exists>app. active (rc_env rc) h ns name app")
  case False
  with Reconcile_inactive [OF run] show ?thesis by (intro idle) simp
next
  case True
  then obtain app where app: "active (rc_env rc) h ns name app" ..
  let ?g = "CallGetApp ns name (Inr app)"
  from run have act: "run_state (reconcile_active rc app) (h @ [?g]) = (r, h @ new)"
    by (simp only: run_Reconcile_active [OF app])
  from wb act show ?thesis
  proof (cases rule: run_reconcile_active)
    case (stopped n)
    then show ?thesis by (intro idle) simp
  next
    case (reached pre sha normalized desired)
    from reached(3) show ?thesis
    proof (cases rule: run_reconcile_apply)
      case (1 patches prunes ra rp tail)
      then have "new = (?g # pre) @ patches @ prunes @ tail" by simp
      moreover have "applied rc app normalized patches ra"
        "if ra = None then pruned rc app desired prunes rp else prunes = [] \<and> rp = None"
        using 1(3,4) by (auto split: if_splits)
      moreover have "harmless (?g # pre)" using reached(1) by simp
      moreover have "batch rc app (h @ ?g # pre) sha normalized desired" using reached(2) by simp
      ultimately show ?thesis
        using app 1(2,5) reached(4) by (intro work [of app "?g # pre" patches prunes tail sha normalized desired ra rp]) auto
    qed
  qed
qed

lemma Reconcile_appends:
  assumes wb: "well_behaved rc" and run: "run_state (Reconcile rc ns name) h = (r, h')"
  obtains new where "h' = h @ new"
proof (cases "\<exists>app. active (rc_env rc) h ns name app")
  case False
  have susp: "emits (\<lambda>_. True) (updateSuspended (rc_env rc) (rc_config rc) app)" for app
    by (intro wp) simp_all
  from run False have "\<exists>new. h' = h @ new"
    by (auto simp: run_Reconcile active_def Let_def split: sum.splits if_splits elim: emitsE [OF susp])
  then show ?thesis using that by blast
next
  case True
  then obtain app where app: "active (rc_env rc) h ns name app" ..
  from run have "run_state (reconcile_active rc app) (h @ [CallGetApp ns name (Inr app)]) = (r, h')"
    by (simp only: run_Reconcile_active [OF app])
  with wb show ?thesis
  proof (cases rule: run_reconcile_active)
    case (reached pre sha normalized desired)
    from reached(3) show ?thesis by (rule run_reconcile_apply) (use that in auto)
  qed (use that in auto)
qed

end
