(* ===== verification/Reconcile_Reports.thy ===== *)
theory Reconcile_Reports
  imports Reconcile_Facts
begin

section \<open>What a reconcile reports\<close>

text \<open>
  Every active reconcile ends with a status patch whose conditions agree with the result it returns
  (\<open>reports\<close>), and no status patch ever changes \<open>attemptedRevision\<close> (\<open>keeps_attempted\<close>). Both are
  proved along the structure of \<open>Reconcile\<close> with the rules of the effect logic.
\<close>

text \<open>The call is the status patch that tells the outcome: an error, or none.\<close>

definition reports :: "gerror option \<Rightarrow> 'o call \<Rightarrow> bool" where
  "reports outcome c \<longleftrightarrow> (\<exists>base modified a. c = CallStatusPatch base modified a
     \<and> st_observedGeneration (app_status modified) = om_generation (app_meta base)
     \<and> st_lastAttemptTime (app_status modified) \<noteq> None
     \<and> cond_is (app_status modified) ''Reconciling'' ConditionFalse
     \<and> (case outcome of
          None \<Rightarrow> cond_is (app_status modified) ''Ready'' ConditionTrue
            \<and> cond_is (app_status modified) ''Stalled'' ConditionFalse \<and> (\<exists>updated. a = Inr updated)
        | Some err \<Rightarrow> cond_is (app_status modified) ''Ready'' ConditionFalse
            \<and> (\<forall>updateErr. a = Inl updateErr \<longrightarrow> root_cause err = root_cause updateErr)))"

lemma status_frame:
  "st_observedGeneration (success_status u now sha desired app) = om_generation (app_meta app)"
  "st_observedGeneration (failure_status now stage err stalled app) = om_generation (app_meta app)"
  "st_lastAttemptTime (success_status u now sha desired app) = Some now"
  "st_lastAttemptTime (failure_status now stage err stalled app) = Some now"
  by (simp_all add: status_defs Let_def)

lemma fail_result_reports:
  "ends_with (\<lambda>r. reports (snd r)) (fail_result rc app stage err stalled)"
  unfolding fail_result_def
proof (rule ends_with_map)
  show "ends_with (\<lambda>e. reports (snd (no_result, Some e))) (fail (rc_env rc) app stage err stalled)"
    unfolding ends_with_def
    by (auto simp: run_fail Let_def reports_def status_frame failure_conditions split: sum.splits)
qed

lemma reconcile_finish_reports:
  "ends_with (\<lambda>r. reports (snd r)) (reconcile_finish rc app sha desired)"
  unfolding ends_with_def
proof (intro allI impI)
  fix h r h' assume "run_state (reconcile_finish rc app sha desired) h = (r, h')"
  then obtain p h1
    where "run_state (updateSuccess (rc_env rc) (rc_api rc) app sha desired) h = (p, h1)"
      and rest': "run_state (case p of (app', upd) \<Rightarrow> (case upd of
          Some err \<Rightarrow> fail_result rc app' ''status update'' err False
        | None \<Rightarrow> (let interval = spec_interval (app_spec app');
               interval' = (if interval < cfg_minimumRequeueInterval (rc_config rc)
                            then cfg_minimumRequeueInterval (rc_config rc) else interval)
           in State_Monad.return (no_result\<lparr>res_requeueAfter := interval'\<rparr>, None)))) h1 = (r, h')"
    unfolding reconcile_finish_def by (rule run_bindE)
  moreover obtain app' upd where "p = (app', upd)" by (cases p)
  ultimately have up: "run_state (updateSuccess (rc_env rc) (rc_api rc) app sha desired) h = ((app', upd), h1)"
    by simp
  note rest = rest' [unfolded \<open>p = (app', upd)\<close> prod.case]
  show "\<exists>new c. h' = h @ new @ [c] \<and> reports (snd r) c"
  proof (cases upd)
    case None
    with up rest show ?thesis
      by (auto simp: run_updateSuccess Let_def reports_def status_frame success_conditions split: sum.splits)
  next
    case (Some err)
    with rest have "run_state (fail_result rc app' ''status update'' err False) h1 = (r, h')" by simp
    with fail_result_reports [of rc app' "''status update''" err False] obtain new c
      where "h' = h1 @ new @ [c]" "reports (snd r) c" unfolding ends_with_def by blast
    moreover from up obtain k where "h1 = h @ k" by (auto simp: run_updateSuccess Let_def)
    ultimately show ?thesis by (intro exI [of _ "k @ new"] exI [of _ c]) simp
  qed
qed

lemmas reports_intros = ends_with_cases ends_with_bind fail_result_reports reconcile_finish_reports

lemma emits_True_parts:
  "emits (\<lambda>_. True) (Apply env u objs fm force)"
  "emits (\<lambda>_. True) (prune rc app desired)"
  "emits (\<lambda>_. True) (loadCredentials env kube app)"
  "emits (\<lambda>_. True) (mapperNow env)"
  by (simp_all add: wp)

lemma reconcile_active_reports:
  assumes "well_behaved rc"
  shows "ends_with (\<lambda>r. reports (snd r)) (reconcile_active rc app)"
proof -
  have ap: "ends_with (\<lambda>r. reports (snd r)) (reconcile_apply rc app sha normalized desired)"
    for app sha normalized desired
    unfolding reconcile_apply_def
    by (rule ends_with_bind [OF emits_True_parts(1)] ends_with_cases fail_result_reports
        reconcile_finish_reports ends_with_bind [OF emits_True_parts(2)])+
  have checkout: "ends_with (\<lambda>r. reports (snd r)) (reconcile_checkout rc app dir sha)" for app dir sha
    unfolding reconcile_checkout_def
    by (rule ends_with_bind [OF local_emits_harmless(1) [OF assms]] ends_with_cases fail_result_reports
        ends_with_bind [OF emits_True_parts(4)] ap)+
  show ?thesis
    unfolding reconcile_active_def
    by (rule ends_with_bind [OF local_emits_harmless(2) [OF assms]] ends_with_cases fail_result_reports
        ends_with_bind [OF emits_True_parts(3)] checkout)+
qed


subsection \<open>What every call of a reconcile satisfies\<close>

text \<open>
  To show that all calls of a reconcile satisfy \<open>P\<close>: the local ones, those to the API server, and the three kinds
  of status patch, each with the base it is made from.
\<close>

lemma emits_active_calls:
  assumes wb: "well_behaved rc" and local: "\<And>c. is_local c \<Longrightarrow> P c"
    and secrets: "\<And>n r. P (CallGetSecret (om_namespace (app_meta app)) n r)"
    and dynamic: "\<And>g s n b opts r. P (CallDynPatch g s n b opts r)" "\<And>g s n r. P (CallDynGet g s n r)"
      "\<And>g s n r. P (CallDynDelete g s n r)"
    and failed: "\<And>now stage err stalled app a.
      P (CallStatusPatch app (app\<lparr>app_status := failure_status now stage err stalled app\<rparr>) a)"
    and succeeded: "\<And>now sha desired app a. st_attemptedRevision (app_status app) = sha \<Longrightarrow>
      P (CallStatusPatch app (app\<lparr>app_status := success_status (rc_api rc) now sha desired app\<rparr>) a)"
  shows "emits P (reconcile_active rc app)"
proof -
  have now: "P (CallNow t)" for t by (simp add: local)
  note fl = emits_fail_result [of P, OF now failed]
  have finish: "emits P (reconcile_finish rc (attempted app sha) sha desired)" for sha desired
    unfolding reconcile_finish_def Let_def
    by (intro emits_bind emits_updateSuccess emits_case_prod emits_case_option emits_return fl now succeeded) simp
  have patches: "emits P (Apply (rc_env rc) u objs fm force)" for u objs fm force
    by (rule emits_Apply) (auto simp: patch_of_def dynamic split: call.splits)
  have prune: "emits P (prune rc a desired)" for a desired by (rule emits_prune) (rule dynamic)+
  have ap: "emits P (reconcile_apply rc (attempted app sha) sha normalized desired)" for sha normalized desired
    unfolding reconcile_apply_def by (intro emits_bind emits_case_option emits_if patches prune fl finish)
  have checkout: "emits P (reconcile_checkout rc (attempted app sha) dir sha)" for dir sha
    unfolding reconcile_checkout_def
    by (intro emits_bind emits_case_sum emits_case_prod emits_render [OF wb local] emits_mapper fl ap)
  show ?thesis
    unfolding reconcile_active_def
    by (intro emits_bind emits_case_option emits_case_sum emits_case_prod fl checkout
        emits_checkout [OF wb local] emits_loadCredentials secrets)
qed

lemma emits_Reconcile_calls:
  assumes wb: "well_behaved rc" and local: "\<And>c. is_local c \<Longrightarrow> P c"
    and reads: "\<And>ns n r. P (CallGetApp ns n r)" "\<And>ns n r. P (CallGetSecret ns n r)"
    and dynamic: "\<And>g s n b opts r. P (CallDynPatch g s n b opts r)" "\<And>g s n r. P (CallDynGet g s n r)"
      "\<And>g s n r. P (CallDynDelete g s n r)"
    and failed: "\<And>now stage err stalled app a.
      P (CallStatusPatch app (app\<lparr>app_status := failure_status now stage err stalled app\<rparr>) a)"
    and suspended: "\<And>now app a. P (CallStatusPatch app (app\<lparr>app_status := suspended_status now app\<rparr>) a)"
    and succeeded: "\<And>now sha desired app a. st_attemptedRevision (app_status app) = sha \<Longrightarrow>
      P (CallStatusPatch app (app\<lparr>app_status := success_status (rc_api rc) now sha desired app\<rparr>) a)"
  shows "emits P (Reconcile rc ns name)"
proof (rule emits_Reconcile)
  have now: "P (CallNow t)" for t by (simp add: local)
  show "emits P (updateSuspended (rc_env rc) (rc_config rc) app)" for app by (intro wp now suspended)
  show "emits P (reconcile_active rc app)" for app
    by (rule emits_active_calls [OF wb local reads(2) dynamic failed succeeded])
qed (rule reads)

text \<open>Secrets are read in the namespace of the application only.\<close>

fun secret_of :: "string \<Rightarrow> 'o call \<Rightarrow> bool" where
  "secret_of ns (CallGetSecret n name r) \<longleftrightarrow> n = ns"
| "secret_of ns _ \<longleftrightarrow> True"

lemma active_secrets: "well_behaved rc \<Longrightarrow> emits (secret_of (om_namespace (app_meta app))) (reconcile_active rc app)"
proof (rule emits_active_calls)
  show "is_local c \<Longrightarrow> secret_of (om_namespace (app_meta app)) c" for c by (cases c) auto
qed simp_all


subsection \<open>The attempted revision\<close>

fun keeps_attempted :: "'o call \<Rightarrow> bool" where
  "keeps_attempted (CallStatusPatch base modified a) \<longleftrightarrow>
     st_attemptedRevision (app_status modified) = st_attemptedRevision (app_status base)"
| "keeps_attempted _ \<longleftrightarrow> True"

lemma Reconcile_keeps: "well_behaved rc \<Longrightarrow> emits keeps_attempted (Reconcile rc ns name)"
proof (rule emits_Reconcile_calls)
  show "is_local c \<Longrightarrow> keeps_attempted c" for c by (cases c) auto
qed (simp_all add: failure_frame suspended_frame success_fields)


subsection \<open>The type of a status\<close>

text \<open>
  What the API's conventions ask of the conditions of a status: one per type, each with a type and a reason.
\<close>

definition named_conditions :: "condition list \<Rightarrow> bool" where
  "named_conditions cs \<longleftrightarrow> (\<forall>c \<in> set cs. cond_type c \<noteq> [] \<and> cond_reason c \<noteq> [])"

definition typed_status :: "git_application_status \<Rightarrow> bool" where
  "typed_status st \<longleftrightarrow> distinct_types (st_conditions st) \<and> named_conditions (st_conditions st)"

fun keeps_typed :: "'o call \<Rightarrow> bool" where
  "keeps_typed (CallStatusPatch base modified a) \<longleftrightarrow> typed_status (app_status base) \<longrightarrow> typed_status (app_status modified)"
| "keeps_typed _ \<longleftrightarrow> True"

lemma stageReason_not_Nil [simp]: "stageReason stage \<noteq> []"
  by (simp add: stageReason_def ToUpper_def Let_def split: list.split)

lemma set_setCondition: "set (setCondition cs c) \<subseteq> insert c (set cs)"
  by (induction cs) auto

lemma named_setCondition:
  "named_conditions cs \<Longrightarrow> cond_type c \<noteq> [] \<Longrightarrow> cond_reason c \<noteq> [] \<Longrightarrow> named_conditions (setCondition cs c)"
  using set_setCondition [of cs c] unfolding named_conditions_def by blast

lemma writers_keep_typed:
  assumes "typed_status (app_status app)"
  shows "typed_status (success_status u now sha desired app)"
    and "typed_status (failure_status now stage err stalled app)"
    and "typed_status (suspended_status now app)"
  using assms by (simp_all add: typed_status_def status_defs Let_def conds.well_formed_set named_setCondition)

lemma Reconcile_keeps_typed: "well_behaved rc \<Longrightarrow> emits keeps_typed (Reconcile rc ns name)"
proof (rule emits_Reconcile_calls)
  show "is_local c \<Longrightarrow> keeps_typed c" for c by (cases c) auto
qed (simp_all add: writers_keep_typed)

end
