(* ===== verification/Reconcile_Props.thy ===== *)
theory Reconcile_Props
  imports Reconcile_Reports
begin

section \<open>The properties of Reconcile\<close>

text \<open>
  The theorems about whole runs of \<open>Reconcile\<close> and of its prune step, for every world, every
  checkouter and every renderer that only works locally. First a sample cluster for their witnesses:
  the application recorded an autoscaler at version \<open>v2beta2\<close>, the repository now renders it at \<open>v2\<close>,
  and the API server serves both versions of the one live object.
\<close>

subsection \<open>A sample run\<close>


definition s_hpa :: sobj where
  "s_hpa = \<lparr>so_apiVersion = ''autoscaling/v2'', so_kind = ''HorizontalPodAutoscaler'', so_name = ''web'',
     so_namespace = ''demo'', so_group = ''autoscaling'', so_version = ''v2'', so_labels = None,
     so_annotations = None, so_body = ''{}''\<rparr>"

definition s_live_hpa :: sobj where
  "s_live_hpa = s_hpa\<lparr>so_apiVersion := ''autoscaling/v2beta2'', so_version := ''v2beta2'',
     so_labels := Some [ManagedByLabel \<mapsto> ManagedByValue],
     so_annotations := Some [ApplicationUIDAnno \<mapsto> ''uid-1'']\<rparr>"

definition s_hpa_mapper :: "gvk \<Rightarrow> rest_mapping result" where
  "s_hpa_mapper g = Inr \<lparr>rm_resource = \<lparr>gvr_group = gvk_group g, gvr_version = gvk_version g,
     gvr_resource = ''horizontalpodautoscalers''\<rparr>, rm_scope = RESTScopeNameNamespace\<rparr>"

definition s_upgraded_app :: git_application where
  "s_upgraded_app = s_app\<lparr>app_status := (app_status s_app)\<lparr>st_inventory :=
     [\<lparr>rr_group = ''autoscaling'', rr_version = ''v2beta2'', rr_kind = ''HorizontalPodAutoscaler'',
       rr_namespace = ''demo'', rr_name = ''web''\<rparr>]\<rparr>\<rparr>"

definition s_cluster :: "sobj env" where
  "s_cluster = s_env\<lparr>env_getApp := (\<lambda>h ns n. Inr s_upgraded_app), env_mapper := (\<lambda>h. s_hpa_mapper),
     env_dynGet := (\<lambda>h r ns n. Inr s_live_hpa)\<rparr>"

definition s_rc :: "sobj reconciler" where
  "s_rc = \<lparr>rc_env = s_cluster, rc_api = s_api, rc_kube = True, rc_config = s_config,
     rc_checkout = (\<lambda>repo revision creds. State_Monad.return (Inr (''/cache/w'', ''abc''))),
     rc_renderYAML = (\<lambda>dir spec sha. State_Monad.return (Inr [Some s_hpa])),
     rc_renderHelm = (\<lambda>dir spec sha. State_Monad.return (Inr [])),
     rc_mapOrder = (\<lambda>es. es)\<rparr>"

lemma s_rc_simps [simp]:
  "rc_env s_rc = s_cluster" "rc_api s_rc = s_api" "rc_kube s_rc = True" "rc_config s_rc = s_config"
  "rc_checkout s_rc repo revision creds = State_Monad.return (Inr (''/cache/w'', ''abc''))"
  "rc_renderYAML s_rc dir spec sha = State_Monad.return (Inr [Some s_hpa])"
  "rc_renderHelm s_rc dir spec sha = State_Monad.return (Inr [])"
  "rc_mapOrder s_rc = (\<lambda>es. es)"
  by (simp_all add: s_rc_def)

lemma s_cluster_simps [simp]:
  "env_getApp s_cluster h ns n = Inr s_upgraded_app" "env_mapper s_cluster h = s_hpa_mapper"
  "env_dynGet s_cluster h r ns' n = Inr s_live_hpa" "env_dynPatch s_cluster h r ns' n b opts = None"
  "env_dynDelete s_cluster h r ns' n = None" "env_now s_cluster h = 7"
  "env_statusPatch s_cluster h base app = Inr app"
  by (simp_all add: s_cluster_def s_env_def)

lemma s_rc_well_behaved [simp]: "well_behaved s_rc"
  by (simp add: well_behaved_def wp)

lemma s_upgraded_active: "active s_cluster h ''app-ns'' ''demo'' s_upgraded_app"
  by (simp add: active_def is_deleted_def s_upgraded_app_def s_app_def)

lemma s_upgraded_valid: "validateSpec s_api s_upgraded_app s_config = None"
  by (simp add: validateSpec_None s_upgraded_app_def s_app_valid)

definition s_hpa' :: sobj where "s_hpa' = ensureMetadata s_api (reconcile_policy s_config s_upgraded_app ''abc'') s_hpa"

definition s_hpa_ref :: resource_reference where
  "s_hpa_ref = \<lparr>rr_group = ''autoscaling'', rr_version = ''v2'', rr_kind = ''HorizontalPodAutoscaler'',
       rr_namespace = ''demo'', rr_name = ''web''\<rparr>"

lemma s_hpa_normalized: "NormalizeAndValidate s_api s_hpa_mapper [Some s_hpa]
    (reconcile_policy s_config s_upgraded_app ''abc'') = Inr ([s_hpa'], [s_hpa_ref])"
  by (simp add: NormalizeAndValidate_loop normalize_object_def basicValidate_def s_hpa_mapper_def
      scope_check_def place_object_def sizeCheck_def MaxObjectSizeBytes_def Let_def s_hpa'_def s_hpa_ref_def
      resourceReferenceFor_def ensureMetadata_def s_hpa_def reconcile_policy_def s_upgraded_app_def s_app_def)


lemma s_stale: "stale_refs s_rc (attempted s_upgraded_app ''abc'') [s_hpa_ref] = st_inventory (app_status s_upgraded_app)"
  by (simp add: stale_refs_def Diff_def index_refs_def drop_refs_def Normalize_def s_upgraded_app_def Key_def s_hpa_ref_def)

lemma s_upgraded_fields [simp]:
  "om_uid (app_meta s_upgraded_app) = ''uid-1''" "om_generation (app_meta s_upgraded_app) = 3"
  "src_secretRef (spec_source (app_spec s_upgraded_app)) = None"
  "rd_type (spec_render (app_spec s_upgraded_app)) = ''yaml''"
  "spec_prune (app_spec s_upgraded_app)" "\<not> spec_takeoverExistingResources (app_spec s_upgraded_app)"
  "spec_interval (app_spec s_upgraded_app) = 60 * Second"
  "cfg_fieldManager s_config = []" "cfg_minimumRequeueInterval s_config = 0"
  by (simp_all add: s_upgraded_app_def s_app_def s_config_def)

lemma s_hpa'_fields [simp]:
  "so_name s_hpa' = ''web''" "so_namespace s_hpa' = ''demo''" "so_group s_hpa' = ''autoscaling''"
  "so_version s_hpa' = ''v2''" "so_kind s_hpa' = ''HorizontalPodAutoscaler''" "so_body s_hpa' = ''{}''"
  by (simp_all add: s_hpa'_def ensureMetadata_def Let_def s_hpa_def)

definition s_patch_call :: "sobj call" where
  "s_patch_call = CallDynPatch \<lparr>gvr_group = ''autoscaling'', gvr_version = ''v2'',
      gvr_resource = ''horizontalpodautoscalers''\<rparr> (Some ''demo'') ''web'' ''{}''
      \<lparr>po_fieldManager = DefaultFieldManager, po_force = False\<rparr> None"
definition s_get_call :: "sobj call" where
  "s_get_call = CallDynGet \<lparr>gvr_group = ''autoscaling'', gvr_version = ''v2beta2'',
      gvr_resource = ''horizontalpodautoscalers''\<rparr> (Some ''demo'') ''web'' (Inr s_live_hpa)"
definition s_delete_call :: "sobj call" where
  "s_delete_call = CallDynDelete \<lparr>gvr_group = ''autoscaling'', gvr_version = ''v2beta2'',
      gvr_resource = ''horizontalpodautoscalers''\<rparr> (Some ''demo'') ''web'' None"

lemma s_apply_run: "run_state (Apply s_cluster s_api [s_hpa'] DefaultFieldManager False) h
   = (None, h @ [s_patch_call])"
  by (simp add: Apply_def s_hpa_mapper_def dynPatch_def s_patch_call_def DefaultFieldManager_def)

lemma s_prune_run: "run_state (prune s_rc (attempted s_upgraded_app ''abc'') [s_hpa_ref]) h
   = (None, h @ [s_get_call, s_delete_call])"
  unfolding prune_def 
  using s_stale
  by (simp add: stale_refs_def fetchLiveObject_def deleteObject_def s_hpa_mapper_def dynGet_def dynDelete_def s_get_call_def s_delete_call_def
    s_live_hpa_def s_hpa_def map_index_def  s_upgraded_app_def s_app_def rr_gvk_def)

definition s_before :: "git_application" where
  "s_before = attempted s_upgraded_app ''abc''"
definition s_after :: "git_application" where
  "s_after = s_before\<lparr>app_status := success_status s_api 7 ''abc'' [s_hpa_ref] s_before\<rparr>"

lemma s_reconcile_run:
  "run_state (Reconcile s_rc ''app-ns'' ''demo'') [] =
    ((no_result\<lparr>res_requeueAfter := 60 * Second\<rparr>, None),
     [CallGetApp ''app-ns'' ''demo'' (Inr s_upgraded_app), s_patch_call, s_get_call, s_delete_call,
      CallNow 7, CallStatusPatch s_before s_after (Inr s_after)])"
proof -
  have fm: "fieldManagerOrDefault [] = DefaultFieldManager" by (simp add: fieldManagerOrDefault_def)
  have "run_state (Reconcile s_rc ''app-ns'' ''demo'') [] =
     run_state (reconcile_active s_rc s_upgraded_app) [CallGetApp ''app-ns'' ''demo'' (Inr s_upgraded_app)]"
    using run_Reconcile_active [of s_rc "[]" "''app-ns''" "''demo''"] s_upgraded_active by simp
  also have "\<dots> = run_state (reconcile_checkout s_rc s_before ''/cache/w'' ''abc'') [CallGetApp ''app-ns'' ''demo'' (Inr s_upgraded_app)]"
    by (simp add: reconcile_active_def s_upgraded_valid loadCredentials_def s_before_def)
  also have "\<dots> = run_state (reconcile_apply s_rc s_before ''abc'' [s_hpa'] [s_hpa_ref]) [CallGetApp ''app-ns'' ''demo'' (Inr s_upgraded_app)]"
    by (simp add: reconcile_checkout_def s_before_def render_def [of _ s_upgraded_app] s_hpa_normalized)
  also have "\<dots> = run_state (reconcile_finish s_rc s_before ''abc'' [s_hpa_ref]) [CallGetApp ''app-ns'' ''demo'' (Inr s_upgraded_app), s_patch_call, s_get_call, s_delete_call]"
    by (simp add: reconcile_apply_def s_before_def fm s_apply_run s_prune_run)
  also have "\<dots> = ((no_result\<lparr>res_requeueAfter := 60 * Second\<rparr>, None),
     [CallGetApp ''app-ns'' ''demo'' (Inr s_upgraded_app), s_patch_call, s_get_call, s_delete_call,
      CallNow 7, CallStatusPatch s_before s_after (Inr s_after)])"
    by (simp add: reconcile_finish_def run_updateSuccess Let_def s_after_def s_before_def Second_def)
  finally show ?thesis .
qed

definition s_trace :: "sobj call list" where
  "s_trace = [CallGetApp ''app-ns'' ''demo'' (Inr s_upgraded_app), s_patch_call, s_get_call, s_delete_call,
      CallNow 7, CallStatusPatch s_before s_after (Inr s_after)]"

lemma s_run:
  "run_state (Reconcile s_rc ''app-ns'' ''demo'') []
     = ((no_result\<lparr>res_requeueAfter := 60 * Second\<rparr>, None), [] @ s_trace)"
  by (simp only: s_reconcile_run s_trace_def append_Nil)

subsection \<open>From the stages\<close>

lemma applied_patch:
  assumes "applied rc app normalized patches ra" and "c \<in> set patches"
  obtains obj where "obj \<in> set normalized" "is_patch c"
    "patch_of (rc_env rc) (rc_api rc) (fieldManagerOrDefault (cfg_fieldManager (rc_config rc)))
       (spec_takeoverExistingResources (app_spec app)) obj c"
proof -
  from assms obtain obj where obj: "obj \<in> set (take (length patches) normalized)"
    "patch_of (rc_env rc) (rc_api rc) (fieldManagerOrDefault (cfg_fieldManager (rc_config rc)))
       (spec_takeoverExistingResources (app_spec app)) obj c"
    unfolding applied_def apply_run_def by (blast dest: list_all2_mem2)
  moreover from obj(2) have "is_patch c" by (auto simp: patch_of_def split: call.splits)
  ultimately show ?thesis using that by (blast dest: in_set_takeD)
qed

lemma patch_not_delete: "is_patch c \<Longrightarrow> \<not> is_delete c"
  by (cases c) auto

lemma applied_only_patches:
  "applied rc app normalized patches ra \<Longrightarrow> c \<in> set patches \<Longrightarrow> is_patch c \<and> \<not> is_delete c"
  by (auto elim: applied_patch dest: patch_not_delete)

lemma batch_applicable:
  assumes "well_behaved rc" and "batch rc app h sha normalized desired" and "obj \<in> set normalized"
  shows "applicable (rc_api rc) (env_mapper (rc_env rc) h) (reconcile_policy (rc_config rc) app sha) obj"
proof -
  from assms(2) obtain rendered where
    "NormalizeAndValidate (rc_api rc) (env_mapper (rc_env rc) h) rendered
       (reconcile_policy (rc_config rc) app sha) = Inr (normalized, desired)"
    unfolding batch_def by blast
  from normalized_applicable [OF this well_behavedD(1) [OF assms(1)] assms(3)] show ?thesis .
qed

lemma stale_refs_set:
  assumes "well_behaved rc"
  shows "set (stale_refs rc app desired) \<subseteq> {ref \<in> set (st_inventory (app_status app)).
    Key (gvkString (rc_api rc)) ref \<notin> Key (gvkString (rc_api rc)) ` set desired}"
  using well_behavedD(2) [OF assms] by (auto simp: stale_refs_def Diff_mem dest: index_refs_mem)


text \<open>A reconcile that ends without an error ends with the success patch, which the server accepted.\<close>

lemma reconcile_finish_success:
  assumes "run_state (reconcile_finish rc app sha desired) h = (r, h')" and "snd r = None"
  obtains now updated where
    "h' = h @ [CallNow now, CallStatusPatch app
       (app\<lparr>app_status := success_status (rc_api rc) now sha desired app\<rparr>) (Inr updated)]"
    "fst r = no_result\<lparr>res_requeueAfter :=
       max (spec_interval (app_spec updated)) (cfg_minimumRequeueInterval (rc_config rc))\<rparr>"
proof -
  let ?now = "env_now (rc_env rc) h"
  let ?app' = "app\<lparr>app_status := success_status (rc_api rc) ?now sha desired app\<rparr>"
  let ?a = "env_statusPatch (rc_env rc) (h @ [CallNow ?now]) app ?app'"
  show ?thesis
  proof (cases ?a)
    case (Inl err)
    with assms(1) have "run_state (fail_result rc ?app' ''status update'' err False)
        (h @ [CallNow ?now, CallStatusPatch app ?app' ?a]) = (r, h')"
      by (simp add: reconcile_finish_def run_updateSuccess Let_def)
    then show ?thesis by (rule fail_result_harmless) (use assms(2) in simp)
  next
    case (Inr updated)
    with assms(1) show ?thesis
      by (intro that [of ?now updated])
        (auto simp: reconcile_finish_def run_updateSuccess Let_def max_def)
  qed
qed

text \<open>The stages of an active reconcile that returns no error, and its patches.\<close>

lemma successful_stages:
  assumes "well_behaved rc" and "active (rc_env rc) h ns name app"
    and "run_state (Reconcile rc ns name) h = ((res, None), h @ new)"
  obtains creds dir sha l k b rendered normalized desired patches prunes now updated where
    "staged rc app (h @ [CallGetApp ns name (Inr app)]) creds dir sha l k b rendered normalized desired"
    "harmless (l @ k @ b)" "applied rc app normalized patches None" "pruned rc app desired prunes None"
    "new = (CallGetApp ns name (Inr app) # l @ k @ b) @ patches @ prunes @ [CallNow now, CallStatusPatch (attempted app sha)
         (app\<lparr>app_status := success_status (rc_api rc) now sha desired (attempted app sha)\<rparr>) (Inr updated)]"
    "res = no_result\<lparr>res_requeueAfter :=
         max (spec_interval (app_spec updated)) (cfg_minimumRequeueInterval (rc_config rc))\<rparr>"
proof -
  let ?g = "CallGetApp ns name (Inr app)"
  from assms(3) have "run_state (reconcile_active rc app) (h @ [?g]) = ((res, None), h @ new)"
    by (simp only: run_Reconcile_active [OF assms(2)])
  with assms(1) obtain creds dir sha l k b rendered normalized desired where 1: "harmless (l @ k @ b)"
      "staged rc app (h @ [?g]) creds dir sha l k b rendered normalized desired"
      "run_state (reconcile_apply rc (attempted app sha) sha normalized desired) ((h @ [?g]) @ l @ k @ b)
         = ((res, None), h @ new)"
    by (rule run_reconcile_staged) auto
  from 1(3) obtain patches prunes where 2: "applied rc app normalized patches None"
      "pruned rc app desired prunes None"
      "run_state (reconcile_finish rc (attempted app sha) sha desired)
         (((h @ [?g]) @ l @ k @ b) @ patches @ prunes) = ((res, None), h @ new)"
    by (rule run_reconcile_apply) (auto split: if_splits)
  from 2(3) obtain now updated where fin:
      "h @ new = (((h @ [?g]) @ l @ k @ b) @ patches @ prunes) @ [CallNow now, CallStatusPatch (attempted app sha)
         (app\<lparr>app_status := success_status (rc_api rc) now sha desired (attempted app sha)\<rparr>) (Inr updated)]"
      "res = no_result\<lparr>res_requeueAfter :=
         max (spec_interval (app_spec updated)) (cfg_minimumRequeueInterval (rc_config rc))\<rparr>"
    by (rule reconcile_finish_success) auto
  show thesis by (rule that [OF 1(2,1) 2(1,2) _ fin(2)]) (use fin(1) in simp)
qed

lemma successful_reconcile:
  assumes "well_behaved rc" and "active (rc_env rc) h ns name app"
    and "run_state (Reconcile rc ns name) h = ((res, None), h @ new)"
  obtains pre sha normalized desired patches prunes now updated where
    "batch rc app (h @ pre) sha normalized desired" "harmless pre"
    "applied rc app normalized patches None" "pruned rc app desired prunes None"
    "new = pre @ patches @ prunes @ [CallNow now, CallStatusPatch (attempted app sha)
         (app\<lparr>app_status := success_status (rc_api rc) now sha desired (attempted app sha)\<rparr>) (Inr updated)]"
    "res = no_result\<lparr>res_requeueAfter :=
         max (spec_interval (app_spec updated)) (cfg_minimumRequeueInterval (rc_config rc))\<rparr>"
proof -
  let ?g = "CallGetApp ns name (Inr app)"
  from assms obtain creds dir sha l k b rendered normalized desired patches prunes now updated where *:
    "staged rc app (h @ [?g]) creds dir sha l k b rendered normalized desired"
    "harmless (l @ k @ b)" "applied rc app normalized patches None" "pruned rc app desired prunes None"
    "new = (?g # l @ k @ b) @ patches @ prunes @ [CallNow now, CallStatusPatch (attempted app sha)
         (app\<lparr>app_status := success_status (rc_api rc) now sha desired (attempted app sha)\<rparr>) (Inr updated)]"
    "res = no_result\<lparr>res_requeueAfter :=
         max (spec_interval (app_spec updated)) (cfg_minimumRequeueInterval (rc_config rc))\<rparr>"
    by (rule successful_stages)
  show thesis by (rule that [OF _ _ *(3,4,5,6)]) (use staged_batch [OF *(1)] *(2) in simp_all)
qed

lemma successful_patches:
  assumes "harmless pre" and "applied rc app normalized patches None" and "pruned rc app desired prunes None"
  shows "filter is_patch (pre @ patches @ prunes @ [CallNow now, CallStatusPatch base modified a]) = patches"
proof -
  have "list_all (\<lambda>c. \<not> is_patch c) prunes"
    using assms(3) by (auto simp: pruned_def split: if_splits dest: prune_trace_no_patch)
  with assms(1) applied_only_patches [OF assms(2)] show ?thesis
    by (auto simp: list_all_iff is_mutation_iff filter_empty_conv filter_id_conv)
qed

lemma pruned_settled:
  assumes "pruned rc app desired prunes None" and "spec_prune (app_spec app)"
    and "ref \<in> set (stale_refs rc app desired)" and "set prunes \<subseteq> set new"
  shows "settled (rc_env rc) (rc_api rc) (om_uid (app_meta app)) new ref"
proof -
  from assms(1,2) have "prune_trace (rc_env rc) (rc_api rc) (om_uid (app_meta app))
    (stale_refs rc app desired) prunes None" by (simp add: pruned_def)
  from prune_trace_settled [OF this refl] assms(3)
  have "settled (rc_env rc) (rc_api rc) (om_uid (app_meta app)) prunes ref" by blast
  then show ?thesis using assms(4) by (rule settled_mono)
qed


text \<open>Every delete comes right after the read that justifies it.\<close>

lemma deletes_owned:
  assumes "well_behaved rc" and "run_state (Reconcile rc ns name) h = (r, h @ before @ c # after)"
    and "is_delete c"
  shows "\<exists>app h1 sha normalized desired ref obj a. active (rc_env rc) h ns name app
    \<and> batch rc app h1 sha normalized desired
    \<and> ref \<in> set (st_inventory (app_status app))
    \<and> Key (gvkString (rc_api rc)) ref \<notin> Key (gvkString (rc_api rc)) ` set desired
    \<and> before \<noteq> [] \<and> get_of (rc_env rc) ref (Inr obj) (last before)
    \<and> owned_by (rc_api rc) (om_uid (app_meta app)) obj
    \<and> delete_of (rc_env rc) (rc_api rc) obj a c
    \<and> batch_from rc app (h @ [CallGetApp ns name (Inr app)]) sha normalized desired"
  using assms(1,2)
proof (cases rule: Reconcile_work)
  case idle
  with assms(3) show ?thesis by (auto simp: is_mutation_iff)
next
  case (work app pre sha normalized desired patches prunes ra rp tail)
  let ?R = "{ref \<in> set (st_inventory (app_status app)).
    Key (gvkString (rc_api rc)) ref \<notin> Key (gvkString (rc_api rc)) ` set desired}"
  let ?G = "owned_delete (rc_env rc) (rc_api rc) (om_uid (app_meta app)) ?R"
  have "\<not> is_delete c" if "c \<in> set patches" for c
    using applied_only_patches [OF work(6) that] by simp
  then have "guarded is_delete ?G patches" by (auto simp: list_all_iff intro: guarded_none)
  moreover have "guarded is_delete ?G pre" "guarded is_delete ?G tail"
    using work(3,4) by (auto simp: list_all_iff is_mutation_iff intro: guarded_none)
  moreover have "guarded is_delete ?G prunes"
    using work(7) stale_refs_set [OF assms(1), of app desired]
    by (auto simp: pruned_def guards.T_Nil split: if_splits intro: prune_trace_guarded)
  ultimately have "guarded is_delete ?G (before @ c # after)"
    unfolding work(2) by (intro guarded_append)
  with assms(3) have "before \<noteq> [] \<and> ?G (last before) c" unfolding guarded_def by blast
  with work(1,5,9) show ?thesis unfolding owned_delete_def by blast
qed


subsection \<open>Properties\<close>

text \<open>
  C1: nothing in the cluster is changed unless the whole batch is in order. If a reconcile sends any
  patch or delete, the application exists, is not being deleted and not suspended, its specification is
  valid, and everything rendered from the resolved revision normalised without error; a patch is the
  patch of one of the objects of that batch, which is owned, correctly placed and within the limits; and
  deletes are sent only if the application asks for pruning.
\<close>

theorem reconcile_writes_justified:
  assumes "well_behaved rc" and "run_state (Reconcile rc ns name) h = (r, h @ new)"
    and "c \<in> set new" and "is_mutation c"
  shows "\<exists>app h1 sha normalized desired. active (rc_env rc) h ns name app
    \<and> batch rc app h1 sha normalized desired
    \<and> (is_patch c \<longrightarrow> (\<exists>obj \<in> set normalized.
          applicable (rc_api rc) (env_mapper (rc_env rc) h1) (reconcile_policy (rc_config rc) app sha) obj
          \<and> patch_of (rc_env rc) (rc_api rc) (fieldManagerOrDefault (cfg_fieldManager (rc_config rc)))
              (spec_takeoverExistingResources (app_spec app)) obj c))
    \<and> (is_delete c \<longrightarrow> spec_prune (app_spec app))"
  using assms(1,2)
proof (cases rule: Reconcile_work)
  case idle
  with assms(3,4) show ?thesis by (auto simp: list_all_iff)
next
  case (work app pre sha normalized desired patches prunes ra rp tail)
  from assms(3,4) work(2-4) consider "c \<in> set patches" | "c \<in> set prunes" by (auto simp: list_all_iff)
  then show ?thesis
  proof cases
    case 1
    from applied_patch [OF work(6) 1] obtain obj where "obj \<in> set normalized" "is_patch c"
      "patch_of (rc_env rc) (rc_api rc) (fieldManagerOrDefault (cfg_fieldManager (rc_config rc)))
         (spec_takeoverExistingResources (app_spec app)) obj c" .
    moreover from this(2) have "\<not> is_delete c" by (rule patch_not_delete)
    ultimately show ?thesis
      using batch_applicable [OF assms(1) work(5)] work(1,5) by blast
  next
    case 2
    with work(7) have "spec_prune (app_spec app)" and "\<not> is_patch c"
      by (auto simp: pruned_def list_all_iff split: if_splits dest: prune_trace_no_patch)
    with work(1,5) show ?thesis by blast
  qed
qed

theorem reconcile_writes_justified_witness:
  "spec_prune (app_spec s_upgraded_app) \<and> is_mutation s_delete_call"
proof -
  have m: "is_mutation s_delete_call" "is_delete s_delete_call" by (simp_all add: s_delete_call_def)
  have "s_delete_call \<in> set s_trace" by (simp add: s_trace_def)
  from reconcile_writes_justified [OF s_rc_well_behaved s_run this m(1)] m show ?thesis
    by (auto simp: active_def)
qed

text \<open>
  C2: deletion is safe. Right before every delete a reconcile reads the live object of a reference that
  is in the recorded inventory and whose key is not among the keys of the batch just normalised; the
  object that was read carries this application's UID and Cabure's managed-by label; and the delete is of
  that object's own name and namespace.
\<close>

theorem reconcile_deletes_owned:
  assumes "well_behaved rc" and "run_state (Reconcile rc ns name) h = (r, h @ before @ c # after)"
    and "is_delete c"
  shows "\<exists>app h1 sha normalized desired ref obj a. active (rc_env rc) h ns name app
    \<and> batch rc app h1 sha normalized desired
    \<and> ref \<in> set (st_inventory (app_status app))
    \<and> Key (gvkString (rc_api rc)) ref \<notin> Key (gvkString (rc_api rc)) ` set desired
    \<and> before \<noteq> [] \<and> get_of (rc_env rc) ref (Inr obj) (last before)
    \<and> owned_by (rc_api rc) (om_uid (app_meta app)) obj
    \<and> delete_of (rc_env rc) (rc_api rc) obj a c"
  using deletes_owned [OF assms] by blast

theorem reconcile_deletes_owned_witness:
  "\<exists>ref obj. ref \<in> set (st_inventory (app_status s_upgraded_app)) \<and> owned_by s_api ''uid-1'' obj
     \<and> get_of s_cluster ref (Inr obj) s_get_call"
proof -
  have run: "run_state (Reconcile s_rc ''app-ns'' ''demo'') []
      = ((no_result\<lparr>res_requeueAfter := 60 * Second\<rparr>, None),
         [] @ [CallGetApp ''app-ns'' ''demo'' (Inr s_upgraded_app), s_patch_call, s_get_call]
           @ s_delete_call # [CallNow 7, CallStatusPatch s_before s_after (Inr s_after)])"
    by (simp only: s_reconcile_run append.simps)
  have "is_delete s_delete_call" by (simp add: s_delete_call_def)
  from reconcile_deletes_owned [OF s_rc_well_behaved run this] show ?thesis
    by (auto simp: active_def)
qed

text \<open>
  C8: apply comes before prune, and a failed apply prunes nothing. The trace of a reconcile splits into a
  part without deletes and a part without patches, and if it contains a delete at all, every object of the
  batch was patched, in order, and every patch was accepted.
\<close>

theorem reconcile_applies_before_pruning:
  assumes "well_behaved rc" and "run_state (Reconcile rc ns name) h = (r, h @ new)"
  shows "\<exists>xs ys. new = xs @ ys \<and> list_all (\<lambda>c. \<not> is_delete c) xs \<and> list_all (\<lambda>c. \<not> is_patch c) ys
    \<and> (list_ex is_delete ys \<longrightarrow> (\<exists>app h1 sha normalized desired. batch rc app h1 sha normalized desired
          \<and> list_all2 (patch_of (rc_env rc) (rc_api rc)
                (fieldManagerOrDefault (cfg_fieldManager (rc_config rc)))
                (spec_takeoverExistingResources (app_spec app)))
              normalized (filter is_patch xs)
          \<and> list_all patch_ok (filter is_patch xs)))"
  using assms
proof (cases rule: Reconcile_work)
  case idle
  then show ?thesis
    by (intro exI [of _ new] exI [of _ "[]"]) (auto simp: list_all_iff is_mutation_iff)
next
  case (work app pre sha normalized desired patches prunes ra rp tail)
  let ?xs = "pre @ patches" and ?ys = "prunes @ tail"
  have pa: "is_patch c \<and> \<not> is_delete c" if "c \<in> set patches" for c
    using applied_only_patches [OF work(6) that] by simp
  have "list_all (\<lambda>c. \<not> is_patch c) prunes"
    using work(7) by (auto simp: pruned_def split: if_splits dest: prune_trace_no_patch)
  with work(3,4) pa have "list_all (\<lambda>c. \<not> is_delete c) ?xs" "list_all (\<lambda>c. \<not> is_patch c) ?ys"
    by (auto simp: list_all_iff is_mutation_iff)
  moreover have "filter is_patch ?xs = patches"
    using work(3) pa by (auto simp: list_all_iff is_mutation_iff filter_empty_conv filter_id_conv)
  moreover have "ra = None" if "list_ex is_delete ?ys"
    using that work(4,7) by (auto simp: list_ex_iff list_all_iff is_mutation_iff split: if_splits)
  moreover have "list_all2 (patch_of (rc_env rc) (rc_api rc)
      (fieldManagerOrDefault (cfg_fieldManager (rc_config rc)))
      (spec_takeoverExistingResources (app_spec app))) normalized patches \<and> list_all patch_ok patches"
    if "ra = None" using work(6) that by (auto simp: applied_def apply_run_def)
  ultimately show ?thesis using work(2,5)
    by (intro exI [of _ ?xs] exI [of _ ?ys]) (simp only: append.assoc, blast)
qed

theorem reconcile_applies_before_pruning_witness:
  "\<exists>xs ys. s_trace = xs @ ys \<and> list_all (\<lambda>c. \<not> is_delete c) xs \<and> list_all (\<lambda>c. \<not> is_patch c) ys"
  using reconcile_applies_before_pruning [OF s_rc_well_behaved s_run] by blast

text \<open>
  C3: success means the cluster matches the revision. When an active reconcile returns no error, the
  batch rendered from the resolved revision was normalised, every object of it was patched in order and
  accepted, with pruning on every stale reference is settled (gone, not ours, or its delete accepted), and
  the last call is an accepted status patch that records the revision, the inventory of exactly this
  batch and Ready; the next reconcile comes after the interval, never before the operator's minimum.
\<close>

theorem reconcile_success:
  assumes "well_behaved rc" and "active (rc_env rc) h ns name app"
    and "run_state (Reconcile rc ns name) h = ((res, None), h @ new)"
  shows "\<exists>h1 sha normalized desired base modified updated.
    batch rc app h1 sha normalized desired
    \<and> list_all2 (patch_of (rc_env rc) (rc_api rc) (fieldManagerOrDefault (cfg_fieldManager (rc_config rc)))
          (spec_takeoverExistingResources (app_spec app))) normalized (filter is_patch new)
    \<and> list_all patch_ok (filter is_patch new)
    \<and> (spec_prune (app_spec app) \<longrightarrow> (\<forall>ref \<in> set (stale_refs rc app desired).
          settled (rc_env rc) (rc_api rc) (om_uid (app_meta app)) new ref))
    \<and> new \<noteq> [] \<and> last new = CallStatusPatch base modified (Inr updated)
    \<and> app_spec modified = app_spec app
    \<and> st_appliedRevision (app_status modified) = sha
    \<and> st_inventory (app_status modified) = Normalize (gvkString (rc_api rc)) desired
    \<and> cond_is (app_status modified) ''Ready'' ConditionTrue
    \<and> res_requeueAfter res = max (spec_interval (app_spec updated)) (cfg_minimumRequeueInterval (rc_config rc))"
proof -
  let ?P = "patch_of (rc_env rc) (rc_api rc)
    (fieldManagerOrDefault (cfg_fieldManager (rc_config rc))) (spec_takeoverExistingResources (app_spec app))"
  from assms obtain pre sha normalized desired patches prunes now updated
    where b: "batch rc app (h @ pre) sha normalized desired" and pre: "harmless pre"
      and ap: "applied rc app normalized patches None" and pr: "pruned rc app desired prunes None"
      and new: "new = pre @ patches @ prunes @ [CallNow now, CallStatusPatch (attempted app sha)
         (app\<lparr>app_status := success_status (rc_api rc) now sha desired (attempted app sha)\<rparr>) (Inr updated)]"
      and res: "res = no_result\<lparr>res_requeueAfter :=
         max (spec_interval (app_spec updated)) (cfg_minimumRequeueInterval (rc_config rc))\<rparr>"
    by (rule successful_reconcile)
  define modified where
    "modified = app\<lparr>app_status := success_status (rc_api rc) now sha desired (attempted app sha)\<rparr>"
  have f: "filter is_patch new = patches"
    unfolding new by (rule successful_patches [OF pre ap pr])
  have "list_all2 ?P normalized patches" "list_all patch_ok patches"
    using ap by (auto simp: applied_def apply_run_def)
  moreover have "spec_prune (app_spec app) \<Longrightarrow> ref \<in> set (stale_refs rc app desired) \<Longrightarrow>
      settled (rc_env rc) (rc_api rc) (om_uid (app_meta app)) new ref" for ref
    by (rule pruned_settled [OF pr]) (auto simp: new)
  ultimately show ?thesis using b res unfolding f
    by (intro exI [of _ "h @ pre"] exI [of _ sha] exI [of _ normalized] exI [of _ desired]
        exI [of _ "attempted app sha"] exI [of _ modified] exI [of _ updated])
      (simp add: new modified_def success_fields success_conditions no_result_def)
qed

theorem reconcile_success_witness:
  "\<exists>modified base. last s_trace = CallStatusPatch base modified (Inr s_after)
     \<and> cond_is (app_status modified) ''Ready'' ConditionTrue"
proof -
  have "last s_trace = CallStatusPatch s_before s_after (Inr s_after)" by (simp add: s_trace_def)
  with reconcile_success [of s_rc "[]" "''app-ns''" "''demo''" s_upgraded_app, OF s_rc_well_behaved _ s_run]
    s_upgraded_active show ?thesis by auto
qed

text \<open>
  C11: every active reconcile, whatever happens in it, ends with one status patch that tells the outcome
  it returns: after a success Ready is true, Stalled false and the patch was accepted; after an error Ready
  is false, and if the patch itself failed, the returned error is that failure. In both cases the observed
  generation and the attempt time are recorded and Reconciling is false.
\<close>

theorem reconcile_reports_outcome:
  assumes "well_behaved rc" and "active (rc_env rc) h ns name app"
    and "run_state (Reconcile rc ns name) h = (r, h')"
  shows "\<exists>new c. h' = h @ new @ [c] \<and> reports (snd r) c"
proof -
  let ?g = "CallGetApp ns name (Inr app)"
  from assms(3) have "run_state (reconcile_active rc app) (h @ [?g]) = (r, h')"
    by (simp only: run_Reconcile_active [OF assms(2)])
  with reconcile_active_reports [OF assms(1), of app] obtain new c
    where "h' = (h @ [?g]) @ new @ [c]" "reports (snd r) c" unfolding ends_with_def by blast
  then show ?thesis by (intro exI [of _ "?g # new"] exI [of _ c]) simp
qed

theorem reconcile_reports_outcome_witness: "reports None (last s_trace)"
proof -
  from s_upgraded_active have "active (rc_env s_rc) [] ''app-ns'' ''demo'' s_upgraded_app" by simp
  from reconcile_reports_outcome [OF s_rc_well_behaved this s_run] show ?thesis
    by (metis append_Nil append_assoc last_snoc snd_conv)
qed

text \<open>
  the attempted revision of a failed reconcile is never recorded. No status patch of any reconcile
  changes \<open>attemptedRevision\<close>: the field is assigned before the base of the merge patch is copied, so base
  and modified object agree on it and the patch that is sent leaves it out.
\<close>

lemma attempted_revision_never_patched:
  assumes "well_behaved rc" and "run_state (Reconcile rc ns name) h = (r, h @ new)"
    and "CallStatusPatch base modified a \<in> set new"
  shows "st_attemptedRevision (app_status modified) = st_attemptedRevision (app_status base)"
proof -
  from emitsE [OF Reconcile_keeps [OF assms(1)] assms(2)] have "list_all keeps_attempted new" by auto
  with assms(3) show ?thesis by (auto simp: list_all_iff)
qed

theorem attempted_revision_never_patched_witness:
  "st_attemptedRevision (app_status s_after) = st_attemptedRevision (app_status s_before)"
proof -
  have "CallStatusPatch s_before s_after (Inr s_after) \<in> set s_trace" by (simp add: s_trace_def)
  from attempted_revision_never_patched [OF s_rc_well_behaved s_run this] show ?thesis .
qed

text \<open>
  C32: Every status that a reconcile writes is of the type that the API's conventions ask for, if the status it
  found was: at most one condition per type, each with a type and a reason (every stage name gives a reason).
\<close>

theorem written_status_typed:
  assumes "well_behaved rc" and "run_state (Reconcile rc ns name) h = (r, h @ new)"
    and "CallStatusPatch base modified a \<in> set new" and "typed_status (app_status base)"
  shows "typed_status (app_status modified)"
proof -
  from emitsE [OF Reconcile_keeps_typed [OF assms(1)] assms(2)] have "list_all keeps_typed new" by auto
  with assms(3,4) show ?thesis by (auto simp: list_all_iff)
qed

theorem written_status_typed_witness: "typed_status (app_status s_after)"
proof -
  have "CallStatusPatch s_before s_after (Inr s_after) \<in> set s_trace" by (simp add: s_trace_def)
  moreover have "typed_status (app_status s_before)"
    by (simp add: s_before_def typed_status_def named_conditions_def distinct_types_def s_upgraded_app_def s_app_def)
  ultimately show ?thesis by (rule written_status_typed [OF s_rc_well_behaved s_run])
qed

text \<open>
  C5: A reconcile reads secrets only in the namespace of the application it works on: every secret that is asked
  for is asked for in the namespace of the object that the API server returned for the request, so a cluster-wide
  watch gives nobody access to the secrets of another namespace.
\<close>

theorem secrets_from_own_namespace:
  assumes "well_behaved rc" and "run_state (Reconcile rc ns name) h = (r, h @ new)"
    and "CallGetSecret n secret a \<in> set new"
  shows "\<exists>app. active (rc_env rc) h ns name app \<and> n = om_namespace (app_meta app)"
proof (cases "\<exists>app. active (rc_env rc) h ns name app")
  case True
  then obtain app where app: "active (rc_env rc) h ns name app" ..
  from assms(2) have "run_state (reconcile_active rc app) (h @ [CallGetApp ns name (Inr app)]) = (r, h @ new)"
    by (simp only: run_Reconcile_active [OF app])
  from emitsE [OF active_secrets [OF assms(1)] this] obtain more
    where "new = CallGetApp ns name (Inr app) # more" "list_all (secret_of (om_namespace (app_meta app))) more" by auto
  with assms(3) have "secret_of (om_namespace (app_meta app)) (CallGetSecret n secret a)" by (auto simp: list_all_iff)
  with app show ?thesis by auto
next
  case False
  with assms(2,3) show ?thesis
    by (auto simp: run_Reconcile active_def run_updateSuspended Let_def split: sum.splits if_splits)
qed

text \<open>The sample operator with an application that names a secret.\<close>

definition s_secret_rc :: "sobj reconciler" where
  "s_secret_rc = s_rc\<lparr>rc_env := s_cluster\<lparr>env_getApp := (\<lambda>h ns n. Inr s_secret_app)\<rparr>\<rparr>"

lemma s_secret_rc_run:
  "\<exists>r new a. run_state (Reconcile s_secret_rc ''app-ns'' ''demo'') [] = (r, [] @ new)
     \<and> CallGetSecret ''app-ns'' ''creds'' a \<in> set new"
proof -
  have v: "validateSpec s_api s_secret_app s_config = None"
    by (simp add: validateSpec_None s_secret_app_def s_app_eval)
  have f: "src_secretRef (spec_source (app_spec s_secret_app)) = Some ''creds''"
    "om_namespace (app_meta s_secret_app) = ''app-ns''" "is_deleted s_secret_app = False" "spec_suspend (app_spec s_secret_app) = False"
    by (simp_all add: s_secret_app_def s_app_def is_deleted_def)
  show ?thesis
    by (simp add: s_secret_rc_def run_Reconcile Let_def f reconcile_active_def v loadCredentials_def getSecret_def fail_result_def
        run_fail s_cluster_def s_env_def split: sum.split)
qed

theorem secrets_from_own_namespace_witness:
  "\<exists>new secret a. snd (run_state (Reconcile s_secret_rc ''app-ns'' ''demo'') []) = new
     \<and> CallGetSecret ''app-ns'' secret a \<in> set new \<and> om_namespace (app_meta s_secret_app) = ''app-ns''"
proof -
  from s_secret_rc_run obtain r new a where run: "run_state (Reconcile s_secret_rc ''app-ns'' ''demo'') [] = (r, [] @ new)"
    and c: "CallGetSecret ''app-ns'' ''creds'' a \<in> set new" by blast
  have "well_behaved s_secret_rc" by (simp add: s_secret_rc_def well_behaved_def wp)
  from secrets_from_own_namespace [OF this run c] have "om_namespace (app_meta s_secret_app) = ''app-ns''"
    by (auto simp: active_def s_secret_rc_def)
  with run c show ?thesis by auto
qed

text \<open>
  an inactive application is left alone. If it does not exist, reconciling is not an error; if it
  cannot be read, the error is returned; if it is being deleted, nothing is done; if it is suspended, only
  its status is written. The cluster is not changed in any of these cases.
\<close>

lemma reconcile_inactive_harmless:
  assumes "run_state (Reconcile rc ns name) h = (r, h @ new)"
    and "\<nexists>app. active (rc_env rc) h ns name app"
  shows "list_all (\<lambda>c. \<not> is_mutation c) new
    \<and> (case env_getApp (rc_env rc) h ns name of
         Inl err \<Rightarrow> length new = 1 \<and> snd r = (if is_not_found err then None else Some err)
       | Inr app \<Rightarrow> if is_deleted app then length new = 1 \<and> snd r = None
           else \<exists>now a. new = [CallGetApp ns name (Inr app), CallNow now,
               CallStatusPatch app (app\<lparr>app_status := suspended_status now app\<rparr>) a]
             \<and> (snd r = None \<longleftrightarrow> (\<exists>updated. a = Inr updated)))"
  using Reconcile_inactive [OF assms] assms
  by (auto simp: run_Reconcile active_def Let_def run_updateSuspended split: sum.splits if_splits)

theorem reconcile_inactive_harmless_witness:
  "snd (fst (run_state (Reconcile (s_rc\<lparr>rc_env := s_env\<lparr>env_getApp := (\<lambda>h ns n. Inl (ApiStatus True []))\<rparr>\<rparr>)
     ''ns'' ''gone'') [])) = None"
proof -
  let ?rc = "s_rc\<lparr>rc_env := s_env\<lparr>env_getApp := (\<lambda>h ns n. Inl (ApiStatus True []))\<rparr>\<rparr>"
  obtain r h' where run: "run_state (Reconcile ?rc ''ns'' ''gone'') [] = (r, [] @ h')"
    by (metis append_Nil prod.collapse)
  have "\<nexists>app. active (rc_env ?rc) [] ''ns'' ''gone'' app" by (simp add: active_def)
  from reconcile_inactive_harmless [OF run this] show ?thesis using run by (simp add: is_not_found_def)
qed

text \<open>
  the inventory key contains the API version, so pruning takes an upgrade of a manifest's
  apiVersion for a removal. If the recorded inventory has a reference that differs from every desired one,
  be it only in the version, it is stale, even though the API server serves the very object that was just
  applied under that version too.
\<close>

lemma version_change_is_stale:
  assumes "visits_all iter" and "ref \<in> set desired" and "\<forall>d \<in> set desired. segment_ref d"
    and "ref\<lparr>rr_version := v\<rparr> \<notin> set desired"
    and "inj_on ks (rr_gvk ` insert (ref\<lparr>rr_version := v\<rparr>) (set desired))"
  shows "Diff ks iter [ref\<lparr>rr_version := v\<rparr>] desired = [ref\<lparr>rr_version := v\<rparr>]"
proof -
  let ?old = "ref\<lparr>rr_version := v\<rparr>"
  have "Key ks ?old \<notin> Key ks ` set desired"
  proof
    assume "Key ks ?old \<in> Key ks ` set desired"
    then obtain d where d: "d \<in> set desired" "Key ks ?old = Key ks d" by auto
    moreover have "segment_ref ?old" using assms(2,3) by (auto simp: segment_ref_def)
    moreover have "inj_on ks {rr_gvk ?old, rr_gvk d}"
      by (rule inj_on_subset [OF assms(5)]) (use d in auto)
    ultimately have "?old = d" using assms(3) by (intro Key_inject [of ks]) simp_all
    with d assms(4) show False by auto
  qed
  then have "?old \<in> set (Diff ks iter [?old] desired)"
    by (simp add: Diff_mem [OF assms(1)] index_refs_def)
  with Diff_subset [OF assms(1), of ks "[?old]" desired]
  have "set (Diff ks iter [?old] desired) = {?old}" by auto
  moreover have "distinct (Diff ks iter [?old] desired)"
    using Diff_sorted_distinct [OF assms(1), of ks "[?old]" desired]
    by (simp add: strict_sorted_iff distinct_map)
  ultimately show ?thesis by (intro distinct_set_singleton)
qed

theorem version_change_is_stale_witness:
  "Diff (gvkString s_api) rev [s_hpa_ref\<lparr>rr_version := ''v2beta2''\<rparr>] [s_hpa_ref]
     = [s_hpa_ref\<lparr>rr_version := ''v2beta2''\<rparr>]"
  by (rule version_change_is_stale [OF visits_all_rev])
    (auto simp: s_hpa_ref_def segment_ref_def rr_gvk_def inj_on_def)

end
