(* ===== verification/Steady_State.thy ===== *)
theory Steady_State
  imports Reconcile_Props
begin

section \<open>From one reconcile to the next\<close>

text \<open>
  What one successful reconcile leaves in the status is what the next one compares with. So pruning takes away
  only what left the repository in between; a sample cluster that has settled.
\<close>

text \<open>
  C10: After a reconcile that returned no error, the next one deletes only what the repository no longer has: if
  the application comes back with the inventory that the first one wrote, and every reference of the batch that
  the first one rendered is also in the batch that the second one renders (if it gets that far), then the second
  deletes nothing, whatever becomes of it. (\<open>batch_from\<close> is the one batch that a run from this history renders.)
\<close>

theorem nothing_removed_nothing_deleted:
  assumes "well_behaved rc" and first: "active (rc_env rc) h ns name app"
      "run_state (Reconcile rc ns name) h = ((res, None), h @ new)" "last new = CallStatusPatch base modified a"
      "batch_from rc app (h @ [CallGetApp ns name (Inr app)]) sha n d"
    and second: "active (rc_env rc) h' ns name app'"
      "st_inventory (app_status app') = st_inventory (app_status modified)"
      "run_state (Reconcile rc ns name) h' = (r', h' @ new')"
    and kept: "\<And>sha' n' d'. batch_from rc app' (h' @ [CallGetApp ns name (Inr app')]) sha' n' d'
      \<Longrightarrow> Key (gvkString (rc_api rc)) ` set d \<subseteq> Key (gvkString (rc_api rc)) ` set d'"
  shows "list_all (\<lambda>c. \<not> is_delete c) new'"
proof (rule ccontr)
  assume "\<not> ?thesis"
  then obtain before c after where c: "new' = before @ c # after" "is_delete c"
    by (auto simp: list_all_iff in_set_conv_decomp)
  from deletes_owned [OF assms(1) second(3) [unfolded c(1)] c(2)] obtain app2 sha' n' d' ref where
    d': "active (rc_env rc) h' ns name app2" "batch_from rc app2 (h' @ [CallGetApp ns name (Inr app2)]) sha' n' d'"
      "ref \<in> set (st_inventory (app_status app2))"
      "Key (gvkString (rc_api rc)) ref \<notin> Key (gvkString (rc_api rc)) ` set d'" by blast
  with second(1) have app2: "app2 = app'" by (simp add: active_def)
  from assms(1) first(1,2) obtain creds dir sha1 l k b rendered n1 d1 patches prunes now updated
    where st: "staged rc app (h @ [CallGetApp ns name (Inr app)]) creds dir sha1 l k b rendered n1 d1"
      and new: "new = (CallGetApp ns name (Inr app) # l @ k @ b) @ patches @ prunes @ [CallNow now, CallStatusPatch (attempted app sha1)
        (app\<lparr>app_status := success_status (rc_api rc) now sha1 d1 (attempted app sha1)\<rparr>) (Inr updated)]"
    by (rule successful_stages)
  from first(4) st have "d1 = d" unfolding batch_from_def by (auto dest: staged_unique)
  with first(3) new d'(3) app2 second(2) have "ref \<in> set d" by (auto simp: success_fields)
  with kept d'(2,4) app2 show False by blast
qed

definition s_settled_app :: git_application where
  "s_settled_app = s_upgraded_app\<lparr>app_status := (app_status s_upgraded_app)\<lparr>st_inventory := [s_hpa_ref]\<rparr>\<rparr>"

definition s_settled_cluster :: "sobj env" where
  "s_settled_cluster = s_cluster\<lparr>env_getApp := (\<lambda>h ns n. Inr s_settled_app)\<rparr>"

definition s_settled_rc :: "sobj reconciler" where
  "s_settled_rc = s_rc\<lparr>rc_env := s_settled_cluster\<rparr>"

lemma s_settled_simps [simp]:
  "rc_env s_settled_rc = s_settled_cluster" "rc_api s_settled_rc = s_api" "rc_kube s_settled_rc = True"
  "rc_config s_settled_rc = s_config"
  "rc_checkout s_settled_rc repo revision creds = State_Monad.return (Inr (''/cache/w'', ''abc''))"
  "rc_renderYAML s_settled_rc dir spec sha = State_Monad.return (Inr [Some s_hpa])"
  "rc_renderHelm s_settled_rc dir spec sha = State_Monad.return (Inr [])"
  "rc_mapOrder s_settled_rc = (\<lambda>es. es)"
  "env_getApp s_settled_cluster h ns n = Inr s_settled_app" "env_mapper s_settled_cluster h = s_hpa_mapper"
  "env_dynPatch s_settled_cluster h r ns' n b opts = None" "env_now s_settled_cluster h = 7"
  "env_statusPatch s_settled_cluster h base a = Inr a"
  by (simp_all add: s_settled_rc_def s_settled_cluster_def s_rc_def)

lemma s_settled_app_simps [simp]:
  "app_spec s_settled_app = app_spec s_upgraded_app" "app_meta s_settled_app = app_meta s_upgraded_app"
  "st_inventory (app_status s_settled_app) = [s_hpa_ref]"
  by (simp_all add: s_settled_app_def)

lemma s_settled_well_behaved: "well_behaved s_settled_rc"
  by (simp add: well_behaved_def wp)

lemma s_settled_active: "active s_settled_cluster h ''app-ns'' ''demo'' s_settled_app"
  using s_upgraded_active by (simp add: active_def is_deleted_def)

lemma s_settled_policy: "reconcile_policy s_config s_settled_app sha = reconcile_policy s_config s_upgraded_app sha"
  by (simp add: reconcile_policy_def)

lemma s_settled_valid: "validateSpec s_api s_settled_app s_config = None"
  using s_upgraded_valid by (simp add: validateSpec_def)

lemma s_settled_from:
  "batch_from s_settled_rc s_settled_app h sha n d \<longleftrightarrow> sha = ''abc'' \<and> n = [s_hpa'] \<and> d = [s_hpa_ref]"
  using s_hpa_normalized
  by (auto simp: batch_from_def staged_def render_def s_settled_policy s_settled_valid loadCredentials_def)

definition s_settled_before :: git_application where
  "s_settled_before = attempted s_settled_app ''abc''"

lemma s_settled_run:
  "\<exists>base modified. st_inventory (app_status modified) = [s_hpa_ref]
    \<and> run_state (Reconcile s_settled_rc ''app-ns'' ''demo'') h = ((no_result\<lparr>res_requeueAfter := 60 * Second\<rparr>, None),
        h @ [CallGetApp ''app-ns'' ''demo'' (Inr s_settled_app), s_patch_call, CallNow 7, CallStatusPatch base modified (Inr modified)])"
proof -
  let ?h = "h @ [CallGetApp ''app-ns'' ''demo'' (Inr s_settled_app)]"
  let ?after = "s_settled_app\<lparr>app_status := success_status s_api 7 ''abc'' [s_hpa_ref] s_settled_before\<rparr>"
  have fm: "fieldManagerOrDefault [] = DefaultFieldManager" by (simp add: fieldManagerOrDefault_def)
  have ap: "run_state (Apply s_settled_cluster s_api [s_hpa'] DefaultFieldManager False) h' = (None, h' @ [s_patch_call])" for h'
    by (simp add: Apply_def s_hpa_mapper_def dynPatch_def s_patch_call_def DefaultFieldManager_def)
  have pr: "prune s_settled_rc s_settled_before [s_hpa_ref] = State_Monad.return None"
    by (simp add: prune_def s_settled_before_def Diff_def index_refs_def drop_refs_def Normalize_def)
  have "run_state (Reconcile s_settled_rc ''app-ns'' ''demo'') h = run_state (reconcile_active s_settled_rc s_settled_app) ?h"
    using run_Reconcile_active [of s_settled_rc h "''app-ns''" "''demo''"] s_settled_active by simp
  also have "\<dots> = run_state (reconcile_checkout s_settled_rc s_settled_before ''/cache/w'' ''abc'') ?h"
    by (simp add: reconcile_active_def s_settled_valid loadCredentials_def s_settled_before_def)
  also have "\<dots> = run_state (reconcile_apply s_settled_rc s_settled_before ''abc'' [s_hpa'] [s_hpa_ref]) ?h"
    by (simp add: reconcile_checkout_def s_settled_before_def render_def s_settled_policy s_hpa_normalized)
  also have "\<dots> = run_state (reconcile_finish s_settled_rc s_settled_before ''abc'' [s_hpa_ref]) (?h @ [s_patch_call])"
    by (simp add: reconcile_apply_def fm ap s_settled_before_def pr [unfolded s_settled_before_def])
  also have "\<dots> = ((no_result\<lparr>res_requeueAfter := 60 * Second\<rparr>, None),
      ?h @ [s_patch_call, CallNow 7, CallStatusPatch s_settled_before ?after (Inr ?after)])"
    by (simp add: reconcile_finish_def run_updateSuccess Let_def s_settled_before_def Second_def)
  finally show ?thesis
    by (intro exI [of _ s_settled_before] exI [of _ ?after]) (simp add: success_fields Normalize_def)
qed

theorem nothing_removed_nothing_deleted_witness:
  "\<exists>new'. snd (run_state (Reconcile s_settled_rc ''app-ns'' ''demo'') []) = [] @ new' \<and> list_all (\<lambda>c. \<not> is_delete c) new'
     \<and> s_patch_call \<in> set new'"
proof -
  obtain base modified where m: "st_inventory (app_status modified) = [s_hpa_ref]"
    and run: "run_state (Reconcile s_settled_rc ''app-ns'' ''demo'') [] = ((no_result\<lparr>res_requeueAfter := 60 * Second\<rparr>, None),
        [] @ [CallGetApp ''app-ns'' ''demo'' (Inr s_settled_app), s_patch_call, CallNow 7, CallStatusPatch base modified (Inr modified)])"
      (is "_ = (_, [] @ ?new)")
    using s_settled_run [of "[]"] by blast
  have act: "active (rc_env s_settled_rc) [] ''app-ns'' ''demo'' s_settled_app" using s_settled_active by simp
  have "list_all (\<lambda>c. \<not> is_delete c) ?new"
    by (rule nothing_removed_nothing_deleted [OF s_settled_well_behaved act run _ _ act _ run])
      (use m in \<open>auto simp: s_settled_from\<close>)
  with run show ?thesis by (intro exI [of _ ?new]) simp
qed


subsection \<open>When the inventory changes\<close>

text \<open>
  \<open>last_on_success Q m\<close>: all calls of a run of \<open>m\<close> satisfy \<open>Q\<close>, except perhaps the last call of a run without error.
\<close>

definition last_on_success :: "('o call \<Rightarrow> bool) \<Rightarrow> ('o, ctrl_result \<times> gerror option) prog \<Rightarrow> bool" where
  "last_on_success Q m \<longleftrightarrow> (\<forall>h r h'. run_state m h = (r, h') \<longrightarrow>
     (\<exists>new. h' = h @ new \<and> list_all Q (butlast new) \<and> (snd r \<noteq> None \<longrightarrow> list_all Q new)))"

lemma list_all_butlast: "list_all Q xs \<Longrightarrow> list_all Q (butlast xs)"
  by (auto simp: list_all_iff dest: in_set_butlastD)

lemma last_on_success_emits: "emits Q m \<Longrightarrow> last_on_success Q m"
  unfolding last_on_success_def by (metis emitsE list_all_butlast)

lemma last_on_success_bind:
  assumes "emits Q m" and "\<And>a. last_on_success Q (f a)"
  shows "last_on_success Q (State_Monad.bind m f)"
  unfolding last_on_success_def
proof (intro allI impI)
  fix h r h' assume run: "run_state (State_Monad.bind m f) h = (r, h')"
  from run obtain a h1 where a: "run_state m h = (a, h1)" "run_state (f a) h1 = (r, h')" by (rule run_bindE)
  from emitsE [OF assms(1) a(1)] obtain k where k: "h1 = h @ k" "list_all Q k" .
  from assms(2) [unfolded last_on_success_def] a(2) obtain l
    where "h' = h1 @ l" "list_all Q (butlast l)" "snd r \<noteq> None \<longrightarrow> list_all Q l" by blast
  with k show "\<exists>new. h' = h @ new \<and> list_all Q (butlast new) \<and> (snd r \<noteq> None \<longrightarrow> list_all Q new)"
    by (intro exI [of _ "k @ l"]) (auto simp: butlast_append list_all_butlast)
qed

lemma last_on_success_cases:
  "(\<And>x. last_on_success Q (f x)) \<Longrightarrow> last_on_success Q n \<Longrightarrow> last_on_success Q (case y of None \<Rightarrow> n | Some x \<Rightarrow> f x)"
  "(\<And>e. last_on_success Q (g e)) \<Longrightarrow> (\<And>x. last_on_success Q (f x)) \<Longrightarrow> last_on_success Q (case z of Inl e \<Rightarrow> g e | Inr x \<Rightarrow> f x)"
  "(\<And>x w. last_on_success Q (k x w)) \<Longrightarrow> last_on_success Q (case p of (x, w) \<Rightarrow> k x w)"
  "last_on_success Q m \<Longrightarrow> last_on_success Q n \<Longrightarrow> last_on_success Q (if b then m else n)"
  by (auto split: option.split sum.split prod.split)

text \<open>A status patch that the server accepts leaves the inventory as it was.\<close>

fun keeps_inventory :: "'o call \<Rightarrow> bool" where
  "keeps_inventory (CallStatusPatch base modified (Inr updated)) \<longleftrightarrow>
     st_inventory (app_status modified) = st_inventory (app_status base)"
| "keeps_inventory _ \<longleftrightarrow> True"

lemma keeps_inventory_patch [simp]:
  "st_inventory (app_status modified) = st_inventory (app_status base) \<Longrightarrow> keeps_inventory (CallStatusPatch base modified a)"
  by (cases a) simp_all

lemma local_keeps: "is_local c \<Longrightarrow> keeps_inventory c"
  by (cases c) auto

lemma fail_keeps: "emits keeps_inventory (fail_result rc app stage err stalled)"
  by (intro wp) (simp_all add: failure_frame)

lemma finish_keeps: "last_on_success keeps_inventory (reconcile_finish rc app sha desired)"
  unfolding last_on_success_def
proof (intro allI impI)
  fix h r h' assume run: "run_state (reconcile_finish rc app sha desired) h = (r, h')"
  let ?now = "env_now (rc_env rc) h"
  let ?app' = "app\<lparr>app_status := success_status (rc_api rc) ?now sha desired app\<rparr>"
  let ?a = "env_statusPatch (rc_env rc) (h @ [CallNow ?now]) app ?app'"
  show "\<exists>new. h' = h @ new \<and> list_all keeps_inventory (butlast new) \<and> (snd r \<noteq> None \<longrightarrow> list_all keeps_inventory new)"
  proof (cases ?a)
    case (Inr updated)
    with run show ?thesis by (auto simp: reconcile_finish_def run_updateSuccess Let_def)
  next
    case (Inl err)
    let ?two = "[CallNow ?now, CallStatusPatch app ?app' (Inl err)]"
    from run Inl have "run_state (fail_result rc ?app' ''status update'' err False) (h @ ?two) = (r, h')"
      by (simp add: reconcile_finish_def run_updateSuccess Let_def)
    from emitsE [OF fail_keeps this] obtain k where "h' = (h @ ?two) @ k" "list_all keeps_inventory k" .
    then show ?thesis by (intro exI [of _ "?two @ k"]) (simp add: list_all_butlast butlast_append)
  qed
qed

lemma active_keeps:
  assumes "well_behaved rc"
  shows "last_on_success keeps_inventory (reconcile_active rc app)"
proof -
  have parts: "emits keeps_inventory (Apply env u objs fm force)" "emits keeps_inventory (prune rc a desired)"
    "emits keeps_inventory (loadCredentials env kube a)" "emits keeps_inventory (mapperNow env)" for env u objs fm force a desired kube
    by (intro wp; auto simp: patch_of_def split: call.splits)+
  note fail = last_on_success_emits [OF fail_keeps]
  have ap: "last_on_success keeps_inventory (reconcile_apply rc app sha normalized desired)" for app sha normalized desired
    unfolding reconcile_apply_def
    by (rule last_on_success_bind [OF parts(1)] last_on_success_bind [OF parts(2)] last_on_success_cases fail finish_keeps)+
  have checkout: "last_on_success keeps_inventory (reconcile_checkout rc app dir sha)" for app dir sha
    unfolding reconcile_checkout_def
    by (rule last_on_success_bind [OF emits_render [OF assms local_keeps]] last_on_success_bind [OF parts(4)]
        last_on_success_cases fail ap | assumption)+
  show ?thesis
    unfolding reconcile_active_def
    by (rule last_on_success_bind [OF emits_checkout [OF assms local_keeps]] last_on_success_bind [OF parts(3)]
        last_on_success_cases fail checkout | assumption)+
qed

text \<open>
  C9: The inventory is what the last complete reconcile applied: a status patch that the server accepts changes
  it only if the reconcile returns no error, and then to the references of exactly the batch that was applied.
  A reconcile that fails after it has applied some objects does not record them.
\<close>

theorem inventory_changes_on_success:
  assumes "well_behaved rc" and "run_state (Reconcile rc ns name) h = (r, h @ new)"
    and "CallStatusPatch base modified (Inr updated) \<in> set new"
    and "st_inventory (app_status modified) \<noteq> st_inventory (app_status base)"
  shows "snd r = None \<and> (\<exists>app h1 sha normalized desired. active (rc_env rc) h ns name app
    \<and> batch rc app h1 sha normalized desired \<and> list_all2 (patch_of (rc_env rc) (rc_api rc)
          (fieldManagerOrDefault (cfg_fieldManager (rc_config rc))) (spec_takeoverExistingResources (app_spec app)))
          normalized (filter is_patch new)
    \<and> st_inventory (app_status modified) = Normalize (gvkString (rc_api rc)) desired)"
proof -
  have bad: "\<not> list_all keeps_inventory new" using assms(3,4) by (force simp: list_all_iff)
  have susp: "emits keeps_inventory (updateSuspended (rc_env rc) (rc_config rc) app)" for app
    by (intro wp) (simp_all add: suspended_frame)
  have "\<exists>app. active (rc_env rc) h ns name app"
  proof (rule ccontr)
    assume "\<not> ?thesis"
    with assms(2) bad show False
      by (auto simp: run_Reconcile Let_def active_def split: sum.splits if_splits elim: emitsE [OF susp])
  qed
  then obtain app where act: "active (rc_env rc) h ns name app" by blast
  from assms(2) have "run_state (reconcile_active rc app) (h @ [CallGetApp ns name (Inr app)]) = (r, h @ new)"
    by (simp only: run_Reconcile_active [OF act])
  with active_keeps [OF assms(1), of app] obtain k where k: "new = CallGetApp ns name (Inr app) # k"
    "list_all keeps_inventory (butlast k)" "snd r \<noteq> None \<longrightarrow> list_all keeps_inventory k"
    unfolding last_on_success_def by fastforce
  from k(1,3) bad have r: "snd r = None" by auto
  with assms(2) have run: "run_state (Reconcile rc ns name) h = ((fst r, None), h @ new)" by (cases r) simp
  obtain pre sha normalized desired patches prunes now updated' where s:
    "batch rc app (h @ pre) sha normalized desired" "harmless pre"
    "applied rc app normalized patches None" "pruned rc app desired prunes None"
    "new = pre @ patches @ prunes @ [CallNow now, CallStatusPatch (attempted app sha)
         (app\<lparr>app_status := success_status (rc_api rc) now sha desired (attempted app sha)\<rparr>) (Inr updated')]"
    by (rule successful_reconcile [OF assms(1) act run])
  from assms(4) have "\<not> keeps_inventory (CallStatusPatch base modified (Inr updated))" by simp
  with k(1,2) assms(3) have "CallStatusPatch base modified (Inr updated) = last new"
    by (cases k rule: rev_cases) (auto simp: list_all_iff)
  with s(5) have "modified = app\<lparr>app_status := success_status (rc_api rc) now sha desired (attempted app sha)\<rparr>" by simp
  moreover have "filter is_patch new = patches" unfolding s(5) by (rule successful_patches [OF s(2-4)])
  ultimately show ?thesis using act r s(1,3)
    by (intro conjI exI [of _ app] exI [of _ "h @ pre"] exI [of _ sha] exI [of _ normalized] exI [of _ desired])
      (auto simp: applied_def apply_run_def success_fields)
qed

theorem inventory_changes_on_success_witness:
  "\<exists>h1 sha normalized desired. batch s_rc s_upgraded_app h1 sha normalized desired
     \<and> st_inventory (app_status s_after) = Normalize (gvkString s_api) desired"
proof -
  have "CallStatusPatch s_before s_after (Inr s_after) \<in> set s_trace" by (simp add: s_trace_def)
  from inventory_changes_on_success [OF s_rc_well_behaved s_run this]
  have "st_inventory (app_status s_after) \<noteq> st_inventory (app_status s_before) \<Longrightarrow> ?thesis"
    by (auto simp: active_def)
  moreover have "st_inventory (app_status s_after) \<noteq> st_inventory (app_status s_before)"
    by (simp add: s_after_def s_before_def success_fields Normalize_def s_hpa_ref_def s_upgraded_app_def)
  ultimately show ?thesis by blast
qed

end
