(* ===== verification/Interleaving.thy ===== *)
theory Interleaving
  imports Prelude
begin

section \<open>Several runs at once\<close>

text \<open>
  Goroutines run at the same time. The history of one of them is what its own program appends; what happens
  altogether is an interleaving of these histories: a list of calls, each with the run that made it, whose
  restriction to one run is that run's history. The answers of the world to a run depend on what the others do;
  since they are parameters of each run, every interleaving is covered.

  A resource that one run at a time can have (a lock on a file, a key of the work queue) is given by the calls
  that take it and the calls that drop it. \<open>one_at_a_time\<close> is the promise of its provider, \<open>while_held\<close> the
  discipline of a client, and \<open>sections_apart\<close> what follows: two runs' risky calls are separated by the first
  run's dropping and then the second run's taking the resource.
\<close>

definition calls_of :: "'w \<Rightarrow> ('w \<times> 'c) list \<Rightarrow> 'c list" where
  "calls_of w g = List.map snd (filter (\<lambda>e. fst e = w) g)"

lemma calls_of_simps [simp]:
  "calls_of w [] = []"
  "calls_of w ((v, c) # g) = (if v = w then c # calls_of w g else calls_of w g)"
  "calls_of w (g @ g') = calls_of w g @ calls_of w g'"
  by (simp_all add: calls_of_def)

lemma calls_of_map [simp]: "calls_of w (List.map (Pair v) cs) = (if v = w then cs else [])"
  by (induction cs) auto

text \<open>Who has the resource after a piece of history, and whether it is only ever taken when nobody has it.\<close>

definition next_holder :: "('c \<Rightarrow> bool) \<Rightarrow> ('c \<Rightarrow> bool) \<Rightarrow> 'w option \<Rightarrow> 'w \<times> 'c \<Rightarrow> 'w option" where
  "next_holder takes drops h e =
     (if takes (snd e) then Some (fst e) else if drops (snd e) \<and> h = Some (fst e) then None else h)"

fun holder :: "('c \<Rightarrow> bool) \<Rightarrow> ('c \<Rightarrow> bool) \<Rightarrow> 'w option \<Rightarrow> ('w \<times> 'c) list \<Rightarrow> 'w option" where
  "holder takes drops h [] = h"
| "holder takes drops h (e # g) = holder takes drops (next_holder takes drops h e) g"

fun one_at_a_time :: "('c \<Rightarrow> bool) \<Rightarrow> ('c \<Rightarrow> bool) \<Rightarrow> 'w option \<Rightarrow> ('w \<times> 'c) list \<Rightarrow> bool" where
  "one_at_a_time takes drops h [] \<longleftrightarrow> True"
| "one_at_a_time takes drops h (e # g) \<longleftrightarrow>
     (takes (snd e) \<longrightarrow> h = None) \<and> one_at_a_time takes drops (next_holder takes drops h e) g"

lemma holder_append [simp]: "holder takes drops h (g @ g') = holder takes drops (holder takes drops h g) g'"
  by (induction g arbitrary: h) auto

lemma one_at_a_time_append [simp]:
  "one_at_a_time takes drops h (g @ g') \<longleftrightarrow>
     one_at_a_time takes drops h g \<and> one_at_a_time takes drops (holder takes drops h g) g'"
  by (induction g arbitrary: h) auto

lemma held_Nil [simp]: "\<not> held takes drops []"
  by (simp add: held_def)

lemma held_last: "held takes drops (pre @ [c]) \<longleftrightarrow> takes c \<or> (held takes drops pre \<and> \<not> drops c)"
proof
  assume "held takes drops (pre @ [c])"
  then obtain u t v where s: "pre @ [c] = u @ t # v" "takes t" "list_all (\<lambda>c. \<not> drops c) v"
    unfolding held_def by blast
  show "takes c \<or> (held takes drops pre \<and> \<not> drops c)"
  proof (cases v rule: rev_cases)
    case Nil
    with s show ?thesis by simp
  next
    case (snoc v' d)
    with s have "pre = u @ t # v'" "d = c" by simp_all
    with s snoc show ?thesis unfolding held_def by auto
  qed
next
  assume "takes c \<or> (held takes drops pre \<and> \<not> drops c)"
  then show "held takes drops (pre @ [c])"
    by (auto intro: held_snoc) (force simp: held_def)
qed

text \<open>A run that holds the resource by its own history is the holder.\<close>

lemma held_is_holder:
  "one_at_a_time takes drops None g \<Longrightarrow> held takes drops (calls_of w g) \<Longrightarrow> holder takes drops None g = Some w"
proof (induction g rule: rev_induct)
  case (snoc e g)
  obtain v c where e: "e = (v, c)" by (cases e)
  show ?case
  proof (cases "v = w")
    case True
    with snoc e show ?thesis by (auto simp: held_last next_holder_def)
  next
    case False
    with snoc e show ?thesis by (auto simp: next_holder_def)
  qed
qed simp

lemma holder_lost:
  "holder takes drops (Some i) g = None \<Longrightarrow> one_at_a_time takes drops (Some i) g
    \<Longrightarrow> \<exists>u x v. g = u @ (i, x) # v \<and> drops x"
proof (induction g)
  case (Cons e g)
  obtain w c where e: "e = (w, c)" by (cases e)
  show ?case
  proof (cases "drops c \<and> w = i")
    case True
    with e show ?thesis by blast
  next
    case False
    with Cons.prems e have "next_holder takes drops (Some i) e = Some i" by (auto simp: next_holder_def)
    with Cons obtain u x v where "g = u @ (i, x) # v" "drops x" by auto
    then show ?thesis by (intro exI [of _ "e # u"] exI [of _ x] exI [of _ v]) simp
  qed
qed simp

lemma holder_gained:
  "holder takes drops h g = Some j \<Longrightarrow> h \<noteq> Some j \<Longrightarrow> one_at_a_time takes drops h g
    \<Longrightarrow> \<exists>u y v. g = u @ (j, y) # v \<and> takes y \<and> holder takes drops h u = None"
proof (induction g rule: rev_induct)
  case (snoc e g)
  obtain w c where e: "e = (w, c)" by (cases e)
  show ?case
  proof (cases "holder takes drops h g = Some j")
    case True
    with snoc obtain u y v where "g = u @ (j, y) # v" "takes y" "holder takes drops h u = None" by auto
    then show ?thesis by (intro exI [of _ u] exI [of _ y] exI [of _ "v @ [e]"]) simp
  next
    case False
    with snoc.prems e have "takes c" "w = j" "holder takes drops h g = None"
      by (auto simp: next_holder_def split: if_splits)
    with e show ?thesis by blast
  qed
qed simp


subsection \<open>A shared resource\<close>

locale shared_resource =
  fixes takes drops risky :: "'c \<Rightarrow> bool"
  assumes risky_keeps: "risky c \<Longrightarrow> \<not> drops c"
begin

lemma risky_held:
  "while_held takes drops risky (calls_of w (g @ (w, c) # g')) \<Longrightarrow> risky c \<Longrightarrow> held takes drops (calls_of w g)"
  unfolding while_held_def by auto

theorem sections_apart:
  assumes excl: "one_at_a_time takes drops None (g1 @ (i, c) # g2 @ (j, d) # g3)"
    and runs: "\<And>w. w \<in> {i, j} \<Longrightarrow> while_held takes drops risky (calls_of w (g1 @ (i, c) # g2 @ (j, d) # g3))"
    and risky: "risky c" "risky d" and "i \<noteq> j"
  shows "\<exists>a x b y e. g2 = a @ (i, x) # b @ (j, y) # e \<and> drops x \<and> takes y"
proof -
  let ?g = "g1 @ [(i, c)]"
  have "held takes drops (calls_of i g1)"
    using runs [of i] risky(1) risky_held [of i g1 c "g2 @ (j, d) # g3"] by simp
  then have "held takes drops (calls_of i ?g)" using risky_keeps [OF risky(1)] by (simp add: held_last)
  then have i: "holder takes drops None ?g = Some i" by (rule held_is_holder [rotated]) (use excl in simp)
  have "held takes drops (calls_of j (?g @ g2))"
    using runs [of j] risky(2) risky_held [of j "?g @ g2" d g3] by simp
  then have "holder takes drops None (?g @ g2) = Some j" by (rule held_is_holder [rotated]) (use excl in simp)
  then have j: "holder takes drops (Some i) g2 = Some j" using i by (metis holder_append)
  have g2: "one_at_a_time takes drops (Some i) g2" using excl i by simp
  from holder_gained [OF j _ g2] \<open>i \<noteq> j\<close> obtain u y v
    where u: "g2 = u @ (j, y) # v" "takes y" "holder takes drops (Some i) u = None" by auto
  moreover from g2 u(1) have "one_at_a_time takes drops (Some i) u" by simp
  ultimately obtain p x q where "u = p @ (i, x) # q" "drops x" using holder_lost by metis
  with u show ?thesis by (intro exI [of _ p] exI [of _ x] exI [of _ q] exI [of _ y] exI [of _ v]) simp
qed

end

end
