(* ===== verification/Go_Crypto.thy ===== *)
theory Go_Crypto
  imports Go_Std "HOL-Library.Word"
begin

section \<open>Packages encoding/base64, encoding/hex and crypto/sha256\<close>

text \<open>
  What \<open>internal/git/repository.go\<close> uses of them: \<open>base64.StdEncoding.EncodeToString\<close> for the
  Authorization header, with the decoder as its specification; and the lower-case hexadecimal SHA-256
  digest that names the cache directories of a repository, computed on 32-bit words as FIPS 180-4 has it.
\<close>

unbundle bit_operations_syntax


subsection \<open>Base64\<close>

definition b64_alphabet :: string where
  "b64_alphabet = ''ABCDEFGHIJKLMNOPQRSTUVWXYZabcdefghijklmnopqrstuvwxyz0123456789+/''"

definition b64_char :: "nat \<Rightarrow> char" where
  "b64_char n = b64_alphabet ! n"

definition byte :: "char \<Rightarrow> nat" where
  "byte c = of_char c"

fun base64_EncodeToString :: "string \<Rightarrow> string" where
  "base64_EncodeToString [] = []"
| "base64_EncodeToString [a] =
     [b64_char (byte a div 4), b64_char (byte a mod 4 * 16), CHR ''='', CHR ''='']"
| "base64_EncodeToString [a, b] =
     [b64_char (byte a div 4), b64_char (byte a mod 4 * 16 + byte b div 16),
      b64_char (byte b mod 16 * 4), CHR ''='']"
| "base64_EncodeToString (a # b # c # s) =
     b64_char (byte a div 4) # b64_char (byte a mod 4 * 16 + byte b div 16)
       # b64_char (byte b mod 16 * 4 + byte c div 64) # b64_char (byte c mod 64)
       # base64_EncodeToString s"

text \<open>The decoder of RFC 4648, for well-formed input.\<close>

definition b64_val :: "char \<Rightarrow> nat" where
  "b64_val c = length (takeWhile (\<lambda>x. x \<noteq> c) b64_alphabet)"

fun base64_decode :: "string \<Rightarrow> string" where
  "base64_decode (p # q # r # s # t) =
     (if r = CHR ''='' then [char_of (b64_val p * 4 + b64_val q div 16)]
      else if s = CHR ''='' then
        [char_of (b64_val p * 4 + b64_val q div 16), char_of (b64_val q mod 16 * 16 + b64_val r div 4)]
      else
        char_of (b64_val p * 4 + b64_val q div 16) # char_of (b64_val q mod 16 * 16 + b64_val r div 4)
          # char_of (b64_val r mod 4 * 64 + b64_val s) # base64_decode t)"
| "base64_decode _ = []"

lemma takeWhile_nth_distinct:
  "distinct xs \<Longrightarrow> n < length xs \<Longrightarrow> length (takeWhile (\<lambda>x. x \<noteq> xs ! n) xs) = n"
proof (induction xs arbitrary: n)
  case (Cons x xs)
  then show ?case by (cases n) auto
qed simp

lemma b64_alphabet_facts: "length b64_alphabet = 64" "distinct b64_alphabet" "CHR ''='' \<notin> set b64_alphabet"
  by (simp_all add: b64_alphabet_def)

lemma b64_val_char [simp]: "n < 64 \<Longrightarrow> b64_val (b64_char n) = n"
  using b64_alphabet_facts by (simp add: b64_val_def b64_char_def takeWhile_nth_distinct)

lemma b64_char_pad [simp]: "n < 64 \<Longrightarrow> b64_char n \<noteq> CHR ''=''"
  using b64_alphabet_facts by (metis b64_char_def nth_mem)

lemma byte_less [simp]: "byte c < 256"
  by (simp add: byte_def of_char_of)

lemma char_of_byte [simp]: "char_of (byte c) = c"
  by (simp add: byte_def)

lemma nat_split:
  fixes x y m :: nat
  assumes "x < m"
  shows "(y * m + x) div m = y" and "(y * m + x) mod m = x"
  using assms by simp_all

lemma byte_parts:
  "byte c div 4 < 64" "byte c div 16 < 16" "byte c div 64 < 4"
  "byte c mod 4 < 4" "byte c mod 16 < 16" "byte c mod 64 < 64"
  using byte_less [of c] by (simp_all add: less_mult_imp_div_less)

lemma sextet_less:
  "x < 4 \<Longrightarrow> y < 16 \<Longrightarrow> x * 16 + y < (64::nat)" "x < 16 \<Longrightarrow> y < 4 \<Longrightarrow> x * 4 + y < (64::nat)"
  "x < 4 \<Longrightarrow> x * 16 < (64::nat)" "x < 16 \<Longrightarrow> x * 4 < (64::nat)"
  by simp_all

lemmas sextets = sextet_less(1) [OF byte_parts(4) byte_parts(2)] sextet_less(2) [OF byte_parts(5) byte_parts(3)]
  sextet_less(3) [OF byte_parts(4)] sextet_less(4) [OF byte_parts(5)] byte_parts(1,6)

lemma byte_join [simp]:
  "byte c div 4 * 4 + byte c mod 4 = byte c" "byte c div 16 * 16 + byte c mod 16 = byte c"
  "byte c div 64 * 64 + byte c mod 64 = byte c"
  by (simp_all add: div_mult_mod_eq)

lemma base64_decode_encode: "base64_decode (base64_EncodeToString s) = s"
proof (induction s rule: base64_EncodeToString.induct)
  case (2 a)
  have "byte a mod 4 * 16 div 16 = byte a mod 4" by simp
  then show ?case by (simp add: sextets)
next
  case (3 a b)
  have "byte b mod 16 * 4 div 4 = byte b mod 16" by simp
  then show ?case
    by (simp only: sextets base64_EncodeToString.simps base64_decode.simps b64_val_char b64_char_pad
        nat_split [OF byte_parts(2)] byte_join char_of_byte if_False if_True refl simp_thms)
next
  case (4 a b c s)
  then show ?case
    by (simp only: sextets base64_EncodeToString.simps base64_decode.simps b64_val_char b64_char_pad
        nat_split [OF byte_parts(2)] nat_split [OF byte_parts(3)] byte_join char_of_byte if_False simp_thms)
qed simp

text \<open>The output is made of the alphabet and the padding, so it has no line break or blank.\<close>

lemma base64_charset: "set (base64_EncodeToString s) \<subseteq> insert (CHR ''='') (set b64_alphabet)"
proof -
  have *: "b64_char n \<in> set b64_alphabet" if "n < 64" for n
    using that b64_alphabet_facts(1) by (simp add: b64_char_def)
  show ?thesis
    by (induction s rule: base64_EncodeToString.induct) (simp_all add: * sextets del: mult.commute)
qed


subsection \<open>SHA-256\<close>

type_synonym w32 = "32 word"

text \<open>
  The constants are the first 32 bits of the fractional parts of the cube roots of the first 64 primes, and
  the initial state that of the square roots of the first eight: \<open>root_bits e n b r\<close> determines the lower \<open>b\<close>
  bits of the \<open>e\<close>-th root of \<open>n\<close>, below the bits \<open>r\<close> that are known.
\<close>

definition sha256_primes :: "int list" where
  "sha256_primes = filter (\<lambda>p. list_all (\<lambda>d. p \<le> d \<or> p mod d \<noteq> 0) [2, 3, 5, 7, 11, 13, 17]) [2..311]"

fun root_bits :: "nat \<Rightarrow> int \<Rightarrow> nat \<Rightarrow> int \<Rightarrow> int" where
  "root_bits e n 0 r = r"
| "root_bits e n (Suc b) r = root_bits e n b (if (r + 2 ^ b) ^ e \<le> n then r + 2 ^ b else r)"

definition frac_root :: "nat \<Rightarrow> int \<Rightarrow> w32" where
  "frac_root e p = of_int (root_bits e (p * 2 ^ (32 * e)) 35 0)"

definition sha256_K :: "w32 list" where
  "sha256_K = List.map (frac_root 3) sha256_primes"

definition sha256_init :: "w32 list" where
  "sha256_init = List.map (frac_root 2) (take 8 sha256_primes)"

lemma sha256_primes_length: "length sha256_primes = 64"
  by code_simp

definition rotr :: "nat \<Rightarrow> w32 \<Rightarrow> w32" where
  "rotr n x = drop_bit n x OR push_bit (32 - n) x"

text \<open>Padding: the bit 1, zeros up to 56 modulo 64 bytes, and the length in bits.\<close>

definition be_bytes :: "nat \<Rightarrow> int \<Rightarrow> int list" where
  "be_bytes k n = List.map (\<lambda>i. n div 256 ^ (k - 1 - i) mod 256) [0..<k]"

definition sha256_pad :: "int list \<Rightarrow> int list" where
  "sha256_pad m =
     m @ 128 # replicate ((119 - length m mod 64) mod 64) 0 @ be_bytes 8 (8 * int (length m))"

fun be_words :: "int list \<Rightarrow> w32 list" where
  "be_words (a # b # c # d # m) = of_int (((a * 256 + b) * 256 + c) * 256 + d) # be_words m"
| "be_words _ = []"

text \<open>The message schedule, newest word first, and one round.\<close>

fun sha256_schedule :: "nat \<Rightarrow> w32 list \<Rightarrow> w32 list" where
  "sha256_schedule 0 ws = ws"
| "sha256_schedule (Suc n) ws =
     (let w15 = ws ! 14; w2 = ws ! 1;
          s0 = rotr 7 w15 XOR rotr 18 w15 XOR drop_bit 3 w15;
          s1 = rotr 17 w2 XOR rotr 19 w2 XOR drop_bit 10 w2
      in sha256_schedule n ((ws ! 15 + s0 + ws ! 6 + s1) # ws))"

fun sha256_round :: "w32 list \<Rightarrow> w32 \<times> w32 \<Rightarrow> w32 list" where
  "sha256_round [a, b, c, d, e, f, g, h] (k, w) =
     (let S1 = rotr 6 e XOR rotr 11 e XOR rotr 25 e;
          ch = (e AND f) XOR (NOT e AND g);
          t1 = h + S1 + ch + k + w;
          S0 = rotr 2 a XOR rotr 13 a XOR rotr 22 a;
          maj = (a AND b) XOR (a AND c) XOR (b AND c);
          t2 = S0 + maj
      in [t1 + t2, a, b, c, d + t1, e, f, g])"
| "sha256_round st _ = st"

definition sha256_block :: "w32 list \<Rightarrow> w32 list \<Rightarrow> w32 list" where
  "sha256_block st block =
     map2 (+) st (fold (\<lambda>kw st. sha256_round st kw) (zip sha256_K (rev (sha256_schedule 48 (rev block)))) st)"

fun sha256_blocks :: "nat \<Rightarrow> w32 list \<Rightarrow> w32 list \<Rightarrow> w32 list" where
  "sha256_blocks 0 st ws = st"
| "sha256_blocks (Suc n) st ws = sha256_blocks n (sha256_block st (take 16 ws)) (drop 16 ws)"

definition sha256_words :: "string \<Rightarrow> w32 list" where
  "sha256_words s = (let ws = be_words (sha256_pad (List.map of_char s)) in
     sha256_blocks (length ws div 16) sha256_init ws)"

definition hex_word :: "w32 \<Rightarrow> string" where
  "hex_word w = List.map (\<lambda>i. hex_digit (nat (uint w div 16 ^ (7 - i) mod 16))) [0..<8]"

text \<open>\<open>hex.EncodeToString\<close> of \<open>sha256.Sum256\<close>.\<close>

definition sha256_hex :: "string \<Rightarrow> string" where
  "sha256_hex s = concat (List.map hex_word (sha256_words s))"

end
