(* ===== verification/Git.thy ===== *)
theory Git
  imports Credentials Go_Crypto
begin

section \<open>The repository cache: package internal/git\<close>

text \<open>
  \<open>internal/git/repository.go\<close>: one bare mirror per repository and one working tree per commit, both below
  the cache directory, shared by all reconciles (and, on a shared volume, by several processes), so
  guarded by lock files. The file system, the clock and the git binary are the world's; the functions of
  \<open>path/filepath\<close>, \<open>strings\<close>, \<open>base64\<close>, \<open>sha256\<close> are those of the theories they are modelled in.

  \<open>withLock\<close> retries until its deadline, for as long as the clock lets it: it takes fuel, and \<open>None\<close> is
  running out of it. \<open>lock_loop_returns\<close> of \<open>Git_Lock\<close> says how much is enough.
\<close>

record git_auth =
  ga_args :: "string list"
  ga_env :: "string list"
  ga_cleanup :: "string option" \<comment> \<open>the directory that the cleanup function removes\<close>


subsection \<open>Small functions\<close>

definition hex_char :: "char \<Rightarrow> bool" where
  "hex_char c \<longleftrightarrow> (let n = (of_char c :: nat) in
     48 \<le> n \<and> n \<le> 57 \<or> 65 \<le> n \<and> n \<le> 70 \<or> 97 \<le> n \<and> n \<le> 102)"

text \<open>The regular expression \<open>^[a-fA-F0-9]{40}$\<close>.\<close>

definition sha1Re :: "string \<Rightarrow> bool" where
  "sha1Re s \<longleftrightarrow> length s = 40 \<and> list_all hex_char s"

definition redact :: "string \<Rightarrow> string" where
  "redact s = s"

definition repoHash :: "string \<Rightarrow> string" where
  "repoHash repoURL = sha256_hex repoURL"

definition cacheRoot :: "'o env \<Rightarrow> string \<Rightarrow> string" where
  "cacheRoot env cacheDir =
     (if cacheDir \<noteq> [] then cacheDir else PathJoin [os_TempDir (env_os env), ''cabure-cache''])"

definition git_isSSHRepositoryURL :: "string \<Rightarrow> bool" where
  "git_isSSHRepositoryURL repoURL \<longleftrightarrow> HasPrefix repoURL ''ssh://'' \<or> sshSCPStyle repoURL"

definition shellQuote :: "string \<Rightarrow> string" where
  "shellQuote value = Quote value"

definition isGitRemoteMissing :: "gerror \<Rightarrow> bool" where
  "isGitRemoteMissing err \<longleftrightarrow> (let msg = error_string err in
     Contains msg ''remote origin'' \<or> Contains msg ''No such remote''
     \<or> Contains msg ''does not have a remote called'')"

definition isConfigCorruptionError :: "gerror \<Rightarrow> bool" where
  "isConfigCorruptionError err \<longleftrightarrow> (let msg = ToLower (error_string err) in
     Contains msg ''bad config line'' \<or> Contains msg ''unable to read config file''
     \<or> Contains msg ''could not read config file'' \<or> Contains msg ''error reading config file'')"

definition authHeader :: "credentials option \<Rightarrow> string" where
  "authHeader creds =
     (case creds of
        None \<Rightarrow> []
      | Some c \<Rightarrow>
          (let username = cr_username c;
               password = (if cr_password c = [] \<and> cr_token c \<noteq> [] then cr_token c else cr_password c)
           in if username = [] \<and> password = [] then []
              else base64_EncodeToString
                     ((if username = [] then ''x-access-token'' else username) @ '':'' @ password)))"


subsection \<open>Running git\<close>

fun firstExistingBinary :: "'o env \<Rightarrow> string \<Rightarrow> string list \<Rightarrow> ('o, string) prog" where
  "firstExistingBinary env name [] = State_Monad.return name"
| "firstExistingBinary env name (candidate # candidates) = do {
     r \<leftarrow> osStat env candidate;
     (case r of
        Inr _ \<Rightarrow> State_Monad.return candidate
      | Inl _ \<Rightarrow> firstExistingBinary env name candidates)
   }"

definition gitBinaryPath :: "'o env \<Rightarrow> ('o, string) prog" where
  "gitBinaryPath env = firstExistingBinary env ''git'' [''/usr/bin/git'', ''/bin/git'']"

definition sshBinaryPath :: "'o env \<Rightarrow> ('o, string) prog" where
  "sshBinaryPath env = firstExistingBinary env ''ssh'' [''/usr/bin/ssh'', ''/bin/ssh'']"

definition auth_args :: "git_auth option \<Rightarrow> string list" where
  "auth_args auth = (case auth of None \<Rightarrow> [] | Some a \<Rightarrow> ga_args a)"

definition auth_env :: "git_auth option \<Rightarrow> string list" where
  "auth_env auth = (case auth of None \<Rightarrow> [] | Some a \<Rightarrow> ga_env a)"

definition runGitCommand ::
  "'o env \<Rightarrow> string \<Rightarrow> git_auth option \<Rightarrow> string list \<Rightarrow> ('o, string result) prog" where
  "runGitCommand env dir auth args = do {
     bin \<leftarrow> gitBinaryPath env;
     (output, err) \<leftarrow> osRunGit env bin dir
        ([''GIT_TERMINAL_PROMPT=0'', ''GIT_ASKPASS=true''] @ auth_env auth) (auth_args auth @ args);
     (case err of
        Some e \<Rightarrow> State_Monad.return
          (Inl (Wrapf (''git '' @ Join args '' '' @ '': '') e ('': '' @ redact output)))
      | None \<Rightarrow> State_Monad.return (Inr output))
   }"

definition runGit :: "'o env \<Rightarrow> string \<Rightarrow> git_auth option \<Rightarrow> string list \<Rightarrow> ('o, gerror option) prog" where
  "runGit env dir auth args = do {
     r \<leftarrow> runGitCommand env dir auth args;
     State_Monad.return (case r of Inl err \<Rightarrow> Some err | Inr _ \<Rightarrow> None)
   }"

definition runGitOutput :: "'o env \<Rightarrow> string \<Rightarrow> git_auth option \<Rightarrow> string list \<Rightarrow> ('o, string result) prog" where
  "runGitOutput env dir auth args = runGitCommand env dir auth args"


subsection \<open>Authentication\<close>

text \<open>
  The SSH branch of \<open>prepareAuth\<close>: \<open>write_keys\<close> writes the two files into the directory that was made
  (mode 0600) and removes it again if that fails.
\<close>

definition write_keys ::
  "'o env \<Rightarrow> string \<Rightarrow> string \<Rightarrow> string \<Rightarrow> credentials \<Rightarrow> ('o, gerror option) prog" where
  "write_keys env authDir privateKeyPath knownHostsPath c = do {
     w1 \<leftarrow> osWriteFile env privateKeyPath (cr_sshPrivateKey c) 384;
     (case w1 of
        Some err \<Rightarrow> do { _ \<leftarrow> osRemoveAll env authDir; State_Monad.return (Some err) }
      | None \<Rightarrow> do {
          w2 \<leftarrow> osWriteFile env knownHostsPath (cr_knownHosts c) 384;
          (case w2 of
             Some err \<Rightarrow> do { _ \<leftarrow> osRemoveAll env authDir; State_Monad.return (Some err) }
           | None \<Rightarrow> State_Monad.return None)
        })
   }"

definition ssh_auth :: "string \<Rightarrow> string \<Rightarrow> string \<Rightarrow> string \<Rightarrow> git_auth" where
  "ssh_auth ssh privateKeyPath knownHostsPath authDir =
     \<lparr>ga_args = [],
      ga_env = [''GIT_SSH_COMMAND='' @ ssh @ '' -F /dev/null -i '' @ shellQuote privateKeyPath
        @ '' -o IdentitiesOnly=yes -o BatchMode=yes -o StrictHostKeyChecking=yes -o UserKnownHostsFile=''
        @ shellQuote knownHostsPath],
      ga_cleanup = Some authDir\<rparr>"

definition prepare_ssh :: "'o env \<Rightarrow> string \<Rightarrow> credentials \<Rightarrow> ('o, git_auth option result) prog" where
  "prepare_ssh env base c = do {
     let authRoot = PathJoin [base, ''auth''];
     e1 \<leftarrow> osMkdirAll env authRoot;
     (case e1 of
        Some err \<Rightarrow> State_Monad.return (Inl err)
      | None \<Rightarrow> do {
          t \<leftarrow> osMkdirTemp env authRoot ''ssh-*'';
          (case t of
             Inl err \<Rightarrow> State_Monad.return (Inl err)
           | Inr authDir \<Rightarrow> do {
               let privateKeyPath = PathJoin [authDir, ''id_ed25519''];
               let knownHostsPath = PathJoin [authDir, ''known_hosts''];
               w \<leftarrow> write_keys env authDir privateKeyPath knownHostsPath c;
               (case w of
                  Some err \<Rightarrow> State_Monad.return (Inl err)
                | None \<Rightarrow> do {
                    ssh \<leftarrow> sshBinaryPath env;
                    State_Monad.return (Inr (Some (ssh_auth ssh privateKeyPath knownHostsPath authDir)))
                  })
             })
        })
   }"

definition prepareAuth ::
  "'o env \<Rightarrow> string \<Rightarrow> string \<Rightarrow> credentials option \<Rightarrow> ('o, git_auth option result) prog" where
  "prepareAuth env base repoURL creds =
     (if git_isSSHRepositoryURL repoURL then
        (case creds of
           None \<Rightarrow> State_Monad.return (Inl (Errorf
             ''SSH repository requires ssh-privatekey and known_hosts credentials''))
         | Some c \<Rightarrow>
             if length (cr_sshPrivateKey c) = 0 \<or> length (cr_knownHosts c) = 0 then
               State_Monad.return (Inl (Errorf
                 ''SSH repository requires ssh-privatekey and known_hosts credentials''))
             else prepare_ssh env base c)
      else if authHeader creds \<noteq> [] then
        State_Monad.return (Inr (Some \<lparr>ga_args = [''-c'', ''http.extraHeader=Authorization: Basic '' @ authHeader creds],
          ga_env = [], ga_cleanup = None\<rparr>))
      else State_Monad.return (Inr None))"

text \<open>The deferred call of \<open>auth.cleanup\<close>.\<close>

definition cleanup_auth :: "'o env \<Rightarrow> git_auth option \<Rightarrow> ('o, unit) prog" where
  "cleanup_auth env auth =
     (case auth of
        None \<Rightarrow> State_Monad.return ()
      | Some a \<Rightarrow>
          (case ga_cleanup a of
             None \<Rightarrow> State_Monad.return ()
           | Some authDir \<Rightarrow> do { _ \<leftarrow> osRemoveAll env authDir; State_Monad.return () }))"


subsection \<open>The mirror\<close>

text \<open>
  \<open>ensureMirrorAttempt\<close> calls itself once, with \<open>recovered\<close> set, after it threw a corrupted mirror
  away. \<open>mirror_body\<close> is its body; \<open>retry\<close> is that call, and \<open>None\<close> when \<open>recovered\<close> is already set.
\<close>

definition recover_mirror ::
  "'o env \<Rightarrow> string \<Rightarrow> ('o, gerror option) prog \<Rightarrow> ('o, gerror option) prog" where
  "recover_mirror env mirrorDir retry = do {
     rm \<leftarrow> osRemoveAll env mirrorDir;
     (case rm of Some rmErr \<Rightarrow> State_Monad.return (Some rmErr) | None \<Rightarrow> retry)
   }"

definition fetch_args :: "string list" where
  "fetch_args = [''fetch'', ''--prune'', ''--tags'', ''--force'', ''--prune-tags'', ''origin'',
     ''+refs/heads/*:refs/remotes/origin/*'', ''+refs/tags/*:refs/tags/*'']"

definition mirror_fetch ::
  "'o env \<Rightarrow> string \<Rightarrow> git_auth option \<Rightarrow> ('o, gerror option) prog option \<Rightarrow> ('o, gerror option) prog" where
  "mirror_fetch env mirrorDir auth retry = do {
     f \<leftarrow> runGit env mirrorDir auth fetch_args;
     (case f of
        None \<Rightarrow> State_Monad.return None
      | Some err \<Rightarrow>
          (case retry of
             Some again \<Rightarrow>
               if isConfigCorruptionError err then recover_mirror env mirrorDir again
               else State_Monad.return (Some err)
           | None \<Rightarrow> State_Monad.return (Some err)))
   }"

definition mirror_remote ::
  "'o env \<Rightarrow> string \<Rightarrow> string \<Rightarrow> git_auth option \<Rightarrow> ('o, gerror option) prog option \<Rightarrow> ('o, gerror option) prog" where
  "mirror_remote env mirrorDir repoURL auth retry = do {
     _ \<leftarrow> runGit env mirrorDir auth [''remote'', ''remove'', ''origin''];
     a \<leftarrow> runGit env mirrorDir auth [''remote'', ''add'', ''origin'', repoURL];
     (case a of
        None \<Rightarrow> mirror_fetch env mirrorDir auth retry
      | Some err \<Rightarrow>
          if retry \<noteq> None \<and> isConfigCorruptionError err then
            recover_mirror env mirrorDir (the retry)
          else if \<not> Contains (error_string err) ''already exists'' then State_Monad.return (Some err)
          else mirror_fetch env mirrorDir auth retry)
   }"

definition mirror_body ::
  "'o env \<Rightarrow> string \<Rightarrow> string \<Rightarrow> git_auth option \<Rightarrow> ('o, gerror option) prog option \<Rightarrow> ('o, gerror option) prog" where
  "mirror_body env mirrorDir repoURL auth retry = do {
     s \<leftarrow> osStat env (PathJoin [mirrorDir, ''HEAD'']);
     (case s of
        Inr _ \<Rightarrow> mirror_remote env mirrorDir repoURL auth retry
      | Inl e \<Rightarrow>
          if is_os ErrNotExist e then do {
            i \<leftarrow> runGit env [] auth [''init'', ''--bare'', mirrorDir];
            (case i of
               None \<Rightarrow> mirror_remote env mirrorDir repoURL auth retry
             | Some err \<Rightarrow>
                 if retry \<noteq> None \<and> isConfigCorruptionError err then
                   recover_mirror env mirrorDir (the retry)
                 else State_Monad.return (Some err))
          }
          else mirror_remote env mirrorDir repoURL auth retry)
   }"

definition ensureMirrorAttempt ::
  "'o env \<Rightarrow> string \<Rightarrow> string \<Rightarrow> git_auth option \<Rightarrow> bool \<Rightarrow> ('o, gerror option) prog" where
  "ensureMirrorAttempt env mirrorDir repoURL auth recovered =
     (if recovered then mirror_body env mirrorDir repoURL auth None
      else mirror_body env mirrorDir repoURL auth (Some (mirror_body env mirrorDir repoURL auth None)))"

definition ensureMirror ::
  "'o env \<Rightarrow> string \<Rightarrow> string \<Rightarrow> git_auth option \<Rightarrow> ('o, gerror option) prog" where
  "ensureMirror env mirrorDir repoURL auth = ensureMirrorAttempt env mirrorDir repoURL auth False"

text \<open>The recursion equation of the Go function.\<close>

lemma ensureMirrorAttempt_rec:
  "ensureMirrorAttempt env mirrorDir repoURL auth recovered =
     mirror_body env mirrorDir repoURL auth
       (if recovered then None else Some (ensureMirrorAttempt env mirrorDir repoURL auth True))"
  by (simp add: ensureMirrorAttempt_def)


subsection \<open>Revisions\<close>

definition resolveRevision ::
  "'o env \<Rightarrow> string \<Rightarrow> string \<Rightarrow> git_auth option \<Rightarrow> ('o, string result) prog" where
  "resolveRevision env mirrorDir revision auth =
     (if sha1Re revision then do {
        v \<leftarrow> runGit env mirrorDir auth [''rev-parse'', ''--verify'', revision @ ''^{commit}''];
        (case v of
           Some err \<Rightarrow> State_Monad.return (Inl (Wrapf (''verify commit '' @ revision @ '': '') err []))
         | None \<Rightarrow> State_Monad.return (Inr (ToLower revision)))
      }
      else do {
        r \<leftarrow> runGitOutput env mirrorDir auth [''ls-remote'', ''--refs'', ''origin'', revision];
        (case r of
           Inl err \<Rightarrow> State_Monad.return (Inl err)
         | Inr out \<Rightarrow>
             State_Monad.return (case Fields (TrimSpace out) of
                [] \<Rightarrow> Inl (Errorf (''revision '' @ Quote revision @ '' not found''))
              | sha # _ \<Rightarrow>
                  if \<not> sha1Re sha then
                    Inl (Errorf (''unexpected revision response for '' @ Quote revision))
                  else Inr sha))
      })"


subsection \<open>Locks\<close>

fun lock_loop ::
  "nat \<Rightarrow> 'o env \<Rightarrow> string \<Rightarrow> time \<Rightarrow> ('o, gerror option) prog \<Rightarrow> ('o, gerror option option) prog" where
  "lock_loop 0 env path deadline fn = State_Monad.return None"
| "lock_loop (Suc fuel) env path deadline fn = do {
     o1 \<leftarrow> osOpenLock env path;
     (case o1 of
        Some err \<Rightarrow> State_Monad.return (Some (Some err))
      | None \<Rightarrow> do {
          f \<leftarrow> osFlockTry env path;
          (case f of
             None \<Rightarrow> do {
               r \<leftarrow> fn;
               _ \<leftarrow> osFlockUnlock path;
               _ \<leftarrow> osCloseLock path;
               State_Monad.return (Some r)
             }
           | Some err \<Rightarrow> do {
               _ \<leftarrow> osCloseLock path;
               if \<not> is_os EWouldBlock err \<and> \<not> is_os EAgain err then State_Monad.return (Some (Some err))
               else do {
                 now \<leftarrow> Now env;
                 if deadline < now then
                   State_Monad.return (Some (Some (Errorf (''timed out waiting for lock '' @ path))))
                 else do {
                   _ \<leftarrow> osSleep (100 * Millisecond);
                   lock_loop fuel env path deadline fn
                 }
               }
             })
        })
   }"

definition withLock ::
  "nat \<Rightarrow> 'o env \<Rightarrow> string \<Rightarrow> duration \<Rightarrow> ('o, gerror option) prog \<Rightarrow> ('o, gerror option option) prog" where
  "withLock fuel env path timeout fn = do {
     start \<leftarrow> Now env;
     lock_loop fuel env path (start + timeout) fn
   }"


subsection \<open>Checkout\<close>

text \<open>
  The closure under the second lock: \<open>clone_into\<close>, and \<open>move_clone\<close> at its end, return their result together
  with the value of \<open>cleanupDir\<close> at that point, \<open>populate\<close> runs the deferred function.
\<close>

definition move_clone :: "'o env \<Rightarrow> string \<Rightarrow> string \<Rightarrow> ('o, gerror option \<times> string) prog" where
  "move_clone env tempDir finalDir = do {
     r \<leftarrow> osRename env tempDir finalDir;
     (case r of
        None \<Rightarrow> State_Monad.return (None, [])
      | Some err \<Rightarrow>
          if is_os ErrExist err then State_Monad.return (None, [])
          else do {
            st \<leftarrow> osStat env finalDir;
            (case st of
               Inr _ \<Rightarrow> State_Monad.return (None, [])
             | Inl _ \<Rightarrow> State_Monad.return (Some err, tempDir))
          })
   }"

definition clone_into ::
  "'o env \<Rightarrow> string \<Rightarrow> string \<Rightarrow> string \<Rightarrow> string \<Rightarrow> git_auth option \<Rightarrow> ('o, gerror option \<times> string) prog" where
  "clone_into env mirrorDir tempDir finalDir sha auth = do {
     c \<leftarrow> runGit env mirrorDir auth [''clone'', ''--no-checkout'', mirrorDir, tempDir];
     (case c of
        Some err \<Rightarrow> State_Monad.return (Some err, tempDir)
      | None \<Rightarrow> do {
          k \<leftarrow> runGit env tempDir auth [''checkout'', ''--force'', ''--detach'', sha];
          (case k of
             Some err \<Rightarrow> State_Monad.return (Some err, tempDir)
           | None \<Rightarrow> move_clone env tempDir finalDir)
        })
   }"

definition populate ::
  "'o env \<Rightarrow> string \<Rightarrow> string \<Rightarrow> string \<Rightarrow> string \<Rightarrow> git_auth option \<Rightarrow> ('o, gerror option) prog" where
  "populate env mirrorDir checkoutDir finalDir sha auth = do {
     st \<leftarrow> osStat env finalDir;
     if st = Inr True then State_Monad.return None
     else do {
       t \<leftarrow> osMkdirTemp env checkoutDir ''tmp-*'';
       (case t of
          Inl err \<Rightarrow> State_Monad.return (Some err)
        | Inr tempDir \<Rightarrow> do {
            (r, cleanupDir) \<leftarrow> clone_into env mirrorDir tempDir finalDir sha auth;
            (if cleanupDir \<noteq> [] then do { _ \<leftarrow> osRemoveAll env cleanupDir; State_Monad.return r }
             else State_Monad.return r)
          })
     }
   }"

type_synonym checkout_result = "(string \<times> string) result option"

text \<open>The part of \<open>Checkout\<close> after the revision is known.\<close>

definition checkout_tree ::
  "nat \<Rightarrow> 'o env \<Rightarrow> string \<Rightarrow> string \<Rightarrow> string \<Rightarrow> git_auth option \<Rightarrow> ('o, checkout_result) prog" where
  "checkout_tree fuel env mirrorDir checkoutDir sha auth = do {
     let finalDir = PathJoin [checkoutDir, sha];
     st \<leftarrow> osStat env finalDir;
     if st = Inr True then State_Monad.return (Some (Inr (finalDir, sha)))
     else do {
       l \<leftarrow> withLock fuel env (finalDir @ ''.lockfile'') (30 * Second)
             (populate env mirrorDir checkoutDir finalDir sha auth);
       (case l of
          None \<Rightarrow> State_Monad.return None
        | Some (Some err) \<Rightarrow> State_Monad.return (Some (Inl err))
        | Some None \<Rightarrow> State_Monad.return (Some (Inr (finalDir, sha))))
     }
   }"

text \<open>The part of \<open>Checkout\<close> between the authentication and its cleanup.\<close>

definition checkout_locked ::
  "nat \<Rightarrow> 'o env \<Rightarrow> string \<Rightarrow> string \<Rightarrow> string \<Rightarrow> string \<Rightarrow> git_auth option \<Rightarrow> ('o, checkout_result) prog" where
  "checkout_locked fuel env mirrorDir checkoutDir repoURL revision auth = do {
     l \<leftarrow> withLock fuel env (mirrorDir @ ''.lockfile'') (30 * Second) (ensureMirror env mirrorDir repoURL auth);
     (case l of
        None \<Rightarrow> State_Monad.return None
      | Some (Some err) \<Rightarrow> State_Monad.return (Some (Inl err))
      | Some None \<Rightarrow> do {
          s \<leftarrow> resolveRevision env mirrorDir revision auth;
          (case s of
             Inl err \<Rightarrow> State_Monad.return (Some (Inl err))
           | Inr sha \<Rightarrow> checkout_tree fuel env mirrorDir checkoutDir sha auth)
        })
   }"

definition Checkout ::
  "nat \<Rightarrow> 'o env \<Rightarrow> string \<Rightarrow> string \<Rightarrow> string \<Rightarrow> credentials option \<Rightarrow> ('o, checkout_result) prog" where
  "Checkout fuel env cacheDir repoURL revision creds =
     (if repoURL = [] then State_Monad.return (Some (Inl (Errorf ''repository URL is required'')))
      else do {
        let revision' = (if revision = [] then ''main'' else revision);
        let base = cacheRoot env cacheDir;
        let repoKey = repoHash repoURL;
        let mirrorDir = PathJoin [base, ''mirrors'', repoKey @ ''.git''];
        let checkoutDir = PathJoin [base, ''checkouts'', repoKey];
        e1 \<leftarrow> osMkdirAll env (Dir mirrorDir);
        (case e1 of
           Some err \<Rightarrow> State_Monad.return (Some (Inl err))
         | None \<Rightarrow> do {
             e2 \<leftarrow> osMkdirAll env checkoutDir;
             (case e2 of
                Some err \<Rightarrow> State_Monad.return (Some (Inl err))
              | None \<Rightarrow> do {
                  a \<leftarrow> prepareAuth env base repoURL creds;
                  (case a of
                     Inl err \<Rightarrow> State_Monad.return (Some (Inl err))
                   | Inr auth \<Rightarrow> do {
                       r \<leftarrow> checkout_locked fuel env mirrorDir checkoutDir repoURL revision' auth;
                       _ \<leftarrow> cleanup_auth env auth;
                       State_Monad.return r
                     })
                })
           })
      })"

end
