(* ===== verification/Helm_Values.thy ===== *)
theory Helm_Values
  imports Go_Std "HOL-Library.AList"
begin

section \<open>Merging Helm values: deepMerge of internal/render/helm.go\<close>

text \<open>
  The values of a chart as Go has them after decoding: \<open>VMap\<close> is a \<open>map[string]any\<close>, \<open>VValues\<close> a
  \<open>chartutil.Values\<close>. The two have the same contents but are different dynamic types, which the type
  assertions of \<open>deepMerge\<close> tell apart. A Go map is an association list with one entry per key, in the order
  in which the program happens to range over it; assignment to a key is \<open>AList.update\<close>.
\<close>

datatype govalue =
    VNull
  | VBool bool
  | VNumber string
  | VString string
  | VList "govalue list"
  | VMap "(string \<times> govalue) list"
  | VValues "(string \<times> govalue) list"

type_synonym gomap = "(string \<times> govalue) list"

text \<open>\<open>deepMerge\<close> changes \<open>dst\<close> in place; here it returns it.\<close>

fun deepMerge :: "gomap \<Rightarrow> gomap \<Rightarrow> gomap"
  and merge_values :: "govalue \<Rightarrow> govalue \<Rightarrow> govalue" where
  "deepMerge dst [] = dst"
| "deepMerge dst ((key, v) # src) =
     deepMerge (AList.update key
       (case map_of dst key of None \<Rightarrow> v | Some existing \<Rightarrow> merge_values existing v) dst) src"
| "merge_values (VMap dstMap) (VMap srcMap) = VValues (deepMerge dstMap srcMap)"
| "merge_values existing v = v"


subsection \<open>What a merge contains\<close>

lemma deepMerge_lookup:
  "distinct (List.map fst src) \<Longrightarrow> map_of (deepMerge dst src) k =
     (case map_of src k of
        None \<Rightarrow> map_of dst k
      | Some v \<Rightarrow> Some (case map_of dst k of None \<Rightarrow> v | Some existing \<Rightarrow> merge_values existing v))"
proof (induction src arbitrary: dst)
  case (Cons e src)
  obtain key v where e: "e = (key, v)" by fastforce
  let ?new = "case map_of dst key of None \<Rightarrow> v | Some existing \<Rightarrow> merge_values existing v"
  have "map_of src key = None" using Cons.prems by (auto simp: e map_of_eq_None_iff image_iff)
  with Cons.IH [of "AList.update key ?new dst"] Cons.prems show ?case
    by (auto simp: e update_conv' split: option.split)
qed simp

text \<open>The value at a path, and the well-formed and the freshly decoded values.\<close>

fun fields :: "govalue \<Rightarrow> gomap option" where
  "fields (VMap m) = Some m"
| "fields (VValues m) = Some m"
| "fields _ = None"

fun value_at :: "string list \<Rightarrow> govalue \<Rightarrow> govalue option" where
  "value_at [] v = Some v"
| "value_at (k # ks) v =
     (case fields v of
        None \<Rightarrow> None
      | Some m \<Rightarrow> (case map_of m k of None \<Rightarrow> None | Some w \<Rightarrow> value_at ks w))"

definition leaf :: "govalue \<Rightarrow> bool" where
  "leaf v \<longleftrightarrow> fields v = None"

fun decoded :: "govalue \<Rightarrow> bool" and decoded_map :: "gomap \<Rightarrow> bool" where
  "decoded (VMap m) \<longleftrightarrow> distinct (List.map fst m) \<and> decoded_map m"
| "decoded (VValues m) \<longleftrightarrow> False"
| "decoded _ \<longleftrightarrow> True"
| "decoded_map [] \<longleftrightarrow> True"
| "decoded_map ((k, v) # m) \<longleftrightarrow> decoded v \<and> decoded_map m"

lemma decoded_map_lookup: "decoded_map m \<Longrightarrow> map_of m k = Some v \<Longrightarrow> decoded v"
  by (induction m) (auto split: if_splits)

text \<open>The later file decides what is found at a path if it has anything there, or a leaf on the way.\<close>

fun decides :: "gomap \<Rightarrow> string list \<Rightarrow> bool" where
  "decides src [] \<longleftrightarrow> False"
| "decides src [k] \<longleftrightarrow> map_of src k \<noteq> None"
| "decides src (k # k' # ks) \<longleftrightarrow>
     (case map_of src k of
        None \<Rightarrow> False
      | Some (VMap m) \<Rightarrow> decides m (k' # ks)
      | Some _ \<Rightarrow> True)"

lemma value_at_update:
  "fields v = Some m \<Longrightarrow> value_at (k # ks) v = (case map_of m k of None \<Rightarrow> None | Some w \<Rightarrow> value_at ks w)"
  by simp

lemma merge_overrides:
  assumes "decoded (VMap src)" and "ks \<noteq> []" and "value_at ks (VMap src) = Some x" and "leaf x"
  shows "value_at ks (VMap (deepMerge dst src)) = Some x"
  using assms
proof (induction ks arbitrary: src dst)
  case (Cons k ks)
  from Cons.prems obtain v where v: "map_of src k = Some v" "value_at ks v = Some x"
    by (auto split: option.splits)
  have d: "distinct (List.map fst src)" "decoded v"
    using Cons.prems(1) v(1) by (auto intro: decoded_map_lookup)
  show ?case
  proof (cases "\<exists>dm sm. map_of dst k = Some (VMap dm) \<and> v = VMap sm")
    case True
    then obtain dm sm where m: "map_of dst k = Some (VMap dm)" "v = VMap sm" by blast
    have "ks \<noteq> []" using v(2) m(2) Cons.prems(4) by (cases ks) (auto simp: leaf_def)
    from Cons.IH [OF d(2) [unfolded m(2)] this v(2) [unfolded m(2)] Cons.prems(4)]
    have "value_at ks (VMap (deepMerge dm sm)) = Some x" .
    with \<open>ks \<noteq> []\<close> show ?thesis
      by (cases ks) (simp_all add: deepMerge_lookup [OF d(1)] v(1) m)
  next
    case False
    have "merge_values e v = v" if "map_of dst k = Some e" for e
      using False that by (cases "(e, v)" rule: merge_values.cases) simp_all
    with v show ?thesis by (auto simp: deepMerge_lookup [OF d(1)] split: option.split)
  qed
qed simp

lemma merge_keeps:
  assumes "decoded (VMap src)" and "decoded (VMap dst)" and "value_at ks (VMap dst) = Some x" and "leaf x"
    and "\<not> decides src ks"
  shows "value_at ks (VMap (deepMerge dst src)) = Some x"
  using assms
proof (induction src ks arbitrary: dst rule: decides.induct)
  case (2 src k)
  then have none: "map_of src k = None" by (simp only: decides.simps not_not)
  from 2 have d: "distinct (List.map fst src)" by simp
  have "map_of (deepMerge dst src) k = map_of dst k" by (simp only: deepMerge_lookup [OF d] none option.case)
  with 2(3) show ?case by simp
next
  case (3 src k k' ks)
  have d: "distinct (List.map fst src)" using 3(2) by simp
  show ?case
  proof (cases "map_of src k")
    case None
    with 3(4) show ?thesis by (simp add: deepMerge_lookup [OF d] del: value_at.simps add: value_at.simps(2) [of k])
  next
    case (Some v)
    with 3(6) obtain sm where sm: "v = VMap sm" "\<not> decides sm (k' # ks)" by (cases v) auto
    from 3(4) obtain w where w: "map_of dst k = Some w" "value_at (k' # ks) w = Some x"
      by (auto split: option.splits)
    have "decoded w" using 3(3) w(1) by (auto intro: decoded_map_lookup)
    with w(2) obtain dm where dm: "w = VMap dm" by (cases w) auto
    have "decoded_map src" using 3(2) by simp
    from decoded_map_lookup [OF this Some] have "decoded (VMap sm)" by (simp only: sm(1))
    with 3(1) [OF Some sm(1) this _ w(2) [unfolded dm] 3(5) sm(2)] \<open>decoded w\<close> dm
    have "value_at (k' # ks) (VMap (deepMerge dm sm)) = Some x" by simp
    then show ?thesis by (simp add: deepMerge_lookup [OF d] Some w(1) dm sm(1))
  qed
qed (auto simp: leaf_def)


subsection \<open>Properties\<close>

text \<open>
  Merging a second values file over a first one is Helm's deep merge: wherever the second file has a
  leaf, the result has it, at any depth; and a leaf of the first file survives wherever the second file says
  nothing about it.
\<close>

lemma values_merge_two:
  assumes "decoded (VMap dst)" and "decoded (VMap src)" and "ks \<noteq> []" and "leaf x"
    and "value_at ks (VMap src) = Some x \<or> value_at ks (VMap dst) = Some x \<and> \<not> decides src ks"
  shows "value_at ks (VMap (deepMerge dst src)) = Some x"
  using assms by (auto intro: merge_overrides merge_keeps)

definition s_values :: "string \<Rightarrow> govalue \<Rightarrow> gomap" where
  "s_values k v = [(''image'', VMap [(k, v)])]"

theorem values_merge_two_witness:
  "value_at [''image'', ''repo''] (VMap (deepMerge (s_values ''repo'' (VString ''r'')) (s_values ''tag'' (VString ''t''))))
     = Some (VString ''r'')"
  by (rule values_merge_two) (simp_all add: s_values_def leaf_def)

text \<open>
  With a third values file the merge is not deep any more: a map that both earlier files set is a
  \<open>chartutil.Values\<close> by then, the type assertion fails, and whatever the third file has under that key replaces
  all that the first two had there.
\<close>

lemma third_values_file_replaces:
  assumes "distinct (List.map fst a)" and "distinct (List.map fst b)" and "distinct (List.map fst c)"
    and "map_of a k = Some (VMap m1)" and "map_of b k = Some (VMap m2)" and "map_of c k = Some v"
  shows "map_of (deepMerge (deepMerge (deepMerge [] a) b) c) k = Some v"
  using assms by (simp add: deepMerge_lookup)

theorem third_values_file_replaces_witness:
  "map_of (deepMerge (deepMerge (deepMerge [] (s_values ''repo'' (VString ''r''))) (s_values ''tag'' (VString ''t'')))
      (s_values ''pull'' (VBool True))) ''image'' = Some (VMap [(''pull'', VBool True)])
   \<and> value_at [''image'', ''repo''] (VMap (deepMerge (deepMerge [] (s_values ''repo'' (VString ''r'')))
        (s_values ''tag'' (VString ''t'')))) = Some (VString ''r'')"
  using third_values_file_replaces [of "s_values ''repo'' (VString ''r'')" "s_values ''tag'' (VString ''t'')"
      "s_values ''pull'' (VBool True)" "''image''"]
  by (simp add: s_values_def)

end
