(* ===== verification/Render_Facts.thy ===== *)
theory Render_Facts
  imports Paths World
begin

section \<open>What both renderers have in common\<close>

text \<open>
  The calls a renderer makes, and two predicates on its traces: everything it reads lies below the checkout
  root (\<open>reads_below\<close>), and right before every read the context was polled and was alive (\<open>polled_reads\<close>).
\<close>

definition alive :: "'o env \<Rightarrow> bool" where
  "alive env \<longleftrightarrow> (\<forall>h. env_ctxErr env h = None)"

lemma alive_ctxErr: "alive env \<Longrightarrow> run_state (ctxErr env) h = (None, h @ [CallCtxErr None])"
  by (simp add: alive_def ctxErr_def)

fun reads_below :: "string \<Rightarrow> 'o call \<Rightarrow> bool" where
  "reads_below root (CallOS (ReadFile p r)) \<longleftrightarrow> below root p"
| "reads_below root (CallOS (WalkTree p t)) \<longleftrightarrow> below root p"
| "reads_below root (CallOS (LoadChart p)) \<longleftrightarrow> below root p"
| "reads_below root (CallCtxErr e) \<longleftrightarrow> True"
| "reads_below root _ \<longleftrightarrow> False"

lemma reads_local: "reads_below root c \<Longrightarrow> is_local c"
  by (cases "(root, c)" rule: reads_below.cases) simp_all

fun reads_disk :: "'o call \<Rightarrow> bool" where
  "reads_disk (CallOS (ReadFile p r)) \<longleftrightarrow> True"
| "reads_disk (CallOS (WalkTree p t)) \<longleftrightarrow> True"
| "reads_disk (CallOS (LoadChart p)) \<longleftrightarrow> True"
| "reads_disk _ \<longleftrightarrow> False"

definition polled_reads :: "'o call list \<Rightarrow> bool" where
  "polled_reads = guarded reads_disk (\<lambda>c d. c = CallCtxErr None)"

text \<open>The same, when the context has just been polled.\<close>

definition polled_now :: "'o call list \<Rightarrow> bool" where
  "polled_now new \<longleftrightarrow> polled_reads (CallCtxErr None # new)"

interpretation polling: trace_property polled_reads
  unfolding polled_reads_def by (rule guards.trace_property_axioms)

lemma polled_none: "list_all (\<lambda>c. \<not> reads_disk c) new \<Longrightarrow> polled_reads new"
  unfolding polled_reads_def by (rule guarded_none)

lemma polled_now_reads: "polled_reads new \<Longrightarrow> polled_now new"
  using polling.T_append [OF polled_none [of "[CallCtxErr None]"], of new] by (simp add: polled_now_def)

lemma polled_now_one: "polled_now [c]"
  unfolding polled_now_def polled_reads_def by (rule guarded_pair) simp_all

lemma polled_now_append: "polled_now xs \<Longrightarrow> polled_reads ys \<Longrightarrow> polled_now (xs @ ys)"
  using polling.T_append [of "CallCtxErr None # xs" ys] by (simp add: polled_now_def)

text \<open>The rules, one per way to build a program.\<close>

lemma polled_emits: "emits (\<lambda>c. \<not> reads_disk c) m \<Longrightarrow> appends polled_reads m"
  by (erule polling.appends_emits) (rule polled_none)

lemma polled_now_plain: "appends polled_reads m \<Longrightarrow> appends polled_now m"
  by (erule appends_mono) (rule polled_now_reads)

lemma polled_now_bind:
  "appends polled_now m \<Longrightarrow> (\<And>a. appends polled_reads (f a)) \<Longrightarrow> appends polled_now (State_Monad.bind m f)"
  by (rule appends_bind [of polled_now _ polled_reads]) (simp_all add: polled_now_append)

lemma polled_now_os:
  "appends polled_now (osReadFile env p)" "appends polled_now (osWalkTree env p)"
  unfolding os_defs by (simp_all add: appends_def polled_now_one)

lemma polled_poll:
  assumes "appends polled_now (k None)" and "\<And>e. appends polled_reads (k (Some e))"
  shows "appends polled_reads (State_Monad.bind (ctxErr env) k)"
proof (rule appendsI)
  fix h r h' assume "run_state (State_Monad.bind (ctxErr env) k) h = (r, h')"
  then have run: "run_state (k (env_ctxErr env h)) (h @ [CallCtxErr (env_ctxErr env h)]) = (r, h')"
    by (simp add: ctxErr_def)
  show "\<exists>new. h' = h @ new \<and> polled_reads new"
  proof (cases "env_ctxErr env h")
    case None
    with assms(1) run obtain new where "h' = (h @ [CallCtxErr None]) @ new" "polled_now new"
      by (auto elim: appendsE)
    then show ?thesis by (intro exI [of _ "CallCtxErr None # new"]) (simp add: polled_now_def)
  next
    case (Some e)
    with assms(2) [of e] run obtain new where "h' = (h @ [CallCtxErr (Some e)]) @ new" "polled_reads new"
      by (auto elim: appendsE)
    then show ?thesis
      using polling.T_append [OF polled_none [of "[CallCtxErr (Some e)]"]]
      by (intro exI [of _ "CallCtxErr (Some e) # new"]) simp
  qed
qed

text \<open>Going down into a directory stays below the root.\<close>

lemma below_child:
  assumes "below root p" and "ordinary name"
  shows "below root (PathJoin [p, name])"
proof -
  from assms(1) have p: "p \<noteq> []" by (metis Clean_not_Nil below_def)
  from assms(1) obtain ds where "list_all ordinary ds" "path_comps p = path_comps root @ ds" "IsAbs p = IsAbs root"
    unfolding below_def by blast
  moreover from PathJoin_below [OF p, of "[name]"] assms(2) have "path_comps (PathJoin [p, name]) = path_comps p @ [name]"
    by simp
  ultimately show ?thesis
    using assms(2) p unfolding below_def
    by (intro conjI exI [of _ "ds @ [name]"]) (simp_all add: Clean_PathJoin IsAbs_PathJoin)
qed

end
