(* ===== verification/Yaml_Render.thy ===== *)
theory Yaml_Render
  imports Render_Facts
begin

section \<open>The YAML renderer: internal/render/yaml.go\<close>

text \<open>
  \<open>YAMLRenderer.Render\<close> walks the application's directory, refuses symbolic links, and decodes every
  \<open>.yaml\<close> and \<open>.yml\<close> file, in the order of their paths, into objects. The YAML reader and converter belong to
  k8s.io/apimachinery and are the record \<open>'o yaml_lib\<close>, together with the decoding of JSON into an
  \<open>Unstructured\<close>, whose type is theirs: \<open>yl_docs\<close> gives the documents that successive calls of \<open>Read\<close> return
  and the error that ends them (\<open>None\<close> for the end of the input).
\<close>

record 'o yaml_lib =
  yl_docs :: "string \<Rightarrow> string list \<times> gerror option"
  yl_ToJSON :: "string \<Rightarrow> string result"
  yl_Unmarshal :: "string \<Rightarrow> 'o result"


subsection \<open>Documents\<close>

definition doc_error :: "string \<Rightarrow> nat \<Rightarrow> gerror \<Rightarrow> gerror" where
  "doc_error source docIndex err = Wrapf (source @ '' document '' @ itoa (docIndex + 1) @ '': '') err []"

fun decode_docs ::
  "'o env \<Rightarrow> 'o yaml_lib \<Rightarrow> string \<Rightarrow> nat \<Rightarrow> string list \<Rightarrow> gerror option \<Rightarrow> 'o option list
     \<Rightarrow> ('o, 'o option list result) prog" where
  "decode_docs env y source docIndex [] readErr out = do {
     c \<leftarrow> ctxErr env;
     State_Monad.return (case c of
        Some err \<Rightarrow> Inl err
      | None \<Rightarrow> (case readErr of None \<Rightarrow> Inr out | Some err \<Rightarrow> Inl (doc_error source docIndex err)))
   }"
| "decode_docs env y source docIndex (doc # docs) readErr out = do {
     c \<leftarrow> ctxErr env;
     (case c of
        Some err \<Rightarrow> State_Monad.return (Inl err)
      | None \<Rightarrow>
          if TrimSpace doc = [] then decode_docs env y source (docIndex + 1) docs readErr out
          else
            (case yl_ToJSON y doc of
               Inl err \<Rightarrow> State_Monad.return (Inl (doc_error source docIndex err))
             | Inr jsonBytes \<Rightarrow>
                 (case yl_Unmarshal y jsonBytes of
                    Inl err \<Rightarrow> State_Monad.return (Inl (doc_error source docIndex err))
                  | Inr u \<Rightarrow> decode_docs env y source (docIndex + 1) docs readErr (out @ [Some u]))))
   }"

definition renderYAMLFile :: "'o env \<Rightarrow> 'o yaml_lib \<Rightarrow> string \<Rightarrow> ('o, 'o option list result) prog" where
  "renderYAMLFile env y path = do {
     r \<leftarrow> osReadFile env path;
     (case r of
        Inl err \<Rightarrow> State_Monad.return (Inl err)
      | Inr content \<Rightarrow> decode_docs env y path 0 (fst (yl_docs y content)) (snd (yl_docs y content)) [])
   }"


subsection \<open>The walk\<close>

text \<open>
  \<open>filepath.WalkDir\<close> with the closure of \<open>yamlFiles\<close>: the closure is called for every entry, for a directory
  before its entries, and once more with the error when a directory cannot be listed. \<open>paths\<close> is the
  variable it appends to.
\<close>

definition is_yaml_file :: "string \<Rightarrow> bool" where
  "is_yaml_file path \<longleftrightarrow> ToLower (Ext path) = ''.yaml'' \<or> ToLower (Ext path) = ''.yml''"

fun walk :: "'o env \<Rightarrow> string \<Rightarrow> dir_tree \<Rightarrow> string list \<Rightarrow> ('o, string list result) prog"
  and walk_entries :: "'o env \<Rightarrow> string \<Rightarrow> (string \<times> dir_tree) list \<Rightarrow> string list \<Rightarrow> ('o, string list result) prog"
where
  "walk env path (NoEntry walkErr) paths = do {
     c \<leftarrow> ctxErr env;
     State_Monad.return (Inl (case c of Some err \<Rightarrow> err | None \<Rightarrow> walkErr))
   }"
| "walk env path (DirUnreadable walkErr) paths = do {
     c \<leftarrow> ctxErr env;
     (case c of
        Some err \<Rightarrow> State_Monad.return (Inl err)
      | None \<Rightarrow> do {
          c' \<leftarrow> ctxErr env;
          State_Monad.return (Inl (case c' of Some err \<Rightarrow> err | None \<Rightarrow> walkErr))
        })
   }"
| "walk env path LinkEntry paths = do {
     c \<leftarrow> ctxErr env;
     State_Monad.return (Inl (case c of Some err \<Rightarrow> err | None \<Rightarrow> Errorf (''refusing symlink: '' @ path)))
   }"
| "walk env path FileEntry paths = do {
     c \<leftarrow> ctxErr env;
     State_Monad.return (case c of
        Some err \<Rightarrow> Inl err
      | None \<Rightarrow> Inr (if is_yaml_file path then paths @ [path] else paths))
   }"
| "walk env path (DirTree entries) paths = do {
     c \<leftarrow> ctxErr env;
     (case c of
        Some err \<Rightarrow> State_Monad.return (Inl err)
      | None \<Rightarrow> walk_entries env path entries paths)
   }"
| "walk_entries env path [] paths = State_Monad.return (Inr paths)"
| "walk_entries env path ((name, entry) # entries) paths = do {
     r \<leftarrow> walk env (PathJoin [path, name]) entry paths;
     (case r of
        Inl err \<Rightarrow> State_Monad.return (Inl err)
      | Inr paths' \<Rightarrow> walk_entries env path entries paths')
   }"

definition yamlFiles :: "'o env \<Rightarrow> string \<Rightarrow> ('o, string list result) prog" where
  "yamlFiles env root = do {
     t \<leftarrow> osWalkTree env root;
     r \<leftarrow> walk env root t [];
     State_Monad.return (case r of Inl err \<Rightarrow> Inl err | Inr paths \<Rightarrow> Inr (sort paths))
   }"


subsection \<open>Render\<close>

fun render_files :: "'o env \<Rightarrow> 'o yaml_lib \<Rightarrow> string list \<Rightarrow> 'o option list \<Rightarrow> ('o, 'o option list result) prog" where
  "render_files env y [] out = State_Monad.return (Inr out)"
| "render_files env y (path # paths) out = do {
     c \<leftarrow> ctxErr env;
     (case c of
        Some err \<Rightarrow> State_Monad.return (Inl err)
      | None \<Rightarrow> do {
          r \<leftarrow> renderYAMLFile env y path;
          (case r of
             Inl err \<Rightarrow> State_Monad.return (Inl err)
           | Inr objs \<Rightarrow> render_files env y paths (out @ objs))
        })
   }"

definition YAMLRenderer_Render ::
  "'o env \<Rightarrow> 'o yaml_lib \<Rightarrow> string \<Rightarrow> git_application_spec \<Rightarrow> string \<Rightarrow> ('o, 'o option list result) prog" where
  "YAMLRenderer_Render env y checkoutRoot spec resolvedRevision = do {
     c \<leftarrow> ctxErr env;
     (case c of
        Some err \<Rightarrow> State_Monad.return (Inl err)
      | None \<Rightarrow>
          (case ResolveWithinRoot checkoutRoot (src_path (spec_source spec)) of
             Inl err \<Rightarrow> State_Monad.return (Inl err)
           | Inr appRoot \<Rightarrow> do {
               f \<leftarrow> yamlFiles env appRoot;
               (case f of
                  Inl err \<Rightarrow> State_Monad.return (Inl err)
                | Inr paths \<Rightarrow> render_files env y paths [])
             }))
   }"

end
