(* ===== verification/Helm_Render.thy ===== *)
theory Helm_Render
  imports Helm_Values Yaml_Render
begin

section \<open>The Helm renderer: internal/render/helm.go\<close>

text \<open>
  \<open>HelmRenderer.Render\<close> loads the chart, merges the values files, renders the templates, and decodes the
  custom resource definitions and then the manifests in the order of their names. Helm's loader, value
  coalescing and template engine, and the decoder of values, are the record \<open>('o, 'c, 'v) helm_lib\<close>, where
  \<open>'c\<close> is a loaded chart and \<open>'v\<close> the values a template sees. \<open>engine.Render\<close> answers with a Go map: its
  entries, in the order in which the program ranges over it.
\<close>

record release_options =
  ro_Name :: string
  ro_Namespace :: string
  ro_Revision :: int
  ro_IsInstall :: bool

record ('o, 'c, 'v) helm_lib =
  hl_decodeValues :: "string \<Rightarrow> gomap result" \<comment> \<open>the first document, into a new map\<close>
  hl_Load :: "'o call list \<Rightarrow> string \<Rightarrow> 'c result"
  hl_ToRenderValues :: "'c \<Rightarrow> gomap \<Rightarrow> release_options \<Rightarrow> 'v result"
  hl_EngineRender :: "'c \<Rightarrow> 'v \<Rightarrow> (string \<times> string) list result"
  hl_CRDObjects :: "'c \<Rightarrow> (string \<times> string) list" \<comment> \<open>file names and contents\<close>

definition loadChart :: "('o, 'c, 'v) helm_lib \<Rightarrow> string \<Rightarrow> ('o, 'c result) prog" where
  "loadChart hl path = ask (\<lambda>h. hl_Load hl h path) (\<lambda>_. CallOS (LoadChart path))"

lemma emits_loadChart [wp]: "P (CallOS (LoadChart p)) \<Longrightarrow> emits P (loadChart hl p)"
  unfolding loadChart_def by (rule emits_ask)


subsection \<open>Values\<close>

definition readValuesDocument :: "('o, 'c, 'v) helm_lib \<Rightarrow> string \<Rightarrow> gomap result" where
  "readValuesDocument hl content =
     (case hl_decodeValues hl content of
        Inl err \<Rightarrow> if root_cause err = IoEOF then Inr [] else Inl err
      | Inr out \<Rightarrow> Inr out)"

fun readHelmValues ::
  "'o env \<Rightarrow> ('o, 'c, 'v) helm_lib \<Rightarrow> string \<Rightarrow> string list \<Rightarrow> gomap \<Rightarrow> ('o, gomap result) prog" where
  "readHelmValues env hl checkoutRoot [] merged = State_Monad.return (Inr merged)"
| "readHelmValues env hl checkoutRoot (rel # files) merged = do {
     c \<leftarrow> ctxErr env;
     (case c of
        Some err \<Rightarrow> State_Monad.return (Inl err)
      | None \<Rightarrow>
          if rel = [] then State_Monad.return (Inl (Errorf ''values file path is required''))
          else
            (case ResolveWithinRoot checkoutRoot rel of
               Inl err \<Rightarrow> State_Monad.return (Inl err)
             | Inr path \<Rightarrow> do {
                 r \<leftarrow> osReadFile env (Clean path);
                 (case r of
                    Inl err \<Rightarrow> State_Monad.return (Inl err)
                  | Inr content \<Rightarrow>
                      (case readValuesDocument hl content of
                         Inl err \<Rightarrow> State_Monad.return (Inl (Wrapf (''parse values file '' @ rel @ '': '') err []))
                       | Inr vs \<Rightarrow> readHelmValues env hl checkoutRoot files (deepMerge merged vs)))
               }))
   }"


subsection \<open>Manifests\<close>

definition decodeManifest :: "'o env \<Rightarrow> 'o yaml_lib \<Rightarrow> string \<Rightarrow> string \<Rightarrow> ('o, 'o option list result) prog" where
  "decodeManifest env y source manifest =
     decode_docs env y source 0 (fst (yl_docs y manifest)) (snd (yl_docs y manifest)) []"

text \<open>The two loops of \<open>Render\<close>, over the definitions and over the sorted names of the manifests.\<close>

fun decode_all ::
  "'o env \<Rightarrow> 'o yaml_lib \<Rightarrow> (string \<times> string) list \<Rightarrow> 'o option list \<Rightarrow> ('o, 'o option list result) prog" where
  "decode_all env y [] out = State_Monad.return (Inr out)"
| "decode_all env y ((name, manifest) # rest) out = do {
     c \<leftarrow> ctxErr env;
     (case c of
        Some err \<Rightarrow> State_Monad.return (Inl err)
      | None \<Rightarrow> do {
          r \<leftarrow> decodeManifest env y name manifest;
          (case r of
             Inl err \<Rightarrow> State_Monad.return (Inl err)
           | Inr docObjs \<Rightarrow> decode_all env y rest (out @ docObjs))
        })
   }"

definition manifest_keys :: "(string \<times> string) list \<Rightarrow> string list" where
  "manifest_keys manifests = sort (filter (\<lambda>name. \<not> HasPrefix name ''templates/NOTES.txt'') (List.map fst manifests))"

definition manifest_at :: "(string \<times> string) list \<Rightarrow> string \<Rightarrow> string" where
  "manifest_at manifests name = (case map_of manifests name of None \<Rightarrow> [] | Some m \<Rightarrow> m)"

text \<open>
  \<open>sort.Slice\<close> on the definitions orders them by file name; \<open>sort_key\<close> keeps the order of definitions from
  files of the same name, which Go leaves open and which a chart does not have.
\<close>

definition decode_manifests ::
  "'o env \<Rightarrow> 'o yaml_lib \<Rightarrow> bool \<Rightarrow> (string \<times> string) list \<Rightarrow> (string \<times> string) list
     \<Rightarrow> ('o, 'o option list result) prog" where
  "decode_manifests env y includeCRDs crds manifests = do {
     r \<leftarrow> (if includeCRDs then decode_all env y (sort_key fst crds) [] else State_Monad.return (Inr []));
     (case r of
        Inl err \<Rightarrow> State_Monad.return (Inl err)
      | Inr out \<Rightarrow>
          decode_all env y (List.map (\<lambda>name. (name, manifest_at manifests name)) (manifest_keys manifests)) out)
   }"


subsection \<open>Render\<close>

definition release_for :: "helm_render_spec \<Rightarrow> git_application_spec \<Rightarrow> release_options" where
  "release_for helm spec =
     \<lparr>ro_Name = hr_releaseName helm, ro_Namespace = dst_namespace (spec_destination spec), ro_Revision = 1,
      ro_IsInstall = True\<rparr>"

text \<open>From the loaded chart on.\<close>

definition render_chart ::
  "'o env \<Rightarrow> 'o yaml_lib \<Rightarrow> ('o, 'c, 'v) helm_lib \<Rightarrow> string \<Rightarrow> git_application_spec \<Rightarrow> helm_render_spec \<Rightarrow> 'c
     \<Rightarrow> ('o, 'o option list result) prog" where
  "render_chart env y hl checkoutRoot spec helm ch = do {
     c1 \<leftarrow> ctxErr env;
     (case c1 of
        Some err \<Rightarrow> State_Monad.return (Inl err)
      | None \<Rightarrow> do {
          v \<leftarrow> readHelmValues env hl checkoutRoot (hr_valuesFiles helm) [];
          (case v of
             Inl err \<Rightarrow> State_Monad.return (Inl err)
           | Inr vs \<Rightarrow>
               (case hl_ToRenderValues hl ch vs (release_for helm spec) of
                  Inl err \<Rightarrow> State_Monad.return (Inl (Wrapf ''prepare render values: '' err []))
                | Inr renderVals \<Rightarrow> do {
                    c2 \<leftarrow> ctxErr env;
                    (case c2 of
                       Some err \<Rightarrow> State_Monad.return (Inl err)
                     | None \<Rightarrow>
                         (case hl_EngineRender hl ch renderVals of
                            Inl err \<Rightarrow> State_Monad.return (Inl (Wrapf ''render chart: '' err []))
                          | Inr manifests \<Rightarrow>
                              decode_manifests env y (hr_includeCRDs helm) (hl_CRDObjects hl ch) manifests))
                  }))
        })
   }"

definition HelmRenderer_Render ::
  "'o env \<Rightarrow> 'o yaml_lib \<Rightarrow> ('o, 'c, 'v) helm_lib \<Rightarrow> string \<Rightarrow> git_application_spec \<Rightarrow> string
     \<Rightarrow> ('o, 'o option list result) prog" where
  "HelmRenderer_Render env y hl checkoutRoot spec resolvedRevision = do {
     c \<leftarrow> ctxErr env;
     (case c of
        Some err \<Rightarrow> State_Monad.return (Inl err)
      | None \<Rightarrow>
          (case ResolveWithinRoot checkoutRoot (src_path (spec_source spec)) of
             Inl err \<Rightarrow> State_Monad.return (Inl err)
           | Inr appRoot \<Rightarrow>
               (case rd_helm (spec_render spec) of
                  None \<Rightarrow> State_Monad.return (Inl (Errorf ''helm render configuration is required''))
                | Some helm \<Rightarrow> do {
                    l \<leftarrow> loadChart hl appRoot;
                    (case l of
                       Inl err \<Rightarrow> State_Monad.return (Inl (Wrapf ''load chart: '' err []))
                     | Inr ch \<Rightarrow> render_chart env y hl checkoutRoot spec helm ch)
                  })))
   }"

end
