(* ===== verification/Operator.thy ===== *)
theory Operator
  imports Controller Git Helm_Render
begin

section \<open>The operator process: cmd/main.go\<close>

text \<open>
  Flags and how they become the configuration of the reconciler, the reconciler as \<open>newOperatorRunner\<close> wires
  it (with the repository cache and the renderers of this development), the worker that serves the work
  queue, and the namespace and the lock of leader election. (The two HTTP servers are in \<open>Servers\<close>, the life of
  the process is in \<open>Process\<close>.) client-go's key functions are parameters; its work queue and informer are the
  world's. The logger is left out of the flags and options.
\<close>

subsection \<open>Flags and configuration\<close>

record operator_flags =
  fl_metricsAddr :: string
  fl_probeAddr :: string
  fl_leaderElect :: bool
  fl_watchNamespace :: string
  fl_concurrentReconciles :: int
  fl_minimumRequeueInterval :: duration
  fl_allowClusterScoped :: bool
  fl_allowedRepoPrefixes :: string
  fl_fieldManager :: string
  fl_cacheDir :: string

definition default_flags :: operator_flags where
  "default_flags = \<lparr>fl_metricsAddr = '':8080'', fl_probeAddr = '':8081'', fl_leaderElect = True, fl_watchNamespace = [], fl_concurrentReconciles = 2,
     fl_minimumRequeueInterval = 15 * Second, fl_allowClusterScoped = False, fl_allowedRepoPrefixes = [],
     fl_fieldManager = ''tiny-gitops-controller'', fl_cacheDir = []\<rparr>"

record operator_options =
  opt_WatchNamespace :: string
  opt_ConcurrentReconciles :: int
  opt_MinimumRequeueInterval :: duration
  opt_AllowClusterScoped :: bool
  opt_AllowedRepoPrefixes :: "string list"
  opt_FieldManager :: string
  opt_CacheDir :: string

definition splitAllowedPrefixes :: "string \<Rightarrow> string list" where
  "splitAllowedPrefixes raw =
     (let raw' = TrimSpace raw in
      if raw' = [] then []
      else filter (\<lambda>p. p \<noteq> []) (List.map TrimSpace (Split (CHR '','') raw')))"

definition watchNamespaceOrAll :: "string \<Rightarrow> string" where
  "watchNamespaceOrAll ns = (if TrimSpace ns = [] then [] else ns)"

definition main_options :: "operator_flags \<Rightarrow> operator_options" where
  "main_options fl =
     \<lparr>opt_WatchNamespace = fl_watchNamespace fl,
      opt_ConcurrentReconciles = fl_concurrentReconciles fl,
      opt_MinimumRequeueInterval = fl_minimumRequeueInterval fl,
      opt_AllowClusterScoped = fl_allowClusterScoped fl,
      opt_AllowedRepoPrefixes = splitAllowedPrefixes (fl_allowedRepoPrefixes fl),
      opt_FieldManager = fl_fieldManager fl,
      opt_CacheDir = fl_cacheDir fl\<rparr>"

definition runner_config :: "operator_options \<Rightarrow> operator_config" where
  "runner_config opts =
     \<lparr>cfg_watchNamespace = opt_WatchNamespace opts,
      cfg_concurrentReconciles = opt_ConcurrentReconciles opts,
      cfg_minimumRequeueInterval = opt_MinimumRequeueInterval opts,
      cfg_allowClusterScopedResources = opt_AllowClusterScoped opts,
      cfg_allowedRepositoryPrefixes = opt_AllowedRepoPrefixes opts,
      cfg_fieldManager = opt_FieldManager opts,
      cfg_cacheDir = opt_CacheDir opts\<rparr>"

definition runner_workers :: "operator_options \<Rightarrow> int" where
  "runner_workers opts = (if opt_ConcurrentReconciles opts \<le> 0 then 1 else opt_ConcurrentReconciles opts)"

text \<open>
  The reconciler of \<open>newOperatorRunner\<close>. \<open>Checkout\<close> takes fuel for its lock loops; running out of it is
  turned into an error here, which \<open>checkout_returns\<close> excludes from 302 on.
\<close>

definition repo_checkout ::
  "nat \<Rightarrow> 'o env \<Rightarrow> string \<Rightarrow> string \<Rightarrow> string \<Rightarrow> credentials option \<Rightarrow> ('o, (string \<times> string) result) prog" where
  "repo_checkout fuel env cacheDir repo revision creds = do {
     r \<leftarrow> Checkout fuel env cacheDir repo revision creds;
     State_Monad.return (case r of None \<Rightarrow> Inl (Errorf ''out of fuel'') | Some outcome \<Rightarrow> outcome)
   }"

definition newReconciler ::
  "nat \<Rightarrow> 'o env \<Rightarrow> 'o uapi \<Rightarrow> 'o yaml_lib \<Rightarrow> ('o, 'c, 'v) helm_lib
     \<Rightarrow> ((string \<times> resource_reference) list \<Rightarrow> (string \<times> resource_reference) list)
     \<Rightarrow> operator_options \<Rightarrow> 'o reconciler" where
  "newReconciler fuel env u y hl mapOrder opts =
     \<lparr>rc_env = env, rc_api = u, rc_kube = True, rc_config = runner_config opts,
      rc_checkout = repo_checkout fuel env (opt_CacheDir opts),
      rc_renderYAML = YAMLRenderer_Render env y,
      rc_renderHelm = HelmRenderer_Render env y hl,
      rc_mapOrder = mapOrder\<rparr>"

text \<open>
  What \<open>newOperatorRunner\<close> builds: the reconciler, an informer for the custom resource that never resyncs, the
  named work queue, and the number of workers. Before that it makes four clients, whose constructors are
  libraries' (\<open>client_errors\<close>: what each of them answers): the first one returns its error, the others,
  \<open>NewForConfigOrDie\<close>, panic with it.
\<close>

definition gitApplicationGVR :: gvr where
  "gitApplicationGVR = \<lparr>gvr_group = ''gitops.cabure.io'', gvr_version = ''v1alpha1'', gvr_resource = ''gitapplications''\<rparr>"

record 'o operator_runner =
  or_reconciler :: "'o reconciler"
  or_informer :: "gvr \<times> string \<times> duration" \<comment> \<open>resource, namespace, resync period\<close>
  or_queue :: string
  or_workers :: int

record client_errors =
  ce_api :: "gerror option"
  ce_dynamic :: "gerror option"
  ce_kube :: "gerror option"
  ce_discovery :: "gerror option"

datatype 'a or_panic = Panics gerror | Returns 'a

definition make_clients :: "client_errors \<Rightarrow> unit result or_panic" where
  "make_clients ce =
     (case ce_api ce of
        Some err \<Rightarrow> Returns (Inl (Wrapf ''create api client: '' err []))
      | None \<Rightarrow> (case ce_dynamic ce of
          Some err \<Rightarrow> Panics err
        | None \<Rightarrow> (case ce_kube ce of
            Some err \<Rightarrow> Panics err
          | None \<Rightarrow> (case ce_discovery ce of
              Some err \<Rightarrow> Panics err
            | None \<Rightarrow> Returns (Inr ())))))"

definition newOperatorRunner ::
  "client_errors \<Rightarrow> nat \<Rightarrow> 'o env \<Rightarrow> 'o uapi \<Rightarrow> 'o yaml_lib \<Rightarrow> ('o, 'c, 'v) helm_lib
     \<Rightarrow> ((string \<times> resource_reference) list \<Rightarrow> (string \<times> resource_reference) list)
     \<Rightarrow> operator_options \<Rightarrow> 'o operator_runner result or_panic" where
  "newOperatorRunner ce fuel env u y hl mapOrder opts =
     (case make_clients ce of
        Panics err \<Rightarrow> Panics err
      | Returns (Inl err) \<Rightarrow> Returns (Inl err)
      | Returns (Inr _) \<Rightarrow> Returns (Inr \<lparr>or_reconciler = newReconciler fuel env u y hl mapOrder opts,
          or_informer = (gitApplicationGVR, watchNamespaceOrAll (opt_WatchNamespace opts), 0),
          or_queue = ''gitapplications'',
          or_workers = runner_workers opts\<rparr>))"


subsection \<open>The work queue and its workers\<close>

text \<open>The informer's handlers: an added, updated or deleted object puts its key into the queue.\<close>

definition enqueueObject :: "('x \<Rightarrow> string result) \<Rightarrow> 'x \<Rightarrow> ('o, unit) prog" where
  "enqueueObject keyFunc obj =
     (case keyFunc obj of
        Inl err \<Rightarrow> State_Monad.return ()
      | Inr key \<Rightarrow> queueCall (QAdd key))"

datatype 'x informer_event = AddEvent 'x | UpdateEvent 'x 'x | DeleteEvent 'x

fun handleEvent :: "('x \<Rightarrow> string result) \<Rightarrow> 'x informer_event \<Rightarrow> ('o, unit) prog" where
  "handleEvent keyFunc (AddEvent obj) = enqueueObject keyFunc obj"
| "handleEvent keyFunc (UpdateEvent oldObj newObj) = enqueueObject keyFunc newObj"
| "handleEvent keyFunc (DeleteEvent obj) = enqueueObject keyFunc obj"

text \<open>A reconcile returns, or panics.\<close>

datatype reconcile_outcome = Panicked string | Finished ctrl_result "gerror option"

text \<open>
  The function literal in \<open>runWorker\<close>: \<open>handle_key\<close> is its body with the recovering deferred call, and
  \<open>process_key\<close> adds the call of \<open>Done\<close>, which is deferred first and so runs last.
\<close>

definition handle_key ::
  "'o env \<Rightarrow> (string \<Rightarrow> (string \<times> string) result) \<Rightarrow> (string \<Rightarrow> string \<Rightarrow> ('o, reconcile_outcome) prog)
     \<Rightarrow> string \<Rightarrow> ('o, unit) prog" where
  "handle_key env splitKey reconcile key =
     (case splitKey key of
        Inl err \<Rightarrow> queueCall (QForget key)
      | Inr (namespace, name) \<Rightarrow> do {
          outcome \<leftarrow> reconcile namespace name;
          (case outcome of
             Panicked msg \<Rightarrow> queueCall (QAddRateLimited key)
           | Finished result (Some err) \<Rightarrow>
               if is_canceled err then State_Monad.return ()
               else do {
                 c \<leftarrow> ctxErr env;
                 if c \<noteq> None then State_Monad.return () else queueCall (QAddRateLimited key)
               }
           | Finished result None \<Rightarrow> do {
               _ \<leftarrow> queueCall (QForget key);
               if 0 < res_requeueAfter result then queueCall (QAddAfter key (res_requeueAfter result))
               else if res_requeue result then queueCall (QAddRateLimited key)
               else State_Monad.return ()
             })
        })"

definition process_key ::
  "'o env \<Rightarrow> (string \<Rightarrow> (string \<times> string) result) \<Rightarrow> (string \<Rightarrow> string \<Rightarrow> ('o, reconcile_outcome) prog)
     \<Rightarrow> string \<Rightarrow> ('o, unit) prog" where
  "process_key env splitKey reconcile key = do {
     _ \<leftarrow> handle_key env splitKey reconcile key;
     queueCall (QDone key)
   }"

text \<open>The loop runs for as long as the queue hands out keys; \<open>fuel\<close> bounds its rounds, \<open>False\<close> is running out.\<close>

fun runWorker ::
  "nat \<Rightarrow> 'o env \<Rightarrow> (string \<Rightarrow> (string \<times> string) result) \<Rightarrow> (string \<Rightarrow> string \<Rightarrow> ('o, reconcile_outcome) prog)
     \<Rightarrow> ('o, bool) prog" where
  "runWorker 0 env splitKey reconcile = State_Monad.return False"
| "runWorker (Suc fuel) env splitKey reconcile = do {
     (key, shutdown) \<leftarrow> queueGet env;
     if shutdown then State_Monad.return True
     else do {
       _ \<leftarrow> process_key env splitKey reconcile key;
       c \<leftarrow> ctxErr env;
       if c \<noteq> None then State_Monad.return True
       else runWorker fuel env splitKey reconcile
     }
   }"

text \<open>The worker's call of the reconciler of this development, which does not panic.\<close>

definition reconcile_call :: "'o reconciler \<Rightarrow> string \<Rightarrow> string \<Rightarrow> ('o, reconcile_outcome) prog" where
  "reconcile_call rc namespace name = do {
     (result, err) \<leftarrow> Reconcile rc namespace name;
     State_Monad.return (Finished result err)
   }"


subsection \<open>Leader election\<close>

definition leaderElectionNamespace :: "'o env \<Rightarrow> ('o, string result) prog" where
  "leaderElectionNamespace env =
     (let namespace = TrimSpace (os_Getenv (env_os env) ''POD_NAMESPACE'') in
      if namespace \<noteq> [] then State_Monad.return (Inr namespace)
      else do {
        r \<leftarrow> osReadFile env ''/var/run/secrets/kubernetes.io/serviceaccount/namespace'';
        State_Monad.return (case r of
           Inl err \<Rightarrow> Inl (Errorf ''unable to determine leader election namespace'')
         | Inr content \<Rightarrow>
             if TrimSpace content \<noteq> [] then Inr (TrimSpace content)
             else Inl (Errorf ''unable to determine leader election namespace''))
      })"

text \<open>
  The first part of \<open>runWithLeaderElection\<close>: the lock. \<open>hostname\<close> is the answer of \<open>os.Hostname\<close>, \<open>newLock\<close>
  client-go's \<open>resourcelock.NewFromKubeconfig\<close> for the namespace and the identity.
\<close>

definition leader_lock ::
  "'o env \<Rightarrow> string result \<Rightarrow> (string \<Rightarrow> string \<Rightarrow> 'k result) \<Rightarrow> ('o, 'k result) prog" where
  "leader_lock env hostname newLock = do {
     ns \<leftarrow> leaderElectionNamespace env;
     State_Monad.return (case ns of
        Inl err \<Rightarrow> Inl err
      | Inr leaderNamespace \<Rightarrow> (case hostname of
          Inl err \<Rightarrow> Inl (Wrapf ''read hostname: '' err [])
        | Inr host \<Rightarrow> (case newLock leaderNamespace host of
            Inl err \<Rightarrow> Inl (Wrapf ''create leader election lock: '' err [])
          | Inr lock \<Rightarrow> Inr lock)))
   }"

text \<open>What the process exits with when \<open>run\<close> or the election has returned this error.\<close>

definition main_exit :: "gerror option \<Rightarrow> nat" where
  "main_exit err = (case err of None \<Rightarrow> 0 | Some e \<Rightarrow> if is_canceled e then 0 else 1)"

end
