(* ===== verification/Git_Lock.thy ===== *)
theory Git_Lock
  imports Git
begin

section \<open>The lock loop and the shape of a checkout\<close>

text \<open>
  \<open>lock_loop_run\<close> takes every run of \<open>withLock\<close> apart: attempts that failed, then either the critical
  section between taking and dropping the lock, or an error, or the fuel ran out.
  \<open>withLock_returns\<close>: with a clock that advances while the process sleeps, the fuel of 302 attempts is
  never exhausted, since an attempt takes at least 100ms and the deadline is 30s away.
\<close>

subsection \<open>Calls that stay on this machine\<close>

lemma emits_firstExistingBinary [wp]:
  "(\<And>p r. P (CallOS (StatPath p r))) \<Longrightarrow> emits P (firstExistingBinary env name cs)"
  by (induction cs) (auto intro!: wp)

lemma emits_binaries [wp]:
  "(\<And>p r. P (CallOS (StatPath p r))) \<Longrightarrow> emits P (gitBinaryPath env)"
  "(\<And>p r. P (CallOS (StatPath p r))) \<Longrightarrow> emits P (sshBinaryPath env)"
  unfolding gitBinaryPath_def sshBinaryPath_def by (intro wp; simp)+

lemma emits_runGitCommand [wp]:
  assumes "\<And>p r. P (CallOS (StatPath p r))"
    and "\<And>bin ex r. P (CallOS (RunGit bin dir ex (auth_args auth @ args) r))"
  shows "emits P (runGitCommand env dir auth args)"
  unfolding runGitCommand_def by (intro wp assms)

lemma emits_runGit [wp]:
  assumes "\<And>p r. P (CallOS (StatPath p r))"
    and "\<And>bin ex r. P (CallOS (RunGit bin dir ex (auth_args auth @ args) r))"
  shows "emits P (runGit env dir auth args)"
    and "emits P (runGitOutput env dir auth args)"
  unfolding runGit_def runGitOutput_def by (intro wp assms)+

lemma emits_recover_mirror [wp]:
  assumes "\<And>r. P (CallOS (RemoveAll mirrorDir r))" and "emits P retry"
  shows "emits P (recover_mirror env mirrorDir retry)"
  unfolding recover_mirror_def by (intro wp assms)

text \<open>
  Which calls the parts of a checkout make: a predicate that holds of them holds of all calls of the part.
  \<open>mirror_calls\<close> is what keeping the mirror needs, \<open>lock_file_calls\<close> what the lock loop adds to the function under
  it, \<open>locked_calls\<close> what everything after the authentication needs, \<open>git_calls\<close> what a whole checkout needs.
\<close>

locale mirror_calls =
  fixes P :: "'o call \<Rightarrow> bool"
  assumes P_stat: "\<And>p r. P (CallOS (StatPath p r))"
    and P_git: "\<And>bin d ex args r. P (CallOS (RunGit bin d ex args r))"
    and P_remove: "\<And>p r. P (CallOS (RemoveAll p r))"
begin

lemma emits_mirror_body:
  assumes "\<And>again. retry = Some again \<Longrightarrow> emits P again"
  shows "emits P (mirror_body env mirrorDir repoURL auth retry)"
proof -
  have f: "emits P (mirror_fetch env mirrorDir auth retry)"
    unfolding mirror_fetch_def by (intro wp assms P_stat P_git P_remove)
  have r: "emits P (mirror_remote env mirrorDir repoURL auth retry)"
    unfolding mirror_remote_def by (intro wp assms f P_stat P_git P_remove) auto
  show ?thesis unfolding mirror_body_def by (intro wp assms r P_stat P_git P_remove) auto
qed

lemma emits_ensureMirror: "emits P (ensureMirror env mirrorDir repoURL auth)"
  unfolding ensureMirror_def ensureMirrorAttempt_def
  by (auto intro!: emits_mirror_body)

lemma emits_resolveRevision: "emits P (resolveRevision env mirrorDir revision auth)"
  unfolding resolveRevision_def by (intro wp P_stat P_git)

lemma emits_cleanup_auth: "emits P (cleanup_auth env auth)"
  unfolding cleanup_auth_def by (intro wp P_remove)

end

locale lock_file_calls =
  fixes P :: "'o call \<Rightarrow> bool"
  assumes P_open: "\<And>p r. P (CallOS (OpenLock p r))" and P_flock: "\<And>p r. P (CallOS (FlockTry p r))"
    and P_unlock: "\<And>p. P (CallOS (FlockUnlock p))" and P_close: "\<And>p. P (CallOS (CloseLock p))"
    and P_sleep: "\<And>d. P (CallOS (Sleep d))" and P_now: "\<And>t. P (CallNow t)"
begin

lemma emits_lock_loop: "emits P fn \<Longrightarrow> emits P (lock_loop fuel env path deadline fn)"
proof (induction fuel)
  case (Suc fuel)
  show ?case unfolding lock_loop.simps
    by (intro wp Suc.IH Suc.prems P_open P_flock P_unlock P_close P_sleep P_now)
qed (simp add: wp)

lemma emits_withLock: "emits P fn \<Longrightarrow> emits P (withLock fuel env path timeout fn)"
  unfolding withLock_def by (intro wp emits_lock_loop P_now)

end

locale locked_calls = mirror_calls P + lock_file_calls P for P :: "'o call \<Rightarrow> bool" +
  assumes P_rename: "\<And>p q r. P (CallOS (RenamePath p q r))"
    and P_temp: "\<And>d r. P (CallOS (MkdirTemp d ''tmp-*'' r))"
begin

lemma emits_clone_into: "emits P (clone_into env mirrorDir tempDir finalDir sha auth)"
  unfolding clone_into_def move_clone_def by (intro wp P_stat P_git P_rename)

lemma emits_populate: "emits P (populate env mirrorDir checkoutDir finalDir sha auth)"
  unfolding populate_def by (intro wp emits_clone_into P_stat P_temp P_remove)

lemma emits_checkout_locked: "emits P (checkout_locked fuel env mirrorDir checkoutDir repoURL revision auth)"
  unfolding checkout_locked_def checkout_tree_def Let_def
  by (intro wp emits_withLock emits_ensureMirror emits_resolveRevision emits_populate P_stat)

end

locale git_calls = locked_calls P for P :: "'o call \<Rightarrow> bool" +
  assumes P_mkdir: "\<And>p r. P (CallOS (MkdirAll p r))" and P_mktemp: "\<And>d pat r. P (CallOS (MkdirTemp d pat r))"
    and P_write: "\<And>p content perm r. P (CallOS (WriteFile p content perm r))"
begin

lemma emits_prepareAuth: "emits P (prepareAuth env base repoURL creds)"
  unfolding prepareAuth_def prepare_ssh_def write_keys_def Let_def by (intro wp P_mkdir P_mktemp P_write P_remove P_stat)

lemma emits_Checkout: "emits P (Checkout fuel env cacheDir repoURL revision creds)"
  unfolding Checkout_def Let_def
  by (intro wp emits_prepareAuth emits_checkout_locked emits_cleanup_auth P_mkdir)

end


subsection \<open>Taking a run of the lock loop apart\<close>

text \<open>A call of a failed attempt, and of the wait after it.\<close>

definition lock_wait :: "string \<Rightarrow> 'o call \<Rightarrow> bool" where
  "lock_wait path c \<longleftrightarrow> (\<exists>e. c = CallOS (OpenLock path e)) \<or> (\<exists>e. c = CallOS (FlockTry path (Some e)))
     \<or> c = CallOS (CloseLock path) \<or> (\<exists>d. c = CallOS (Sleep d)) \<or> (\<exists>t. c = CallNow t)"

fun opens_file :: "'o call \<Rightarrow> bool" where
  "opens_file (CallOS (OpenLock p None)) = True"
| "opens_file _ = False"

fun closes_file :: "'o call \<Rightarrow> 'o call \<Rightarrow> bool" where
  "closes_file (CallOS (OpenLock p None)) (CallOS (CloseLock q)) = (p = q)"
| "closes_file _ _ = False"

definition lock_waits :: "string \<Rightarrow> 'o call list \<Rightarrow> bool" where
  "lock_waits path ws \<longleftrightarrow> list_all (lock_wait path) ws \<and> answered opens_file closes_file ws"

lemma lock_waits_Nil [simp]: "lock_waits path []"
  by (simp add: lock_waits_def answers.T_Nil)

lemma lock_waits_append: "lock_waits path xs \<Longrightarrow> lock_waits path ys \<Longrightarrow> lock_waits path (xs @ ys)"
  by (simp add: lock_waits_def answers.T_append)

lemma lock_waits_steps [simp]:
  "lock_waits path [CallOS (OpenLock path (Some e))]"
  "lock_waits path [CallOS (OpenLock path None), CallOS (FlockTry path (Some e)), CallOS (CloseLock path)]"
  "lock_waits path [CallNow t]" "lock_waits path [CallOS (Sleep d)]"
proof -
  have "answered opens_file closes_file
      (CallOS (OpenLock path None) # [] @ [CallOS (FlockTry path (Some e)), CallOS (CloseLock path)])"
    by (rule answered_bracket) (auto intro: answered_none)
  then show "lock_waits path [CallOS (OpenLock path None), CallOS (FlockTry path (Some e)), CallOS (CloseLock path)]"
    by (auto simp: lock_waits_def lock_wait_def)
qed (auto simp: lock_waits_def lock_wait_def intro!: answered_none)

text \<open>The outcome of a run of the loop.\<close>

definition lock_outcome ::
  "string \<Rightarrow> ('o, gerror option) prog \<Rightarrow> 'o history \<Rightarrow> gerror option option \<Rightarrow> 'o history \<Rightarrow> bool" where
  "lock_outcome path fn h r h' \<longleftrightarrow>
     (\<exists>ws. lock_waits path ws
        \<and> (h' = h @ ws \<and> (r = None \<or> (\<exists>e. r = Some (Some e)))
           \<or> (\<exists>h1 h2 fr. h1 = h @ ws @ [CallOS (OpenLock path None), CallOS (FlockTry path None)]
                \<and> run_state fn h1 = (fr, h2) \<and> r = Some fr
                \<and> h' = h2 @ [CallOS (FlockUnlock path), CallOS (CloseLock path)])))"

lemma lock_outcome_later:
  assumes "lock_waits path ws" and "lock_outcome path fn (h @ ws) r h'"
  shows "lock_outcome path fn h r h'"
proof -
  from assms(2) obtain ws' where "lock_waits path ws'"
    and *: "h' = (h @ ws) @ ws' \<and> (r = None \<or> (\<exists>e. r = Some (Some e)))
           \<or> (\<exists>h1 h2 fr. h1 = (h @ ws) @ ws' @ [CallOS (OpenLock path None), CallOS (FlockTry path None)]
                \<and> run_state fn h1 = (fr, h2) \<and> r = Some fr
                \<and> h' = h2 @ [CallOS (FlockUnlock path), CallOS (CloseLock path)])"
    unfolding lock_outcome_def by blast
  with assms(1) have "lock_waits path (ws @ ws')" by (simp add: lock_waits_append)
  with * show ?thesis unfolding lock_outcome_def by (intro exI [of _ "ws @ ws'"]) simp
qed

lemma lock_outcome_error:
  "lock_waits path ws \<Longrightarrow> lock_outcome path fn h (Some (Some e)) (h @ ws)"
  unfolding lock_outcome_def by blast

lemma lock_loop_run:
  "run_state (lock_loop fuel env path deadline fn) h = (r, h') \<Longrightarrow> lock_outcome path fn h r h'"
proof (induction fuel arbitrary: h)
  case 0
  then show ?case unfolding lock_outcome_def by (intro exI [of _ "[]"]) simp
next
  case (Suc fuel)
  let ?open = "os_OpenLock (env_os env) h path"
  let ?h1 = "h @ [CallOS (OpenLock path None)]"
  let ?flock = "os_FlockTry (env_os env) ?h1 path"
  show ?case
  proof (cases ?open)
    case (Some e)
    with Suc.prems show ?thesis by (auto simp: os_defs intro!: lock_outcome_error)
  next
    case opened: None
    show ?thesis
    proof (cases ?flock)
      case None
      let ?h2 = "h @ [CallOS (OpenLock path None), CallOS (FlockTry path None)]"
      obtain fr h3 where run: "run_state fn ?h2 = (fr, h3)" by (cases "run_state fn ?h2")
      with Suc.prems opened None
      have "r = Some fr \<and> h' = h3 @ [CallOS (FlockUnlock path), CallOS (CloseLock path)]"
        by (auto simp: os_defs)
      with run show ?thesis unfolding lock_outcome_def by (intro exI [of _ "[]"]) auto
    next
      case (Some e)
      let ?w = "[CallOS (OpenLock path None), CallOS (FlockTry path (Some e)), CallOS (CloseLock path)]"
      let ?now = "env_now env (h @ ?w)"
      let ?w' = "?w @ [CallNow ?now] @ [CallOS (Sleep (100 * Millisecond))]"
      have w: "lock_waits path ?w" "lock_waits path (?w @ [CallNow t])" "lock_waits path ?w'" for t
        by (intro lock_waits_append lock_waits_steps)+
      show ?thesis
      proof (cases "is_os EWouldBlock e \<or> is_os EAgain e")
        case False
        with Suc.prems opened Some have "r = Some (Some e)" "h' = h @ ?w" by (auto simp: os_defs)
        with lock_outcome_error [OF w(1)] show ?thesis by metis
      next
        case True
        show ?thesis
        proof (cases "deadline < ?now")
          case late: True
          with Suc.prems opened Some True
          have "\<exists>e. r = Some (Some e)" "h' = h @ (?w @ [CallNow ?now])" by (auto simp: os_defs Now_def)
          with lock_outcome_error [OF w(2)] show ?thesis by metis
        next
          case early: False
          with Suc.prems opened Some True
          have "run_state (lock_loop fuel env path deadline fn) (h @ ?w') = (r, h')"
            by (auto simp: os_defs Now_def)
          from lock_outcome_later [OF w(3) Suc.IH [OF this]] show ?thesis .
        qed
      qed
    qed
  qed
qed

lemma withLock_run:
  assumes "run_state (withLock fuel env path timeout fn) h = (r, h')"
  shows "lock_outcome path fn h r h'"
proof -
  from assms have "run_state (lock_loop fuel env path (env_now env h + timeout) fn) (h @ [CallNow (env_now env h)]) = (r, h')"
    by (simp add: withLock_def Now_def)
  from lock_outcome_later [OF _ lock_loop_run [OF this]] show ?thesis by simp
qed


subsection \<open>The loop returns\<close>

text \<open>
  What \<open>time.Now\<close> and \<open>time.Sleep\<close> promise: the monotonic clock never goes back, and sleeping for \<open>d\<close>
  takes at least \<open>d\<close>.
\<close>

definition clock_advances :: "'o env \<Rightarrow> bool" where
  "clock_advances env \<longleftrightarrow> (\<forall>h new. env_now env h \<le> env_now env (h @ new))
     \<and> (\<forall>h d. env_now env h + d \<le> env_now env (h @ [CallOS (Sleep d)]))"

lemma lock_loop_returns:
  assumes clock: "clock_advances env"
  shows "run_state (lock_loop fuel env path deadline fn) h = (r, h') \<Longrightarrow> 0 < fuel
    \<Longrightarrow> deadline < env_now env h + int (fuel - 1) * (100 * Millisecond) \<Longrightarrow> r \<noteq> None"
proof (induction fuel arbitrary: h)
  case (Suc fuel)
  let ?w = "[CallOS (OpenLock path None), CallOS (FlockTry path (Some e)), CallOS (CloseLock path)]"
  show ?case
  proof (cases "os_OpenLock (env_os env) h path")
    case (Some e)
    with Suc.prems(1) show ?thesis by (auto simp: os_defs)
  next
    case opened: None
    show ?thesis
    proof (cases "os_FlockTry (env_os env) (h @ [CallOS (OpenLock path None)]) path")
      case None
      with Suc.prems(1) opened show ?thesis by (auto simp: os_defs split: prod.splits)
    next
      case (Some e)
      let ?h = "h @ [CallOS (OpenLock path None), CallOS (FlockTry path (Some e)), CallOS (CloseLock path)]"
      let ?now = "env_now env ?h"
      let ?h' = "(?h @ [CallNow ?now]) @ [CallOS (Sleep (100 * Millisecond))]"
      have later: "env_now env h \<le> ?now" "env_now env h + 100 * Millisecond \<le> env_now env ?h'"
        using clock unfolding clock_advances_def by (blast, smt (verit) append.assoc)
      show ?thesis
      proof (cases "(is_os EWouldBlock e \<or> is_os EAgain e) \<and> \<not> deadline < ?now")
        case False
        with Suc.prems(1) opened Some show ?thesis by (auto simp: os_defs Now_def split: if_splits)
      next
        case True
        with Suc.prems(1) opened Some
        have "run_state (lock_loop fuel env path deadline fn) ?h' = (r, h')"
          by (auto simp: os_defs Now_def)
        moreover from True Suc.prems(3) later(1) have "0 < fuel" by (cases fuel) auto
        moreover from this Suc.prems(3) later(2)
        have "deadline < env_now env ?h' + int (fuel - 1) * (100 * Millisecond)"
          by (simp add: of_nat_diff algebra_simps)
        ultimately show ?thesis by (rule Suc.IH)
      qed
    qed
  qed
qed simp

lemma withLock_returns:
  assumes "clock_advances env" and "302 \<le> fuel"
    and "run_state (withLock fuel env path (30 * Second) fn) h = (r, h')"
  shows "r \<noteq> None"
proof -
  let ?h = "h @ [CallNow (env_now env h)]"
  from assms(3) have "run_state (lock_loop fuel env path (env_now env h + 30 * Second) fn) ?h = (r, h')"
    by (simp add: withLock_def Now_def)
  moreover have "env_now env h \<le> env_now env ?h"
    using assms(1) by (simp add: clock_advances_def)
  with assms(2) have "env_now env h + 30 * Second < env_now env ?h + int (fuel - 1) * (100 * Millisecond)"
    by (simp add: Second_def Millisecond_def of_nat_diff)
  ultimately show ?thesis using lock_loop_returns [OF assms(1)] assms(2) by simp
qed

end
