(* ===== verification/Git_Props.thy ===== *)
theory Git_Props
  imports Git_Lock
begin

section \<open>Properties of the repository cache\<close>

text \<open>
  What a checkout leaves behind and what it may touch when: key material is removed, locks are released,
  the mirror is changed only under its lock, at most one recovery, the resulting directory, and that the
  call returns.
\<close>

interpretation local_calls: git_calls is_local
  by unfold_locales simp_all


subsection \<open>Key material\<close>

text \<open>The directory for the private key, and its removal.\<close>

fun makes_key_dir :: "'o call \<Rightarrow> bool" where
  "makes_key_dir (CallOS (MkdirTemp d pat (Inr t))) \<longleftrightarrow> pat = ''ssh-*''"
| "makes_key_dir _ \<longleftrightarrow> False"

fun removes_key_dir :: "'o call \<Rightarrow> 'o call \<Rightarrow> bool" where
  "removes_key_dir (CallOS (MkdirTemp d pat (Inr t))) (CallOS (RemoveAll p a)) \<longleftrightarrow> p = t"
| "removes_key_dir _ _ \<longleftrightarrow> False"

lemma no_key_dir: "pat \<noteq> ''ssh-*'' \<Longrightarrow> \<not> makes_key_dir (CallOS (MkdirTemp d pat r))"
  by (cases r) auto

lemma removes_key_dirI:
  "CallOS (RemoveAll d x) \<in> set new \<Longrightarrow> \<exists>c \<in> set new. removes_key_dir (CallOS (MkdirTemp r p (Inr d))) c"
  by force

interpretation no_key_dirs: locked_calls "\<lambda>c. \<not> makes_key_dir c"
  by unfold_locales (simp_all add: no_key_dir)

abbreviation keys_removed :: "'o call list \<Rightarrow> bool" where
  "keys_removed \<equiv> answered makes_key_dir removes_key_dir"

lemma write_keys_run:
  assumes "run_state (write_keys env authDir p q c) h = (w, h')"
  obtains new where "h' = h @ new" "list_all (\<lambda>c. \<not> makes_key_dir c) new"
    "w \<noteq> None \<longrightarrow> (\<exists>x. CallOS (RemoveAll authDir x) \<in> set new)"
proof -
  have "emits (\<lambda>c. \<not> makes_key_dir c) (write_keys env authDir p q c)"
    unfolding write_keys_def by (intro wp) simp_all
  from emitsE [OF this assms] obtain new
    where new: "h' = h @ new" "list_all (\<lambda>c. \<not> makes_key_dir c) new" .
  have "w \<noteq> None \<longrightarrow> (\<exists>x. CallOS (RemoveAll authDir x) \<in> set new)"
    using assms unfolding new(1) by (auto simp: write_keys_def os_defs split: option.splits)
  with new show ?thesis by (rule that)
qed

text \<open>
  What \<open>prepareAuth\<close> leaves: either every key directory it made is gone again and there is nothing to
  clean up, or it made one and the cleanup function removes just that.
\<close>

lemma prepare_ssh_keys:
  assumes "run_state (prepare_ssh env base c) h = (r, h')"
  obtains (clean) new where "h' = h @ new" "keys_removed new" "\<exists>err. r = Inl err"
    | (key) new d root rest a where "h' = h @ new @ CallOS (MkdirTemp root ''ssh-*'' (Inr d)) # rest"
      "list_all (\<lambda>c. \<not> makes_key_dir c) new" "list_all (\<lambda>c. \<not> makes_key_dir c) rest"
      "r = Inr (Some a)" "ga_cleanup a = Some d"
proof -
  let ?root = "PathJoin [base, ''auth'']"
  let ?e1 = "os_MkdirAll (env_os env) h ?root"
  let ?h1 = "h @ [CallOS (MkdirAll ?root ?e1)]"
  let ?t = "os_MkdirTemp (env_os env) ?h1 ?root ''ssh-*''"
  consider (mkdir) err where "?e1 = Some err" | (temp) err where "?e1 = None" "?t = Inl err"
    | (made) d where "?e1 = None" "?t = Inr d" by (cases ?e1; cases ?t) auto
  then show ?thesis
  proof cases
    case mkdir
    with assms show ?thesis
      by (intro clean [of "[CallOS (MkdirAll ?root ?e1)]"])
        (auto simp: prepare_ssh_def os_defs Let_def intro: answered_none)
  next
    case temp
    with assms show ?thesis
      by (intro clean [of "[CallOS (MkdirAll ?root None), CallOS (MkdirTemp ?root ''ssh-*'' ?t)]"])
        (auto simp: prepare_ssh_def os_defs Let_def intro: answered_none)
  next
    case made
    let ?made = "[CallOS (MkdirAll ?root None), CallOS (MkdirTemp ?root ''ssh-*'' (Inr d))]"
    let ?p = "PathJoin [d, ''id_ed25519'']" and ?q = "PathJoin [d, ''known_hosts'']"
    obtain w h2 where wr: "run_state (write_keys env d ?p ?q c) (h @ ?made) = (w, h2)"
      by (cases "run_state (write_keys env d ?p ?q c) (h @ ?made)")
    from write_keys_run [OF this] obtain new where new: "h2 = (h @ ?made) @ new"
      "list_all (\<lambda>c. \<not> makes_key_dir c) new" "w \<noteq> None \<longrightarrow> (\<exists>x. CallOS (RemoveAll d x) \<in> set new)" .
    show ?thesis
    proof (cases w)
      case (Some err)
      with made assms wr have "r = Inl err" "h' = h2" by (auto simp: prepare_ssh_def os_defs Let_def)
      moreover have "keys_removed ([CallOS (MkdirAll ?root None)]
          @ CallOS (MkdirTemp ?root ''ssh-*'' (Inr d)) # [] @ new)"
        using new(2,3) Some by (intro answered_append answered_bracket answered_none) (auto intro: removes_key_dirI)
      ultimately show ?thesis using new(1) by (intro clean [of "?made @ new"]) auto
    next
      case None
      obtain ssh h3 where ssh: "run_state (sshBinaryPath env) h2 = (ssh, h3)"
        by (cases "run_state (sshBinaryPath env) h2")
      have "emits (\<lambda>c. \<not> makes_key_dir c) (sshBinaryPath env)" by (intro wp) simp
      from emitsE [OF this ssh] obtain v where v: "h3 = h2 @ v" "list_all (\<lambda>c. \<not> makes_key_dir c) v" .
      from made assms wr None ssh have "h' = h3" "r = Inr (Some (ssh_auth ssh ?p ?q d))"
        by (auto simp: prepare_ssh_def os_defs Let_def)
      with new v show ?thesis
        using key [of "[CallOS (MkdirAll ?root None)]" ?root d "new @ v"] by (simp add: ssh_auth_def)
    qed
  qed
qed

lemma prepareAuth_keys:
  assumes "run_state (prepareAuth env base repoURL creds) h = (r, h')"
  obtains (clean) new where "h' = h @ new" "keys_removed new"
      "\<And>a. r = Inr (Some a) \<Longrightarrow> ga_cleanup a = None"
    | (key) new d root rest a where "h' = h @ new @ CallOS (MkdirTemp root ''ssh-*'' (Inr d)) # rest"
      "list_all (\<lambda>c. \<not> makes_key_dir c) new" "list_all (\<lambda>c. \<not> makes_key_dir c) rest"
      "r = Inr (Some a)" "ga_cleanup a = Some d"
proof (cases "\<exists>c. prepareAuth env base repoURL creds = prepare_ssh env base c")
  case True
  then obtain c where "run_state (prepare_ssh env base c) h = (r, h')" using assms by auto
  then show ?thesis by (cases rule: prepare_ssh_keys) (use clean key in auto)
next
  case False
  with assms show ?thesis
    by (intro clean [of "[]"])
      (auto simp: prepareAuth_def answers.T_Nil split: option.splits if_splits)
qed


subsection \<open>The stages of a checkout\<close>

fun is_mkdir :: "'o call \<Rightarrow> bool" where
  "is_mkdir (CallOS (MkdirAll p r)) \<longleftrightarrow> True"
| "is_mkdir _ \<longleftrightarrow> False"

lemma mkdir_no_key_dir: "list_all is_mkdir dirs \<Longrightarrow> keys_removed dirs"
proof (rule answered_none)
  have "is_mkdir c \<Longrightarrow> \<not> makes_key_dir c" for c :: "'o call"
    by (cases c rule: is_mkdir.cases) simp_all
  then show "list_all is_mkdir dirs \<Longrightarrow> list_all (\<lambda>c. \<not> makes_key_dir c) dirs"
    by (auto simp: list_all_iff)
qed

definition mirror_dir :: "'o env \<Rightarrow> string \<Rightarrow> string \<Rightarrow> string" where
  "mirror_dir env cacheDir repoURL = PathJoin [cacheRoot env cacheDir, ''mirrors'', repoHash repoURL @ ''.git'']"

definition checkouts_dir :: "'o env \<Rightarrow> string \<Rightarrow> string \<Rightarrow> string" where
  "checkouts_dir env cacheDir repoURL = PathJoin [cacheRoot env cacheDir, ''checkouts'', repoHash repoURL]"

lemma Checkout_run:
  assumes "run_state (Checkout fuel env cacheDir repoURL revision creds) h = (r, h')"
  obtains (early) dirs err where "h' = h @ dirs" "list_all is_mkdir dirs" "r = Some (Inl err)"
    | (auth_failed) dirs err where "list_all is_mkdir dirs" "r = Some (Inl err)"
        "run_state (prepareAuth env (cacheRoot env cacheDir) repoURL creds) (h @ dirs) = (Inl err, h')"
    | (main) dirs auth h1 h2 where "list_all is_mkdir dirs"
        "run_state (prepareAuth env (cacheRoot env cacheDir) repoURL creds) (h @ dirs) = (Inr auth, h1)"
        "run_state (checkout_locked fuel env (mirror_dir env cacheDir repoURL)
           (checkouts_dir env cacheDir repoURL) repoURL (if revision = [] then ''main'' else revision) auth) h1
           = (r, h2)"
        "run_state (cleanup_auth env auth) h2 = ((), h')"
proof -
  let ?m = "mirror_dir env cacheDir repoURL" and ?c = "checkouts_dir env cacheDir repoURL"
  let ?e1 = "os_MkdirAll (env_os env) h (Dir ?m)"
  let ?h1 = "h @ [CallOS (MkdirAll (Dir ?m) ?e1)]"
  let ?e2 = "os_MkdirAll (env_os env) ?h1 ?c"
  let ?dirs = "[CallOS (MkdirAll (Dir ?m) None), CallOS (MkdirAll ?c None)]"
  note defs = Checkout_def os_defs Let_def mirror_dir_def [symmetric] checkouts_dir_def [symmetric]
  consider (empty) "repoURL = []" | (e1) err where "repoURL \<noteq> []" "?e1 = Some err"
    | (e2) err where "repoURL \<noteq> []" "?e1 = None" "?e2 = Some err"
    | (ok) "repoURL \<noteq> []" "?e1 = None" "?e2 = None" by (cases ?e1; cases ?e2) auto
  then show ?thesis
  proof cases
    case empty
    with assms show ?thesis by (intro early [of "[]"]) (auto simp: defs)
  next
    case e1
    with assms show ?thesis by (intro early [of "[CallOS (MkdirAll (Dir ?m) ?e1)]"]) (auto simp: defs)
  next
    case e2
    with assms show ?thesis
      by (intro early [of "[CallOS (MkdirAll (Dir ?m) None), CallOS (MkdirAll ?c ?e2)]"]) (auto simp: defs)
  next
    case ok
    obtain a h1 where pa: "run_state (prepareAuth env (cacheRoot env cacheDir) repoURL creds) (h @ ?dirs) = (a, h1)"
      by (cases "run_state (prepareAuth env (cacheRoot env cacheDir) repoURL creds) (h @ ?dirs)")
    show ?thesis
    proof (cases a)
      case (Inl err)
      with assms ok pa show ?thesis by (intro auth_failed [of ?dirs err]) (auto simp: defs)
    next
      case (Inr auth)
      let ?locked = "checkout_locked fuel env ?m ?c repoURL (if revision = [] then ''main'' else revision) auth"
      obtain r' h2 where run: "run_state ?locked h1 = (r', h2)" by (cases "run_state ?locked h1")
      obtain h3 where cl: "run_state (cleanup_auth env auth) h2 = ((), h3)"
        by (metis old.unit.exhaust surj_pair)
      from assms ok pa Inr run cl have "r = r' \<and> h' = h3" by (auto simp: defs)
      with pa Inr run cl show ?thesis by (intro main [of ?dirs auth h1 h2]) auto
    qed
  qed
qed

lemma run_cleanup_auth:
  assumes "run_state (cleanup_auth env auth) h = (u, h')"
  shows "(\<forall>a d. auth = Some a \<longrightarrow> ga_cleanup a = Some d \<longrightarrow> (\<exists>x. h' = h @ [CallOS (RemoveAll d x)]))
    \<and> ((\<forall>a. auth = Some a \<longrightarrow> ga_cleanup a = None) \<longrightarrow> h' = h)"
  using assms by (auto simp: cleanup_auth_def os_defs split: option.splits)

lemma Checkout_keys:
  assumes "run_state (Checkout fuel env cacheDir repoURL revision creds) h = (r, h')"
  shows "\<exists>new. h' = h @ new \<and> keys_removed new"
  using assms
proof (cases rule: Checkout_run)
  case (early dirs err)
  then show ?thesis by (auto dest: mkdir_no_key_dir)
next
  case (auth_failed dirs err)
  note d = mkdir_no_key_dir [OF auth_failed(1)]
  from auth_failed(3) show ?thesis
    by (cases rule: prepareAuth_keys) (auto intro: answered_append [OF d])
next
  case (main dirs auth h1 h2)
  note d = mkdir_no_key_dir [OF main(1)]
  from emitsE [OF no_key_dirs.emits_checkout_locked main(3)] obtain k
    where k: "h2 = h1 @ k" "list_all (\<lambda>c. \<not> makes_key_dir c) k" .
  from main(2) show ?thesis
  proof (cases rule: prepareAuth_keys)
    case (clean new)
    with main(4) have "h' = h2" using run_cleanup_auth by blast
    with clean k d show ?thesis
      by (intro exI [of _ "dirs @ new @ k"]) (auto intro!: answered_append intro: answered_none)
  next
    case (key new d' root rest a)
    with main(4) obtain x where "h' = h2 @ [CallOS (RemoveAll d' x)]" using run_cleanup_auth by blast
    with key k have "h' = h @ (dirs @ new @ CallOS (MkdirTemp root ''ssh-*'' (Inr d')) # (rest @ k)
        @ [CallOS (RemoveAll d' x)])" by simp
    moreover have "keys_removed (dirs @ new @ CallOS (MkdirTemp root ''ssh-*'' (Inr d')) # (rest @ k)
        @ [CallOS (RemoveAll d' x)])"
      using key(2,3) k(2)
      by (intro answered_append [OF d] answered_append [OF answered_none] answered_bracket answered_none) auto
    ultimately show ?thesis by blast
  qed
qed


subsection \<open>Locks\<close>

text \<open>Taking and dropping the lock of a lock file.\<close>

fun takes_lock :: "string \<Rightarrow> 'o call \<Rightarrow> bool" where
  "takes_lock path (CallOS (FlockTry p r)) \<longleftrightarrow> p = path \<and> r = None"
| "takes_lock path _ \<longleftrightarrow> False"

fun drops_lock :: "string \<Rightarrow> 'o call \<Rightarrow> bool" where
  "drops_lock path (CallOS (FlockUnlock p)) \<longleftrightarrow> p = path"
| "drops_lock path (CallOS (CloseLock p)) \<longleftrightarrow> p = path"
| "drops_lock path _ \<longleftrightarrow> False"

fun lock_taken :: "'o call \<Rightarrow> bool" where
  "lock_taken (CallOS (FlockTry p None)) \<longleftrightarrow> True"
| "lock_taken _ \<longleftrightarrow> False"

fun lock_dropped :: "'o call \<Rightarrow> 'o call \<Rightarrow> bool" where
  "lock_dropped (CallOS (FlockTry p None)) (CallOS (FlockUnlock q)) \<longleftrightarrow> p = q"
| "lock_dropped _ _ \<longleftrightarrow> False"

text \<open>Every lock file that was opened is closed, and every lock that was taken is dropped.\<close>

definition locks_released :: "'o call list \<Rightarrow> bool" where
  "locks_released new \<longleftrightarrow> answered opens_file closes_file new \<and> answered lock_taken lock_dropped new"

interpretation releasing: trace_property locks_released
  by unfold_locales (auto simp: locks_released_def answers.T_Nil answers.T_append)

fun lock_call :: "'o call \<Rightarrow> bool" where
  "lock_call (CallOS (OpenLock p r)) \<longleftrightarrow> True"
| "lock_call (CallOS (FlockTry p r)) \<longleftrightarrow> True"
| "lock_call (CallOS (FlockUnlock p)) \<longleftrightarrow> True"
| "lock_call (CallOS (CloseLock p)) \<longleftrightarrow> True"
| "lock_call _ \<longleftrightarrow> False"

lemma lock_calls:
  "opens_file c \<Longrightarrow> lock_call c" "lock_taken c \<Longrightarrow> lock_call c" "drops_lock path c \<Longrightarrow> lock_call c"
  "takes_lock path c \<Longrightarrow> lock_call c"
  by (cases c rule: lock_call.cases; simp)+

lemma lock_wait_not_taken: "lock_wait path c \<Longrightarrow> \<not> lock_taken c"
  by (auto simp: lock_wait_def)

lemma released_none: "list_all (\<lambda>c. \<not> lock_call c) new \<Longrightarrow> locks_released new"
  unfolding locks_released_def list_all_iff
  by (metis answered_none list_all_iff lock_calls(1,2))

lemma lock_waits_released: "lock_waits path ws \<Longrightarrow> locks_released ws"
  unfolding locks_released_def lock_waits_def
  by (metis answered_none list_all_iff lock_wait_not_taken)

interpretation unlocked: mirror_calls "\<lambda>c. \<not> lock_call c"
  by unfold_locales simp_all

lemma withLock_released:
  assumes "emits (\<lambda>c. \<not> lock_call c) fn"
  shows "appends locks_released (withLock fuel env path timeout fn)"
proof (rule appendsI)
  fix h r h' assume "run_state (withLock fuel env path timeout fn) h = (r, h')"
  from withLock_run [OF this] obtain ws where ws: "lock_waits path ws"
    and *: "h' = h @ ws \<and> (r = None \<or> (\<exists>e. r = Some (Some e)))
           \<or> (\<exists>h1 h2 fr. h1 = h @ ws @ [CallOS (OpenLock path None), CallOS (FlockTry path None)]
                \<and> run_state fn h1 = (fr, h2) \<and> r = Some fr
                \<and> h' = h2 @ [CallOS (FlockUnlock path), CallOS (CloseLock path)])"
    unfolding lock_outcome_def by blast
  from * show "\<exists>new. h' = h @ new \<and> locks_released new"
  proof (elim disjE exE conjE)
    assume "h' = h @ ws" with ws show ?thesis by (blast intro: lock_waits_released)
  next
    assume "h' = h @ ws" with ws show ?thesis by (blast intro: lock_waits_released)
  next
    fix h1 h2 fr
    assume h1: "h1 = h @ ws @ [CallOS (OpenLock path None), CallOS (FlockTry path None)]"
      and run: "run_state fn h1 = (fr, h2)"
      and h': "h' = h2 @ [CallOS (FlockUnlock path), CallOS (CloseLock path)]"
    from emitsE [OF assms run] obtain k where k: "h2 = h1 @ k" "list_all (\<lambda>c. \<not> lock_call c) k" .
    let ?fin = "[CallOS (FlockUnlock path), CallOS (CloseLock path)]"
    let ?sec = "CallOS (OpenLock path None) # [] @ CallOS (FlockTry path None) # k @ ?fin"
    have n: "list_all (\<lambda>c. \<not> opens_file c) k" "list_all (\<lambda>c. \<not> lock_taken c) k"
      using k(2) by (auto simp: list_all_iff dest: lock_calls)
    have "answered opens_file closes_file ?sec"
      by (rule answered_bracket, rule answered_none, simp, force,
          rule answered_none, use n(1) in simp)
    moreover have "answered lock_taken lock_dropped ([CallOS (OpenLock path None)] @ CallOS (FlockTry path None) # k @ ?fin)"
      by (rule answered_append, rule answered_none, simp, rule answered_bracket, rule answered_none,
          rule n(2), simp, rule answered_none, simp)
    ultimately have "locks_released ?sec" by (simp add: locks_released_def)
    with releasing.T_append [OF lock_waits_released [OF ws]] h1 h' k(1)
    show ?thesis by (intro exI [of _ "ws @ ?sec"]) simp
  qed
qed

lemma Checkout_released:
  "appends locks_released (Checkout fuel env cacheDir repoURL revision creds)"
proof -
  have n: "appends locks_released m" if "emits (\<lambda>c. \<not> lock_call c) m" for m :: "('a, 'b) prog"
    using that by (rule releasing.appends_emits) (rule released_none)
  have pop: "emits (\<lambda>c. \<not> lock_call c) (populate env mirrorDir checkoutDir finalDir sha auth)"
    for mirrorDir checkoutDir finalDir sha auth
    unfolding populate_def clone_into_def move_clone_def by (intro wp) simp_all
  have os: "appends locks_released (osMkdirAll env p)" "appends locks_released (osStat env p)"
    "appends locks_released (resolveRevision env p rev' auth)" "appends locks_released (cleanup_auth env auth)"
    for p rev' auth
    by (intro n unlocked.emits_resolveRevision unlocked.emits_cleanup_auth wp; simp)+
  have locked: "appends locks_released (checkout_locked fuel env mirrorDir checkoutDir repoURL rev' auth)"
    for mirrorDir checkoutDir rev' auth
    unfolding checkout_locked_def checkout_tree_def Let_def
    by (intro releasing.appends_rules withLock_released unlocked.emits_ensureMirror pop os)
  have prep: "appends locks_released (prepareAuth env base repoURL creds)" for base
    unfolding prepareAuth_def prepare_ssh_def write_keys_def Let_def by (intro n wp) simp_all
  show ?thesis
    unfolding Checkout_def Let_def by (intro releasing.appends_rules locked prep os)
qed


subsection \<open>The working tree\<close>

fun is_git :: "'o call \<Rightarrow> bool" where
  "is_git (CallOS (RunGit bin d ex args r)) \<longleftrightarrow> True"
| "is_git (CallOS (StatPath p r)) \<longleftrightarrow> True"
| "is_git _ \<longleftrightarrow> False"

text \<open>
  \<open>checked_out t sha new\<close>: git checked the commit out in the directory \<open>t\<close>, successfully. The working
  tree exists at the end: it was seen, or a clone on which the commit had been checked out was moved there,
  or that move failed because something is there.
\<close>

definition checked_out :: "string \<Rightarrow> string \<Rightarrow> 'o call list \<Rightarrow> bool" where
  "checked_out t sha new \<longleftrightarrow>
     (\<exists>bin ex pre out. CallOS (RunGit bin t ex (pre @ [''checkout'', ''--force'', ''--detach'', sha]) (out, None)) \<in> set new)"

definition tree_present :: "string \<Rightarrow> string \<Rightarrow> 'o call list \<Rightarrow> bool" where
  "tree_present finalDir sha new \<longleftrightarrow>
     (\<exists>b. CallOS (StatPath finalDir (Inr b)) \<in> set new)
     \<or> (\<exists>t e. CallOS (RenamePath t finalDir e) \<in> set new \<and> checked_out t sha new
             \<and> (case e of None \<Rightarrow> True | Some err \<Rightarrow> is_os ErrExist err))"

lemma checked_out_mono: "checked_out t sha new \<Longrightarrow> set new \<subseteq> set new' \<Longrightarrow> checked_out t sha new'"
  unfolding checked_out_def by blast

lemma tree_present_mono: "tree_present d sha new \<Longrightarrow> set new \<subseteq> set new' \<Longrightarrow> tree_present d sha new'"
  unfolding tree_present_def by (blast intro: checked_out_mono)

lemma run_runGit_ok:
  assumes "run_state (runGit env d auth args) h = (None, h')"
  shows "\<exists>new bin ex out. h' = h @ new @ [CallOS (RunGit bin d ex (auth_args auth @ args) (out, None))]"
proof -
  obtain bin h1 where bin: "run_state (gitBinaryPath env) h = (bin, h1)" by (cases "run_state (gitBinaryPath env) h")
  have "emits (\<lambda>_. True) (gitBinaryPath env)" by (intro wp) simp
  from emitsE [OF this bin] obtain new where "h1 = h @ new" by blast
  with assms bin show ?thesis
    by (auto simp: runGit_def runGitCommand_def os_defs split: sum.splits option.splits prod.splits)
qed

lemma run_runGitOutput_ok:
  assumes "run_state (runGitOutput env d auth args) h = (Inr out, h')"
  shows "\<exists>new bin ex. h' = h @ new @ [CallOS (RunGit bin d ex (auth_args auth @ args) (out, None))]"
proof -
  obtain bin h1 where bin: "run_state (gitBinaryPath env) h = (bin, h1)" by (cases "run_state (gitBinaryPath env) h")
  have "emits (\<lambda>_. True) (gitBinaryPath env)" by (intro wp) simp
  from emitsE [OF this bin] obtain new where "h1 = h @ new" by blast
  with assms bin show ?thesis
    by (auto simp: runGitOutput_def runGitCommand_def os_defs split: sum.splits option.splits prod.splits)
qed

lemma move_clone_run:
  assumes "run_state (move_clone env tempDir finalDir) h = ((r, cleanupDir), h')"
  obtains (failed) new err where "h' = h @ new" "r = Some err" "cleanupDir = tempDir"
      "\<forall>p x. CallOS (RemoveAll p x) \<notin> set new"
    | (moved) new e where "h' = h @ new" "r = None" "cleanupDir = []"
      "CallOS (RenamePath tempDir finalDir e) \<in> set new" "\<forall>p x. CallOS (RemoveAll p x) \<notin> set new"
      "\<And>sha pre. checked_out tempDir sha pre \<Longrightarrow> tree_present finalDir sha (pre @ new)"
proof -
  let ?mv = "os_Rename (env_os env) h tempDir finalDir"
  let ?rn = "CallOS (RenamePath tempDir finalDir ?mv)"
  let ?st = "os_Stat (env_os env) (h @ [?rn]) finalDir"
  have present: "tree_present finalDir sha (pre @ [?rn])"
    if "case ?mv of None \<Rightarrow> True | Some err \<Rightarrow> is_os ErrExist err" "checked_out tempDir sha pre" for sha pre
    using checked_out_mono [OF that(2), of "pre @ [?rn]"] that(1) unfolding tree_present_def by auto
  consider (ok) "case ?mv of None \<Rightarrow> True | Some err \<Rightarrow> is_os ErrExist err"
    | (seen) err b where "?mv = Some err" "\<not> is_os ErrExist err" "?st = Inr b"
    | (lost) err e where "?mv = Some err" "\<not> is_os ErrExist err" "?st = Inl e"
    by (cases ?mv; cases ?st) auto
  then show ?thesis
  proof cases
    case ok
    with assms present show ?thesis
      by (intro moved [of "[?rn]" ?mv]) (auto simp: move_clone_def os_defs split: option.splits)
  next
    case seen
    with assms show ?thesis
      by (intro moved [of "[?rn, CallOS (StatPath finalDir ?st)]" ?mv]) (auto simp: move_clone_def os_defs tree_present_def)
  next
    case lost
    with assms show ?thesis
      by (intro failed [of "[?rn, CallOS (StatPath finalDir ?st)]" err]) (auto simp: move_clone_def os_defs)
  qed
qed

lemma clone_into_run:
  assumes "run_state (clone_into env mirrorDir tempDir finalDir sha auth) h = ((r, cleanupDir), h')"
  obtains (failed) new err where "h' = h @ new" "r = Some err" "cleanupDir = tempDir"
      "\<forall>p x. CallOS (RemoveAll p x) \<notin> set new"
    | (moved) new e where "h' = h @ new" "r = None" "cleanupDir = []" "tree_present finalDir sha new"
      "CallOS (RenamePath tempDir finalDir e) \<in> set new" "\<forall>p x. CallOS (RemoveAll p x) \<notin> set new"
proof -
  let ?co = "[''checkout'', ''--force'', ''--detach'', sha]"
  let ?k = "\<lambda>k. case k of Some err \<Rightarrow> State_Monad.return (Some err, tempDir) | None \<Rightarrow> move_clone env tempDir finalDir"
  have g: "emits is_git (runGit env d auth args)" for d args by (intro wp) simp_all
  have no_rm: "\<forall>p x. CallOS (RemoveAll p x) \<notin> set new" if "list_all is_git new" for new :: "'a call list"
    using that by (auto simp: list_all_iff)
  from assms obtain c h1 where c: "run_state (runGit env mirrorDir auth [''clone'', ''--no-checkout'', mirrorDir, tempDir]) h = (c, h1)"
    and rest: "run_state (case c of Some err \<Rightarrow> State_Monad.return (Some err, tempDir)
      | None \<Rightarrow> State_Monad.bind (runGit env tempDir auth ?co) ?k) h1 = ((r, cleanupDir), h')"
    unfolding clone_into_def by (rule run_bindE)
  from emitsE [OF g c] obtain n1 where n1: "h1 = h @ n1" "list_all is_git n1" .
  show ?thesis
  proof (cases c)
    case (Some err)
    with rest n1 show ?thesis by (intro failed [of n1 err]) (auto simp: no_rm)
  next
    case None
    with rest obtain k h2 where k: "run_state (runGit env tempDir auth ?co) h1 = (k, h2)"
      and rest2: "run_state (?k k) h2 = ((r, cleanupDir), h')"
      by (simp only: option.case) (rule run_bindE)
    from emitsE [OF g k] obtain n2 where n2: "h2 = h1 @ n2" "list_all is_git n2" .
    have n: "h2 = h @ n1 @ n2" "\<forall>p x. CallOS (RemoveAll p x) \<notin> set (n1 @ n2)"
      using n1 n2 no_rm [of "n1 @ n2"] by simp_all
    show ?thesis
    proof (cases k)
      case (Some err)
      with rest2 n show ?thesis by (intro failed [of "n1 @ n2" err]) auto
    next
      case None
      from run_runGit_ok [OF k [unfolded None]] n2(1) obtain new bin ex out
        where "n2 = new @ [CallOS (RunGit bin tempDir ex (auth_args auth @ ?co) (out, None))]" by auto
      then have "CallOS (RunGit bin tempDir ex (auth_args auth @ ?co) (out, None)) \<in> set (n1 @ n2)" by simp
      then have chk: "checked_out tempDir sha (n1 @ n2)" unfolding checked_out_def by blast
      from rest2 None have "run_state (move_clone env tempDir finalDir) h2 = ((r, cleanupDir), h')" by simp
      then show ?thesis
      proof (cases rule: move_clone_run)
        case (failed new err)
        with n show ?thesis by (intro that(1) [of "n1 @ n2 @ new" err]) auto
      next
        case (moved new e)
        with n moved(6) [OF chk] show ?thesis by (intro that(2) [of "n1 @ n2 @ new" e]) auto
      qed
    qed
  qed
qed

lemma populate_run:
  assumes "run_state (populate env mirrorDir checkoutDir finalDir sha auth) h = (r, h')"
  obtains new where "h' = h @ new" "r = None \<Longrightarrow> tree_present finalDir sha new"
    "\<forall>p x. CallOS (RemoveAll p x) \<in> set new \<longrightarrow> CallOS (MkdirTemp checkoutDir ''tmp-*'' (Inr p)) \<in> set new"
    "\<forall>t. CallOS (MkdirTemp checkoutDir ''tmp-*'' (Inr t)) \<in> set new \<longrightarrow> t \<noteq> [] \<longrightarrow>
       (\<exists>x. CallOS (RemoveAll t x) \<in> set new) \<or> r = None \<and> (\<exists>e. CallOS (RenamePath t finalDir e) \<in> set new)"
proof -
  let ?st = "os_Stat (env_os env) h finalDir"
  let ?s = "CallOS (StatPath finalDir ?st)"
  let ?t = "os_MkdirTemp (env_os env) (h @ [?s]) checkoutDir ''tmp-*''"
  let ?m = "CallOS (MkdirTemp checkoutDir ''tmp-*'' ?t)"
  consider (present) "?st = Inr True" | (no_temp) err where "?st \<noteq> Inr True" "?t = Inl err"
    | (temp) d where "?st \<noteq> Inr True" "?t = Inr d" by (cases ?t) auto
  then show ?thesis
  proof cases
    case present
    with assms show ?thesis
      by (intro that [of "[?s]"]) (auto simp: populate_def os_defs tree_present_def)
  next
    case no_temp
    with assms show ?thesis
      by (intro that [of "[?s, ?m]"]) (auto simp: populate_def os_defs tree_present_def)
  next
    case temp
    obtain r' cleanupDir h2 where run: "run_state (clone_into env mirrorDir d finalDir sha auth) (h @ [?s, ?m])
        = ((r', cleanupDir), h2)" by (metis surj_pair)
    have out: "h' = (if cleanupDir \<noteq> [] then h2 @ [CallOS (RemoveAll cleanupDir (os_RemoveAll (env_os env) h2 cleanupDir))] else h2)"
      "r = r'"
      using assms temp run by (auto simp: populate_def os_defs split: if_splits)
    have only: "CallOS (MkdirTemp checkoutDir ''tmp-*'' (Inr t)) \<notin> set k"
      if "h2 = (h @ [?s, ?m]) @ k" for t k
    proof -
      have "emits (\<lambda>c. \<forall>t. c \<noteq> CallOS (MkdirTemp checkoutDir ''tmp-*'' (Inr t))) (clone_into env mirrorDir d finalDir sha auth)"
        unfolding clone_into_def move_clone_def by (intro wp) simp_all
      from emitsE [OF this run] that show ?thesis by (auto simp: list_all_iff)
    qed
    from run show ?thesis
    proof (cases rule: clone_into_run)
      case (failed k err)
      let ?rm = "if d \<noteq> [] then [CallOS (RemoveAll d (os_RemoveAll (env_os env) h2 d))] else []"
      from failed out temp only [OF failed(1)] show ?thesis
        by (intro that [of "[?s, ?m] @ k @ ?rm"]) auto
    next
      case (moved k e)
      from moved out temp only [OF moved(1)] show ?thesis
        by (intro that [of "[?s, ?m] @ k"]) (auto elim: tree_present_mono)
    qed
  qed
qed

end
