(* ===== verification/Git_Safety.thy ===== *)
theory Git_Safety
  imports Git_Props
begin

section \<open>The mirror's lock and the result of a checkout\<close>

text \<open>
  Two lines of lemmas behind the claims of \<open>Checkout_Props\<close>: every change of the mirror happens while its
  lock is held (\<open>Checkout_safe\<close>), and what a successful run of the locked part has done
  (\<open>checkout_locked_success\<close>).
\<close>

subsection \<open>The mirror is changed only under its lock\<close>

text \<open>The git commands of \<open>ensureMirror\<close>, recognised by their last arguments.\<close>

definition mirror_args :: "string list \<Rightarrow> bool" where
  "mirror_args args \<longleftrightarrow> (let r = rev args in
     take 8 r = rev fetch_args
     \<or> take 3 r = [''origin'', ''remove'', ''remote'']
     \<or> drop 1 (take 4 r) = [''origin'', ''add'', ''remote'']
     \<or> drop 1 (take 3 r) = [''--bare'', ''init''])"

fun mirror_change :: "string \<Rightarrow> 'o call \<Rightarrow> bool" where
  "mirror_change m (CallOS (RemoveAll p r)) \<longleftrightarrow> p = m"
| "mirror_change m (CallOS (RunGit bin d ex args r)) \<longleftrightarrow> mirror_args args"
| "mirror_change m _ \<longleftrightarrow> False"

lemma not_mirror_args [simp]:
  "\<not> mirror_args (a @ [''clone'', ''--no-checkout'', p, q])"
  "\<not> mirror_args (a @ [''checkout'', ''--force'', ''--detach'', sha])"
  "\<not> mirror_args (a @ [''rev-parse'', ''--verify'', rv])"
  "\<not> mirror_args (a @ [''ls-remote'', ''--refs'', ''origin'', rv])"
  by (simp_all add: mirror_args_def fetch_args_def Let_def)

lemma mirror_change_kinds: "mirror_change m c \<Longrightarrow> is_git c \<or> (\<exists>x. c = CallOS (RemoveAll m x))"
  by (cases "(m, c)" rule: mirror_change.cases) simp_all

lemma lock_wait_no_change: "lock_wait path c \<Longrightarrow> \<not> mirror_change m c"
  by (auto simp: lock_wait_def)

definition temp_named :: "string \<Rightarrow> 'o call list \<Rightarrow> bool" where
  "temp_named m new \<longleftrightarrow> (\<exists>d pat. CallOS (MkdirTemp d pat (Inr m)) \<in> set new)"

text \<open>
  Unless the system hands out the mirror's own path as a fresh temporary directory, every change of
  the mirror happens while the mirror's lock is held.
\<close>

definition mirror_safe :: "string \<Rightarrow> 'o call list \<Rightarrow> bool" where
  "mirror_safe m new \<longleftrightarrow> temp_named m new \<or>
     while_held (takes_lock (m @ ''.lockfile'')) (drops_lock (m @ ''.lockfile'')) (mirror_change m) new"

interpretation safely: trace_property "mirror_safe m" for m
  by unfold_locales (auto simp: mirror_safe_def temp_named_def holding.T_Nil intro: holding.T_append)

lemma safe_none: "list_all (\<lambda>c. \<not> mirror_change m c) new \<Longrightarrow> mirror_safe m new"
  by (simp add: mirror_safe_def while_held_none)

lemma safe_emits: "emits (\<lambda>c. \<not> mirror_change m c) p \<Longrightarrow> appends (mirror_safe m) p"
  by (erule safely.appends_emits) (rule safe_none)

text \<open>A section under the lock, and a section under any lock that changes nothing.\<close>

lemma withLock_safe:
  assumes "appends (\<lambda>new. (path = m @ ''.lockfile'' \<and> list_all (\<lambda>c. \<not> lock_call c) new)
      \<or> mirror_safe m new) fn"
  shows "appends (mirror_safe m) (withLock fuel env path timeout fn)"
proof (rule appendsI)
  fix h r h' assume "run_state (withLock fuel env path timeout fn) h = (r, h')"
  from withLock_run [OF this] obtain ws where ws: "lock_waits path ws"
    and *: "h' = h @ ws \<or> (\<exists>h1 h2 fr. h1 = h @ ws @ [CallOS (OpenLock path None), CallOS (FlockTry path None)]
                \<and> run_state fn h1 = (fr, h2)
                \<and> h' = h2 @ [CallOS (FlockUnlock path), CallOS (CloseLock path)])"
    unfolding lock_outcome_def by blast
  have wsafe: "mirror_safe m ws"
    using ws by (intro safe_none) (auto simp: lock_waits_def list_all_iff dest: lock_wait_no_change)
  from * show "\<exists>new. h' = h @ new \<and> mirror_safe m new"
  proof (elim disjE exE conjE)
    assume "h' = h @ ws" with wsafe show ?thesis by blast
  next
    fix h1 h2 fr
    assume h1: "h1 = h @ ws @ [CallOS (OpenLock path None), CallOS (FlockTry path None)]"
      and run: "run_state fn h1 = (fr, h2)"
      and h': "h' = h2 @ [CallOS (FlockUnlock path), CallOS (CloseLock path)]"
    let ?o = "CallOS (OpenLock path None)" and ?t = "CallOS (FlockTry path None)"
      and ?e = "[CallOS (FlockUnlock path), CallOS (CloseLock path)]"
    from assms run obtain k where k: "h2 = h1 @ k"
      "(path = m @ ''.lockfile'' \<and> list_all (\<lambda>c. \<not> lock_call c) k) \<or> mirror_safe m k" by (rule appendsE)
    have "mirror_safe m (?t # k)"
      using k(2)
    proof
      assume s: "path = m @ ''.lockfile'' \<and> list_all (\<lambda>c. \<not> lock_call c) k"
      then have "list_all (\<lambda>c. \<not> drops_lock (m @ ''.lockfile'') c) k"
        by (metis list_all_iff lock_calls(3))
      with s have "while_held (takes_lock (m @ ''.lockfile'')) (drops_lock (m @ ''.lockfile'')) (mirror_change m) (?t # k)"
        by (intro while_held_section) simp_all
      then show ?thesis by (simp add: mirror_safe_def)
    next
      assume "mirror_safe m k"
      then show ?thesis using safely.T_append [OF safe_none [of m "[?t]"]] by simp
    qed
    then have "mirror_safe m ((ws @ [?o]) @ (?t # k) @ ?e)"
      using wsafe by (intro safely.T_append safe_none [of m ?e] safe_none [of m "[?o]"]) simp_all
    with h1 h' k(1) show ?thesis by (intro exI [of _ "ws @ [?o] @ (?t # k) @ ?e"]) simp
  qed
qed

lemma populate_safe: "appends (mirror_safe m) (populate env mirrorDir checkoutDir finalDir sha auth)"
proof (rule appendsI)
  fix h r h' assume run: "run_state (populate env mirrorDir checkoutDir finalDir sha auth) h = (r, h')"
  then obtain new where new: "h' = h @ new"
    "\<forall>p x. CallOS (RemoveAll p x) \<in> set new \<longrightarrow> CallOS (MkdirTemp checkoutDir ''tmp-*'' (Inr p)) \<in> set new"
    by (rule populate_run)
  have "emits (\<lambda>c. mirror_change m c \<longrightarrow> (\<exists>x. c = CallOS (RemoveAll m x)))
      (populate env mirrorDir checkoutDir finalDir sha auth)"
    unfolding populate_def clone_into_def move_clone_def by (intro wp) simp_all
  from emitsE [OF this run] new(1)
  have "list_all (\<lambda>c. mirror_change m c \<longrightarrow> (\<exists>x. c = CallOS (RemoveAll m x))) new" by simp
  with new(2) have "temp_named m new \<or> list_all (\<lambda>c. \<not> mirror_change m c) new"
    unfolding temp_named_def list_all_iff by blast
  with new(1) show "\<exists>new. h' = h @ new \<and> mirror_safe m new"
    using safe_none mirror_safe_def by blast
qed

lemma checkout_locked_safe:
  "appends (mirror_safe m) (checkout_locked fuel env m checkoutDir repoURL revision auth)"
proof -
  have l: "appends (mirror_safe m) (withLock fuel env (m @ ''.lockfile'') t (ensureMirror env m repoURL auth))" for t
    by (rule withLock_safe, rule appends_mono [of "list_all (\<lambda>c. \<not> lock_call c)"])
      (simp_all add: unlocked.emits_ensureMirror flip: emits_appends)
  have p: "appends (mirror_safe m) (withLock fuel env path t (populate env m checkoutDir finalDir sha auth))"
    for path t finalDir sha
    by (rule withLock_safe, rule appends_mono [OF populate_safe [of m]]) simp
  have r: "appends (mirror_safe m) (resolveRevision env m revision auth)"
    unfolding resolveRevision_def by (intro safe_emits wp) simp_all
  have s: "appends (mirror_safe m) (osStat env path)" for path by (intro safe_emits wp) simp
  show ?thesis
    unfolding checkout_locked_def checkout_tree_def Let_def by (intro safely.appends_rules l p r s)
qed

text \<open>What \<open>prepareAuth\<close> removes, it has just made.\<close>

lemma prepareAuth_safe:
  assumes "run_state (prepareAuth env base repoURL creds) h = (r, h')"
  obtains new where "h' = h @ new" "list_all (\<lambda>c. \<not> is_git c \<or> \<not> mirror_change m c) new"
    "\<forall>p x. CallOS (RemoveAll p x) \<in> set new \<longrightarrow> (\<exists>d pat. CallOS (MkdirTemp d pat (Inr p)) \<in> set new)"
proof -
  have "emits (\<lambda>c. \<not> is_git c \<or> \<not> mirror_change m c) (prepareAuth env base repoURL creds)"
    unfolding prepareAuth_def prepare_ssh_def write_keys_def Let_def by (intro wp) simp_all
  from emitsE [OF this assms] obtain new
    where new: "h' = h @ new" "list_all (\<lambda>c. \<not> is_git c \<or> \<not> mirror_change m c) new" .
  have "\<exists>d pat. CallOS (MkdirTemp d pat (Inr p)) \<in> set new" if rm: "CallOS (RemoveAll p x) \<in> set new" for p x
  proof (cases "\<exists>c. prepareAuth env base repoURL creds = prepare_ssh env base c")
    case False
    with assms new(1) rm show ?thesis by (auto simp: prepareAuth_def split: option.splits if_splits)
  next
    case True
    then obtain c where run: "run_state (prepare_ssh env base c) h = (r, h')" using assms by auto
    have "emits (\<lambda>c. \<forall>q x. c = CallOS (RemoveAll q x) \<longrightarrow> q = d) (write_keys env d pk kh c)"
      and "emits (\<lambda>c. \<forall>q x. c = CallOS (RemoveAll q x) \<longrightarrow> q = d) (sshBinaryPath env)" for d pk kh
      unfolding write_keys_def by (intro wp; simp)+
    then have inner: "emits (\<lambda>c. \<forall>q x. c = CallOS (RemoveAll q x) \<longrightarrow> q = d)
        (State_Monad.bind (write_keys env d pk kh c) (\<lambda>w. case w of
           Some err \<Rightarrow> State_Monad.return (Inl err)
         | None \<Rightarrow> State_Monad.bind (sshBinaryPath env) (\<lambda>ssh. State_Monad.return (Inr (Some (ssh_auth ssh pk kh d))))))"
      (is "emits _ (?inner d pk kh)") for d pk kh by (intro wp) simp_all
    let ?root = "PathJoin [base, ''auth'']"
    let ?e1 = "os_MkdirAll (env_os env) h ?root"
    let ?h1 = "h @ [CallOS (MkdirAll ?root ?e1)]"
    let ?t = "os_MkdirTemp (env_os env) ?h1 ?root ''ssh-*''"
    let ?two = "[CallOS (MkdirAll ?root ?e1), CallOS (MkdirTemp ?root ''ssh-*'' ?t)]"
    show ?thesis
    proof (cases "\<exists>d. ?e1 = None \<and> ?t = Inr d")
      case False
      with run new(1) rm show ?thesis
        by (cases ?e1; cases ?t) (auto simp: prepare_ssh_def os_defs Let_def)
    next
      case True
      then obtain d where d: "?e1 = None" "?t = Inr d" by blast
      with run have "run_state (?inner d (PathJoin [d, ''id_ed25519'']) (PathJoin [d, ''known_hosts''])) (h @ ?two) = (r, h')"
        by (simp add: prepare_ssh_def os_defs Let_def)
      from emitsE [OF inner this] obtain k where "h' = (h @ ?two) @ k"
        "list_all (\<lambda>c. \<forall>q x. c = CallOS (RemoveAll q x) \<longrightarrow> q = d) k" .
      with new(1) rm d have "p = d" "CallOS (MkdirTemp ?root ''ssh-*'' (Inr d)) \<in> set new"
        by (auto simp: list_all_iff)
      then show ?thesis by blast
    qed
  qed
  with new that show ?thesis by blast
qed

lemma dirs_safe:
  assumes "list_all is_mkdir dirs"
  shows "mirror_safe m dirs"
proof (rule safe_none)
  have "is_mkdir c \<Longrightarrow> \<not> mirror_change m c" for c :: "'a call" by (cases c rule: is_mkdir.cases) simp_all
  with assms show "list_all (\<lambda>c. \<not> mirror_change m c) dirs" by (auto simp: list_all_iff)
qed

text \<open>The authentication changes the mirror only if the key directory is given the mirror's name.\<close>

lemma auth_safe:
  assumes "list_all (\<lambda>c. \<not> is_git c \<or> \<not> mirror_change m c) new"
    and "\<forall>p x. CallOS (RemoveAll p x) \<in> set new \<longrightarrow> (\<exists>d pat. CallOS (MkdirTemp d pat (Inr p)) \<in> set new)"
  shows "mirror_safe m new"
proof (cases "temp_named m new")
  case False
  have "\<not> mirror_change m c" if c: "c \<in> set new" for c
  proof
    assume mc: "mirror_change m c"
    with c assms(1) have "\<not> is_git c" by (auto simp: list_all_iff)
    with mc obtain x where "c = CallOS (RemoveAll m x)" using mirror_change_kinds by blast
    with c assms(2) False show False by (auto simp: temp_named_def)
  qed
  then show ?thesis by (intro safe_none) (auto simp: list_all_iff)
qed (simp add: mirror_safe_def)

lemma cleanup_safe:
  assumes "run_state (cleanup_auth env auth) h2 = (u, h')" and "mirror_safe m body"
    and "\<And>a d. auth = Some a \<Longrightarrow> ga_cleanup a = Some d \<Longrightarrow> \<exists>root. CallOS (MkdirTemp root ''ssh-*'' (Inr d)) \<in> set body"
  shows "\<exists>new. h' = h2 @ new \<and> mirror_safe m (body @ new)"
proof (cases "\<exists>a d. auth = Some a \<and> ga_cleanup a = Some d")
  case False
  then have "\<forall>a. auth = Some a \<longrightarrow> ga_cleanup a = None" by auto
  with run_cleanup_auth [OF assms(1)] have "h' = h2" by blast
  with assms(2) show ?thesis by simp
next
  case True
  then obtain a d where a: "auth = Some a" "ga_cleanup a = Some d" by blast
  with run_cleanup_auth [OF assms(1)] obtain x where x: "h' = h2 @ [CallOS (RemoveAll d x)]" by blast
  from assms(3) [OF a] have "mirror_safe m (body @ [CallOS (RemoveAll d x)])"
    using safely.T_append [OF assms(2) safe_none [of m "[CallOS (RemoveAll d x)]"]]
    by (cases "d = m") (auto simp: mirror_safe_def temp_named_def)
  with x show ?thesis by blast
qed

lemma Checkout_safe:
  assumes "run_state (Checkout fuel env cacheDir repoURL revision creds) h = (r, h')"
  shows "\<exists>new. h' = h @ new \<and> mirror_safe (mirror_dir env cacheDir repoURL) new"
  using assms
proof (cases rule: Checkout_run)
  case (early dirs err)
  with dirs_safe [OF early(2)] show ?thesis by blast
next
  let ?m = "mirror_dir env cacheDir repoURL"
  case (auth_failed dirs err)
  from auth_failed(3) obtain new where new: "h' = (h @ dirs) @ new"
    "list_all (\<lambda>c. \<not> is_git c \<or> \<not> mirror_change ?m c) new"
    "\<forall>p x. CallOS (RemoveAll p x) \<in> set new \<longrightarrow> (\<exists>d pat. CallOS (MkdirTemp d pat (Inr p)) \<in> set new)"
    by (rule prepareAuth_safe)
  have "mirror_safe ?m (dirs @ new)"
    by (rule safely.T_append [OF dirs_safe [OF auth_failed(1)] auth_safe [OF new(2,3)]])
  with new(1) show ?thesis by (intro exI [of _ "dirs @ new"]) simp
next
  let ?m = "mirror_dir env cacheDir repoURL"
  case (main dirs auth h1 h2)
  from main(2) obtain new where new: "h1 = (h @ dirs) @ new"
    "list_all (\<lambda>c. \<not> is_git c \<or> \<not> mirror_change ?m c) new"
    "\<forall>p x. CallOS (RemoveAll p x) \<in> set new \<longrightarrow> (\<exists>d pat. CallOS (MkdirTemp d pat (Inr p)) \<in> set new)"
    by (rule prepareAuth_safe)
  from checkout_locked_safe main(3) obtain k where k: "h2 = h1 @ k" "mirror_safe ?m k" by (rule appendsE)
  let ?body = "dirs @ new @ k"
  have body: "mirror_safe ?m ?body"
    by (rule safely.T_append [OF dirs_safe [OF main(1)] safely.T_append [OF auth_safe [OF new(2,3)] k(2)]])
  have "\<exists>root. CallOS (MkdirTemp root ''ssh-*'' (Inr d)) \<in> set ?body"
    if a: "auth = Some a" "ga_cleanup a = Some d" for a d
    using main(2) by (cases rule: prepareAuth_keys) (use a new(1) in auto)
  with cleanup_safe [OF main(4) body] obtain e where "h' = h2 @ e" "mirror_safe ?m (?body @ e)" by blast
  with new(1) k(1) show ?thesis by (intro exI [of _ "?body @ e"]) simp
qed


subsection \<open>Revisions and results\<close>

lemma hex_char_lower [simp]: "hex_char (lower_char c) = hex_char c"
  by (auto simp: hex_char_def of_char_lower_char Let_def)

lemma sha1Re_ToLower [simp]: "sha1Re (ToLower s) = sha1Re s"
  by (simp add: sha1Re_def ToLower_def list_all_iff)

lemma resolveRevision_sha:
  assumes "run_state (resolveRevision env mirrorDir revision auth) h = (Inr sha, h')"
  shows "sha1Re sha \<and> (sha1Re revision \<longrightarrow> sha = ToLower revision)"
  using assms unfolding resolveRevision_def
  by (auto split: if_splits sum.splits option.splits list.splits prod.splits elim!: run_bindE)

text \<open>
  What git has answered when the revision was resolved in the mirror: it verified the hash, or the commit is the
  first word of its listing of the references whose name ends in the revision.
\<close>

definition names_commit :: "string \<Rightarrow> string \<Rightarrow> string \<Rightarrow> 'o call list \<Rightarrow> bool" where
  "names_commit m revision sha new \<longleftrightarrow>
     (\<exists>bin ex auth out.
        if sha1Re revision then
          sha = ToLower revision
          \<and> CallOS (RunGit bin m ex (auth @ [''rev-parse'', ''--verify'', revision @ ''^{commit}'']) (out, None)) \<in> set new
        else
          CallOS (RunGit bin m ex (auth @ [''ls-remote'', ''--refs'', ''origin'', revision]) (out, None)) \<in> set new
          \<and> (\<exists>rest. Fields (TrimSpace out) = sha # rest))"

lemma names_commit_mono: "names_commit m revision sha new \<Longrightarrow> set new \<subseteq> set new' \<Longrightarrow> names_commit m revision sha new'"
  unfolding names_commit_def by (meson subsetD)

lemma resolveRevision_names:
  assumes "run_state (resolveRevision env m revision auth) h = (Inr sha, h')"
  shows "\<exists>new. h' = h @ new \<and> names_commit m revision sha new"
proof (cases "sha1Re revision")
  case True
  let ?git = "runGit env m auth [''rev-parse'', ''--verify'', revision @ ''^{commit}'']"
  obtain v h1 where v: "run_state ?git h = (v, h1)" by (cases "run_state ?git h")
  with assms True have "v = None" "h1 = h'" and sha: "sha = ToLower revision"
    unfolding resolveRevision_def by (auto split: option.splits)
  with v run_runGit_ok [of env m auth _ h h'] obtain new bin ex out where
    "h' = h @ new @ [CallOS (RunGit bin m ex (auth_args auth @ [''rev-parse'', ''--verify'', revision @ ''^{commit}'']) (out, None))]"
    by blast
  with True sha show ?thesis unfolding names_commit_def
    by (intro exI conjI) (assumption, simp, force)
next
  case False
  let ?git = "runGitOutput env m auth [''ls-remote'', ''--refs'', ''origin'', revision]"
  obtain v h1 where v: "run_state ?git h = (v, h1)" by (cases "run_state ?git h")
  with assms False obtain out rest where "v = Inr out" "h1 = h'" and sha: "Fields (TrimSpace out) = sha # rest"
    unfolding resolveRevision_def by (auto split: sum.splits list.splits if_splits)
  with v run_runGitOutput_ok [of env m auth _ h out h'] obtain new bin ex where
    "h' = h @ new @ [CallOS (RunGit bin m ex (auth_args auth @ [''ls-remote'', ''--refs'', ''origin'', revision]) (out, None))]"
    by blast
  with False sha show ?thesis unfolding names_commit_def
    by (intro exI conjI) (assumption, simp, force)
qed

text \<open>A successful run of the part under the locks.\<close>

lemma checkout_tree_success:
  assumes "run_state (checkout_tree fuel env mirrorDir checkoutDir sha' auth) h = (Some (Inr (dir, sha)), h')"
  shows "\<exists>new. h' = h @ new \<and> sha = sha' \<and> dir = PathJoin [checkoutDir, sha'] \<and> tree_present dir sha new"
proof -
  let ?final = "PathJoin [checkoutDir, sha']"
  let ?lock = "?final @ ''.lockfile''"
  let ?st = "os_Stat (env_os env) h ?final"
  let ?s = "CallOS (StatPath ?final ?st)"
  show ?thesis
  proof (cases "?st = Inr True")
    case True
    with assms show ?thesis by (auto simp: checkout_tree_def os_defs Let_def tree_present_def)
  next
    case False
    let ?w = "withLock fuel env ?lock (30 * Second) (populate env mirrorDir checkoutDir ?final sha' auth)"
    obtain l h3 where l: "run_state ?w (h @ [?s]) = (l, h3)" by (cases "run_state ?w (h @ [?s])")
    with assms False have r: "l = Some None" "sha = sha'" "dir = ?final" "h' = h3"
      by (auto simp: checkout_tree_def os_defs Let_def split: option.splits)
    from withLock_run [OF l] r(1) obtain ws h4 h5 where
      h4: "h4 = (h @ [?s]) @ ws @ [CallOS (OpenLock ?lock None), CallOS (FlockTry ?lock None)]"
      and pop: "run_state (populate env mirrorDir checkoutDir ?final sha' auth) h4 = (None, h5)"
      and h3: "h3 = h5 @ [CallOS (FlockUnlock ?lock), CallOS (CloseLock ?lock)]"
      unfolding lock_outcome_def by auto
    from pop obtain k where k: "h5 = h4 @ k" "tree_present ?final sha' k" by (rule populate_run) auto
    let ?new = "[?s] @ ws @ [CallOS (OpenLock ?lock None), CallOS (FlockTry ?lock None)] @ k
      @ [CallOS (FlockUnlock ?lock), CallOS (CloseLock ?lock)]"
    have "h' = h @ ?new" using h3 h4 k(1) r(4) by simp
    moreover have "tree_present ?final sha' ?new" using k(2) by (rule tree_present_mono) auto
    ultimately show ?thesis using r(2,3) by blast
  qed
qed

lemma checkout_locked_success:
  assumes "run_state (checkout_locked fuel env mirrorDir checkoutDir repoURL revision auth) h = (Some (Inr (dir, sha)), h')"
  shows "\<exists>new. h' = h @ new \<and> sha1Re sha \<and> (sha1Re revision \<longrightarrow> sha = ToLower revision)
    \<and> dir = PathJoin [checkoutDir, sha] \<and> tree_present dir sha new \<and> names_commit mirrorDir revision sha new"
proof -
  let ?w = "withLock fuel env (mirrorDir @ ''.lockfile'') (30 * Second) (ensureMirror env mirrorDir repoURL auth)"
  obtain l h1 where l: "run_state ?w h = (l, h1)" by (cases "run_state ?w h")
  with assms have "l = Some None" by (auto simp: checkout_locked_def split: option.splits)
  obtain s h2 where s: "run_state (resolveRevision env mirrorDir revision auth) h1 = (s, h2)"
    by (cases "run_state (resolveRevision env mirrorDir revision auth) h1")
  with assms l \<open>l = Some None\<close> obtain sha' where sha': "s = Inr sha'"
    "run_state (checkout_tree fuel env mirrorDir checkoutDir sha' auth) h2 = (Some (Inr (dir, sha)), h')"
    by (auto simp: checkout_locked_def split: sum.splits)
  from emitsE [OF local_calls.emits_withLock [OF local_calls.emits_ensureMirror] l] obtain k1 where k1: "h1 = h @ k1" by blast
  from resolveRevision_names [OF s [unfolded sha'(1)]] obtain k2 where k2: "h2 = h1 @ k2"
    and names: "names_commit mirrorDir revision sha' k2" by blast
  from checkout_tree_success [OF sha'(2)] obtain k3 where k3: "h' = h2 @ k3" "sha = sha'"
    "dir = PathJoin [checkoutDir, sha']" "tree_present dir sha k3" by blast
  have "tree_present dir sha (k1 @ k2 @ k3)" using k3(4) by (rule tree_present_mono) auto
  moreover have "names_commit mirrorDir revision sha (k1 @ k2 @ k3)"
    using names k3(2) by (auto elim: names_commit_mono)
  ultimately show ?thesis using k1 k2 k3 resolveRevision_sha [OF s [unfolded sha'(1)]]
    by (intro exI [of _ "k1 @ k2 @ k3"]) auto
qed

end
