(* ===== verification/Git_Recovery.thy ===== *)
theory Git_Recovery
  imports Git_Lock
begin

section \<open>How the mirror is recovered\<close>

text \<open>
  Two facts about \<open>ensureMirror\<close>, which throws a corrupted mirror away and starts over: how many calls it
  can make at most (with a weight per kind of call, in the locale \<open>call_costs\<close>), and that a mirror is removed
  only right after git reported it as corrupt.
\<close>

subsection \<open>Counting the calls that keep the mirror\<close>

lemma at_most_cases:
  "(b \<Longrightarrow> at_most w n m) \<Longrightarrow> (\<not> b \<Longrightarrow> at_most w n k) \<Longrightarrow> at_most w n (if b then m else k)"
  "(\<And>e. r = Inl e \<Longrightarrow> at_most w n (f e)) \<Longrightarrow> (\<And>x. r = Inr x \<Longrightarrow> at_most w n (g x))
    \<Longrightarrow> at_most w n (case r of Inl e \<Rightarrow> f e | Inr x \<Rightarrow> g x)"
  "(s = None \<Longrightarrow> at_most w n m) \<Longrightarrow> (\<And>x. s = Some x \<Longrightarrow> at_most w n (l x))
    \<Longrightarrow> at_most w n (case s of None \<Rightarrow> m | Some x \<Rightarrow> l x)"
  by (auto split: sum.split option.split)

locale call_costs =
  fixes w :: "'o call \<Rightarrow> nat" and g :: nat and r :: nat and m :: string
  assumes w_stat: "w (CallOS (StatPath p a)) = 0"
    and w_git: "w (CallOS (RunGit bin d ex args b)) \<le> g"
    and w_remove: "w (CallOS (RemoveAll m e)) \<le> r"
begin

lemma cost_stat: "at_most w 0 (osStat env p)"
  unfolding os_defs by (intro at_most_ask) (simp add: w_stat)

lemma cost_git: "at_most w g (runGit env d auth args)"
proof -
  have bin: "at_most w 0 (gitBinaryPath env)" by (intro at_most_none wp) (simp add: w_stat)
  have run: "at_most w g (osRunGit env bin d ex as)" for bin ex as
    unfolding os_defs by (intro at_most_ask) (simp add: w_git)
  have "at_most w g (runGitCommand env d auth args)"
    unfolding runGitCommand_def
    by (rule at_most_bind [OF bin, where k = g], rule at_most_bind [OF run, where k = 0])
      (auto split: prod.split option.split intro: at_most_return)
  then show ?thesis unfolding runGit_def by (rule at_most_bind [where k = 0]) (simp_all add: at_most_return)
qed

lemma cost_recover: "at_most w n again \<Longrightarrow> at_most w (r + n) (recover_mirror env m again)"
  unfolding recover_mirror_def os_defs
  by (rule at_most_bind [where n = r and k = n]) (auto intro!: at_most_ask at_most_cases at_most_return simp: w_remove)

text \<open>Without a retry nothing is removed; with one, its cost is added to that of the removal.\<close>

definition retry_cost :: "nat \<Rightarrow> ('o, gerror option) prog option \<Rightarrow> nat" where
  "retry_cost n retry = (case retry of None \<Rightarrow> 0 | Some again \<Rightarrow> r + n)"

lemma cost_mirror_body:
  assumes "\<And>again. retry = Some again \<Longrightarrow> at_most w n again"
  shows "at_most w (4 * g + retry_cost n retry) (mirror_body env m repoURL auth retry)"
proof -
  let ?b = "retry_cost n retry"
  have again: "at_most w (k + retry_cost n (Some again)) (recover_mirror env m again)"
    if "retry = Some again" for again k
    using at_most_mono [OF cost_recover [OF assms [OF that]]] by (simp add: retry_cost_def)
  have again0: "at_most w (retry_cost n (Some again)) (recover_mirror env m again)" if "retry = Some again" for again
    using again [where k = 0, OF that] by simp
  have ret: "at_most w k (State_Monad.return a)" for k and a :: "gerror option" by (rule at_most_return)
  have f: "at_most w (g + ?b) (mirror_fetch env m auth retry)"
    unfolding mirror_fetch_def
    by (rule at_most_bind [OF cost_git, where k = ?b]) (auto intro!: at_most_cases ret again0)
  have r: "at_most w (3 * g + ?b) (mirror_remote env m repoURL auth retry)"
    unfolding mirror_remote_def
    by (rule at_most_bind [OF cost_git, where k = "2 * g + ?b"], rule at_most_bind [OF cost_git, where k = "g + ?b"])
      (auto intro!: at_most_cases ret f intro: again)
  have i: "at_most w (4 * g + ?b) (State_Monad.bind (runGit env [] auth args)
      (\<lambda>i. case i of None \<Rightarrow> mirror_remote env m repoURL auth retry
        | Some err \<Rightarrow> if retry \<noteq> None \<and> isConfigCorruptionError err then recover_mirror env m (the retry)
            else State_Monad.return (Some err)))" for args
    by (rule at_most_bind [OF cost_git, where k = "3 * g + ?b"]) (auto intro!: at_most_cases ret r intro: again)
  show ?thesis
    unfolding mirror_body_def
    by (rule at_most_bind [OF cost_stat, where k = "4 * g + ?b"])
      (auto intro!: at_most_cases i at_most_mono [OF r])
qed

lemma cost_ensureMirror: "at_most w (8 * g + r) (ensureMirror env m repoURL auth)"
proof -
  have "at_most w (4 * g) (mirror_body env m repoURL auth None)"
    using cost_mirror_body [of None 0] by (simp add: retry_cost_def)
  then have "at_most w (4 * g + retry_cost (4 * g) (Some (mirror_body env m repoURL auth None)))
      (ensureMirror env m repoURL auth)"
    unfolding ensureMirror_def ensureMirrorAttempt_def if_False by (intro cost_mirror_body) auto
  then show ?thesis by (rule at_most_mono) (simp add: retry_cost_def)
qed

end

fun git_run :: "'o call \<Rightarrow> bool" where
  "git_run (CallOS (RunGit bin d ex args r)) \<longleftrightarrow> True"
| "git_run _ \<longleftrightarrow> False"

fun removal_of :: "string \<Rightarrow> 'o call \<Rightarrow> bool" where
  "removal_of m (CallOS (RemoveAll p r)) \<longleftrightarrow> p = m"
| "removal_of m _ \<longleftrightarrow> False"

definition count_calls :: "('o call \<Rightarrow> bool) \<Rightarrow> 'o call list \<Rightarrow> nat" where
  "count_calls P new = length (filter P new)"

lemma count_calls_weight: "count_calls P new = sum_list (List.map (\<lambda>c. if P c then 1 else 0) new)"
  by (induction new) (simp_all add: count_calls_def)

interpretation git_cost: call_costs "\<lambda>c. if git_run c then 1 else 0" 1 0 m for m
  by unfold_locales simp_all

interpretation removal_cost: call_costs "\<lambda>c. if removal_of m c then 1 else 0" 0 1 m for m
  by unfold_locales simp_all


subsection \<open>A mirror is thrown away only when git calls it corrupt\<close>

definition reports_corruption :: "'o call \<Rightarrow> bool" where
  "reports_corruption c \<longleftrightarrow> (\<exists>bin d ex pre args out e. c = CallOS (RunGit bin d ex (pre @ args) (out, Some e))
     \<and> isConfigCorruptionError (Wrapf (''git '' @ Join args '' '' @ '': '') e ('': '' @ out)))"

lemma run_runGit_err:
  assumes "run_state (runGit env d auth args) h = (Some err, h')"
  shows "\<exists>new c. h' = h @ new @ [c] \<and> git_run c \<and> list_all (\<lambda>c. \<not> removal_of m c) new
    \<and> (isConfigCorruptionError err \<longrightarrow> reports_corruption c)"
proof -
  obtain bin h1 where bin: "run_state (gitBinaryPath env) h = (bin, h1)" by (cases "run_state (gitBinaryPath env) h")
  have "emits (\<lambda>c. \<not> removal_of m c) (gitBinaryPath env)" by (intro wp) simp
  from emitsE [OF this bin] obtain new where new: "h1 = h @ new" "list_all (\<lambda>c. \<not> removal_of m c) new" .
  from assms bin obtain ex out e where *: "h' = h1 @ [CallOS (RunGit bin d ex (auth_args auth @ args) (out, Some e))]"
    "err = Wrapf (''git '' @ Join args '' '' @ '': '') e ('': '' @ out)"
    by (auto simp: runGit_def runGitCommand_def os_defs redact_def split: sum.splits option.splits prod.splits)
  let ?c = "CallOS (RunGit bin d ex (auth_args auth @ args) (out, Some e))"
  have "isConfigCorruptionError err \<longrightarrow> reports_corruption ?c"
    unfolding reports_corruption_def *(2) by blast
  with new *(1) show ?thesis by (intro exI [of _ new] exI [of _ ?c]) simp
qed

definition recovery_justified :: "string \<Rightarrow> 'o call list \<Rightarrow> bool" where
  "recovery_justified m = guarded (removal_of m) (\<lambda>c d. reports_corruption c)"

interpretation recovering: trace_property "recovery_justified m" for m
  unfolding recovery_justified_def by (rule guards.trace_property_axioms)

lemma justified_git:
  assumes "appends (recovery_justified m) (k None)"
    and "\<And>err. appends (recovery_justified m) (k (Some err))
      \<or> isConfigCorruptionError err \<and> (\<exists>again. k (Some err) = recover_mirror env m again
           \<and> appends (recovery_justified m) again)"
  shows "appends (recovery_justified m) (State_Monad.bind (runGit env d auth args) k)"
proof (rule appendsI)
  fix h r h' assume "run_state (State_Monad.bind (runGit env d auth args) k) h = (r, h')"
  then obtain f h1 where f: "run_state (runGit env d auth args) h = (f, h1)"
    and k: "run_state (k f) h1 = (r, h')" by (rule run_bindE)
  have "emits (\<lambda>c. \<not> removal_of m c) (runGit env d auth args)" by (intro wp) simp_all
  from emitsE [OF this f] obtain n1 where n1: "h1 = h @ n1" "list_all (\<lambda>c. \<not> removal_of m c) n1" .
  from n1(2) have j1: "recovery_justified m n1" unfolding recovery_justified_def by (rule guarded_none)
  show "\<exists>new. h' = h @ new \<and> recovery_justified m new"
  proof (cases "appends (recovery_justified m) (k f)")
    case True
    from this k obtain n2 where "h' = h1 @ n2" "recovery_justified m n2" by (rule appendsE)
    with n1(1) recovering.T_append [OF j1] show ?thesis by (intro exI [of _ "n1 @ n2"]) simp
  next
    case False
    with assms(1) obtain err where "f = Some err" by (cases f) auto
    with assms(2) [of err] False obtain again where err: "f = Some err" "isConfigCorruptionError err"
      "k f = recover_mirror env m again" "appends (recovery_justified m) again" by auto
    from run_runGit_err [of env d auth args h err h1 m] f err(1,2) obtain n c where
      n: "h1 = h @ n @ [c]" "list_all (\<lambda>c. \<not> removal_of m c) n" "git_run c" "reports_corruption c" by auto
    let ?rm = "CallOS (RemoveAll m (os_RemoveAll (env_os env) h1 m))"
    have "\<not> removal_of m c" using n(3) by (cases c rule: git_run.cases) simp_all
    then have pair: "recovery_justified m [c, ?rm]"
      unfolding recovery_justified_def by (rule guarded_pair) (rule n(4))
    have jn: "recovery_justified m n" unfolding recovery_justified_def by (rule guarded_none [OF n(2)])
    from k err(3) consider "h' = h1 @ [?rm]" | "run_state again (h1 @ [?rm]) = (r, h')"
      by (auto simp: recover_mirror_def os_defs split: option.splits)
    then show ?thesis
    proof cases
      case 1
      with n(1) recovering.T_append [OF jn pair] show ?thesis by (intro exI [of _ "n @ [c, ?rm]"]) simp
    next
      case 2
      with err(4) obtain n2 where "h' = (h1 @ [?rm]) @ n2" "recovery_justified m n2" by (rule appendsE)
      with n(1) recovering.T_append [OF recovering.T_append [OF jn pair]] show ?thesis
        by (intro exI [of _ "(n @ [c, ?rm]) @ n2"]) simp
    qed
  qed
qed

lemma justified_mirror_body:
  assumes "\<And>again. retry = Some again \<Longrightarrow> appends (recovery_justified m) again"
  shows "appends (recovery_justified m) (mirror_body env m repoURL auth retry)"
proof -
  have ret: "appends (recovery_justified m) (State_Monad.return a)" for a :: "gerror option"
    by (rule recovering.appends_return)
  have f: "appends (recovery_justified m) (mirror_fetch env m auth retry)"
    unfolding mirror_fetch_def
    by (rule justified_git) (use assms in \<open>auto simp: ret split: option.split\<close>)
  have r: "appends (recovery_justified m) (mirror_remote env m repoURL auth retry)"
    unfolding mirror_remote_def
    by (rule justified_git; (rule disjI1)?; rule justified_git; insert assms f; cases retry; auto simp: ret)
  have i: "appends (recovery_justified m) (State_Monad.bind (runGit env [] auth args)
      (\<lambda>i. case i of None \<Rightarrow> mirror_remote env m repoURL auth retry
        | Some err \<Rightarrow> if retry \<noteq> None \<and> isConfigCorruptionError err then recover_mirror env m (the retry)
            else State_Monad.return (Some err)))" for args
    by (rule justified_git) (use assms in \<open>auto simp: ret r\<close>)
  have s: "appends (recovery_justified m) (osStat env p)" for p
    unfolding os_defs by (intro recovering.appends_ask) (simp add: recovery_justified_def guarded_none)
  show ?thesis unfolding mirror_body_def by (intro recovering.appends_rules s r i)
qed

lemma justified_ensureMirror: "appends (recovery_justified m) (ensureMirror env m repoURL auth)"
  unfolding ensureMirror_def ensureMirrorAttempt_def if_False
  by (intro justified_mirror_body) (auto intro: justified_mirror_body)

end
