(* ===== verification/Checkout_Props.thy ===== *)
theory Checkout_Props
  imports Git_Safety Git_Recovery Samples
begin

section \<open>What the repository cache guarantees\<close>

text \<open>
  The claims about \<open>Checkout\<close> and its parts: the directory and the commit it returns, the removal of key
  material, the release of locks, the mirror's lock, that it returns at all, how often a mirror is
  recovered, how revisions are resolved, and how credentials are handed to git.
\<close>

subsection \<open>The layout of the cache\<close>

lemma ordinary_alnum: "list_all hex_char s \<Longrightarrow> s \<noteq> [] \<Longrightarrow> ordinary s"
  by (cases s) (auto simp: ordinary_def hex_char_def list_all_iff)

lemma hex_digit_hex: "n < 16 \<Longrightarrow> hex_char (hex_digit n)"
proof -
  assume "n < 16"
  then have "n \<in> set [0..<16]" by simp
  moreover have "list_all (\<lambda>n. hex_char (hex_digit n)) [0..<16]" by code_simp
  ultimately show ?thesis by (simp add: list_all_iff)
qed

lemma sha256_block_length: "length st = 8 \<Longrightarrow> length (sha256_block st block) = 8"
proof -
  have r: "length st = 8 \<Longrightarrow> length (sha256_round st kw) = 8" for st kw
    by (cases "(st, kw)" rule: sha256_round.cases) (auto simp: Let_def)
  have "length st = 8 \<Longrightarrow> length (fold (\<lambda>kw st. sha256_round st kw) kws st) = 8" for kws st
    by (induction kws arbitrary: st) (simp_all add: r)
  then show "length st = 8 \<Longrightarrow> length (sha256_block st block) = 8" by (simp add: sha256_block_def)
qed

lemma sha256_words_length: "length (sha256_words s) = 8"
proof -
  have "length st = 8 \<Longrightarrow> length (sha256_blocks n st ws) = 8" for n st ws
    by (induction n st ws rule: sha256_blocks.induct) (simp_all add: sha256_block_length)
  then show ?thesis by (simp add: sha256_words_def sha256_init_def sha256_primes_length Let_def)
qed

lemma repoHash_hex: "list_all hex_char (repoHash url)" "length (repoHash url) = 64"
proof -
  have "list_all hex_char (hex_word w) \<and> length (hex_word w) = 8" for w
    by (auto simp: hex_word_def list_all_iff nat_less_iff intro!: hex_digit_hex)
  then show "list_all hex_char (repoHash url)" "length (repoHash url) = 64"
    using sha256_words_length [of url]
    by (auto simp: repoHash_def sha256_hex_def list_all_iff length_concat comp_def sum_list_triv)
qed

lemma cacheRoot_not_Nil [simp]: "cacheRoot env cacheDir \<noteq> []"
  by (simp add: cacheRoot_def PathJoin_def)

lemma checkout_dir_comps:
  assumes "sha1Re sha"
  shows "path_comps (PathJoin [checkouts_dir env cacheDir repoURL, sha])
    = path_comps (cacheRoot env cacheDir) @ [''checkouts'', repoHash repoURL, sha]"
proof -
  from assms have "sha \<noteq> []" "list_all hex_char sha" by (auto simp: sha1Re_def)
  then have "ordinary sha" by (intro ordinary_alnum)
  moreover have "ordinary (repoHash repoURL)"
    using repoHash_hex [of repoURL] by (intro ordinary_alnum) auto
  moreover have "ordinary ''checkouts''" by (simp add: ordinary_def)
  ultimately show ?thesis by (simp add: checkouts_dir_def PathJoin_below)
qed


subsection \<open>A successful checkout\<close>

lemma Checkout_success:
  assumes "run_state (Checkout fuel env cacheDir repoURL revision creds) h = (Some (Inr (dir, sha)), h')"
  shows "\<exists>new. h' = h @ new \<and> sha1Re sha \<and> (sha1Re revision \<longrightarrow> sha = ToLower revision)
    \<and> dir = PathJoin [checkouts_dir env cacheDir repoURL, sha] \<and> tree_present dir sha new
    \<and> names_commit (mirror_dir env cacheDir repoURL) (if revision = [] then ''main'' else revision) sha new"
  using assms
proof (cases rule: Checkout_run)
  case (main dirs auth h1 h2)
  let ?rev = "if revision = [] then ''main'' else revision"
  have rev: "sha1Re ?rev = sha1Re revision" by (simp add: sha1Re_def)
  from checkout_locked_success [OF main(3)] obtain k where k: "h2 = h1 @ k" "sha1Re sha"
    "sha1Re ?rev \<longrightarrow> sha = ToLower ?rev" "dir = PathJoin [checkouts_dir env cacheDir repoURL, sha]"
    "tree_present dir sha k" "names_commit (mirror_dir env cacheDir repoURL) ?rev sha k" by blast
  from emitsE [OF local_calls.emits_prepareAuth main(2)] obtain a where a: "h1 = (h @ dirs) @ a" by blast
  from emitsE [OF local_calls.emits_cleanup_auth main(4)] obtain e where e: "h' = h2 @ e" by blast
  have "tree_present dir sha (dirs @ a @ k @ e)" using k(5) by (rule tree_present_mono) auto
  moreover have "names_commit (mirror_dir env cacheDir repoURL) ?rev sha (dirs @ a @ k @ e)"
    using k(6) by (rule names_commit_mono) auto
  moreover have "sha1Re revision \<longrightarrow> sha = ToLower revision" using k(3) rev by (auto simp: sha1Re_def)
  moreover have "h' = h @ dirs @ a @ k @ e" using a e k(1) by simp
  ultimately show ?thesis using k(2,4) by blast
qed simp_all

text \<open>
  C19: When \<open>Checkout\<close> succeeds, the revision it returns is a full commit hash (a revision that was given as
  one comes back in lower case), and the directory is the one for that commit of that repository, below the
  cache root; the directory was seen to exist, or a clone on which git had checked out exactly that commit was
  moved there.
\<close>

theorem checkout_result:
  assumes "run_state (Checkout fuel env cacheDir repoURL revision creds) h = (Some (Inr (dir, sha)), h')"
  shows "\<exists>new. h' = h @ new \<and> sha1Re sha \<and> (sha1Re revision \<longrightarrow> sha = ToLower revision)
    \<and> path_comps dir = path_comps (cacheRoot env cacheDir) @ [''checkouts'', repoHash repoURL, sha]
    \<and> tree_present dir sha new"
  using Checkout_success [OF assms] checkout_dir_comps by blast

text \<open>A checkout in the sample world, where everything is already there.\<close>

lemma s_env_run [simp]:
  "run_state (osMkdirAll (s_world g t) p) h = (None, h @ [CallOS (MkdirAll p None)])"
  "run_state (osStat (s_world g t) p) h = (Inr True, h @ [CallOS (StatPath p (Inr True))])"
  "run_state (osOpenLock (s_world g t) p) h = (None, h @ [CallOS (OpenLock p None)])"
  "run_state (osFlockTry (s_world g t) p) h = (None, h @ [CallOS (FlockTry p None)])"
  "run_state (osFlockUnlock p) h = ((), h @ [CallOS (FlockUnlock p)])"
  "run_state (osCloseLock p) h = ((), h @ [CallOS (CloseLock p)])"
  "run_state (osMkdirTemp (s_world g t) d pat) h = (Inr (d @ ''/tmp-1''), h @ [CallOS (MkdirTemp d pat (Inr (d @ ''/tmp-1'')))])"
  "run_state (osWriteFile (s_world g t) p c perm) h = (None, h @ [CallOS (WriteFile p c perm None)])"
  "run_state (osRemoveAll (s_world g t) p) h = (None, h @ [CallOS (RemoveAll p None)])"
  "run_state (osRunGit (s_world g t) bin d ex args) h
     = ((replicate 40 (CHR ''a''), None), h @ [CallOS (RunGit bin d ex args (replicate 40 (CHR ''a''), None))])"
  "run_state (Now (s_world g t)) h = (7, h @ [CallNow 7])"
  by (simp_all add: os_defs Now_def s_env_def s_os_def)

definition s_git :: "string \<Rightarrow> git_auth option \<Rightarrow> string list \<Rightarrow> sobj call list" where
  "s_git d auth args = [CallOS (StatPath ''/usr/bin/git'' (Inr True)),
     CallOS (RunGit ''/usr/bin/git'' d ([''GIT_TERMINAL_PROMPT=0'', ''GIT_ASKPASS=true''] @ auth_env auth)
       (auth_args auth @ args) (replicate 40 (CHR ''a''), None))]"

lemma s_runGit [simp]:
  "run_state (runGit (s_world g t) d auth args) h = (None, h @ s_git d auth args)"
  "run_state (runGitOutput (s_world g t) d auth args) h = (Inr (replicate 40 (CHR ''a'')), h @ s_git d auth args)"
  by (simp_all add: gitBinaryPath_def runGit_def runGitOutput_def runGitCommand_def s_git_def)

lemma s_sha [simp]: "sha1Re (replicate 40 (CHR ''a''))"
  by (simp add: sha1Re_def list_all_iff hex_char_def)

lemma s_ensureMirror [simp]:
  "run_state (ensureMirror (s_world g t) m url auth) h = (None, h @ CallOS (StatPath (PathJoin [m, ''HEAD'']) (Inr True))
     # s_git m auth [''remote'', ''remove'', ''origin''] @ s_git m auth [''remote'', ''add'', ''origin'', url]
     @ s_git m auth fetch_args)"
  by (simp add: ensureMirror_def ensureMirrorAttempt_def mirror_body_def mirror_remote_def mirror_fetch_def)

lemma s_resolve [simp]:
  assumes "\<not> sha1Re rev'"
  shows "run_state (resolveRevision (s_world g t) m rev' auth) h
    = (Inr (replicate 40 (CHR ''a'')), h @ s_git m auth [''ls-remote'', ''--refs'', ''origin'', rev'])"
proof -
  obtain rest where "Fields (TrimSpace (replicate 40 (CHR ''a'') @ [])) = replicate 40 (CHR ''a'') # rest"
    using first_field [of "replicate 40 (CHR ''a'')" "[]"] by (auto simp: list_all_iff is_space_def)
  then have "Fields (TrimSpace (replicate 40 (CHR ''a''))) = replicate 40 (CHR ''a'') # rest" by simp
  with assms show ?thesis unfolding resolveRevision_def by (simp del: replicate.simps)
qed

lemma s_checkout_locked:
  assumes "\<not> sha1Re rev'"
  shows "fst (run_state (checkout_locked 1 (s_world g t) m d url rev' auth) h)
    = Some (Inr (PathJoin [d, replicate 40 (CHR ''a'')], replicate 40 (CHR ''a'')))"
  using assms by (simp add: checkout_locked_def checkout_tree_def withLock_def Let_def)

text \<open>For every repository that needs no credentials.\<close>

lemma s_checkout_world:
  assumes "\<not> git_isSSHRepositoryURL repo" and "repo \<noteq> []"
  shows "fst (run_state (Checkout 1 (s_world g t) cacheDir repo ''main'' None) h)
    = Some (Inr (PathJoin [checkouts_dir (s_world g t) cacheDir repo, replicate 40 (CHR ''a'')], replicate 40 (CHR ''a'')))"
proof -
  have "\<not> sha1Re ''main''" by (simp add: sha1Re_def)
  note * = s_checkout_locked [OF this]
  have "prepareAuth (s_world g t) base repo None = State_Monad.return (Inr None)" for base
    using assms by (simp add: prepareAuth_def authHeader_def)
  with * assms(2) show ?thesis
    by (simp add: Checkout_def Let_def cleanup_auth_def checkouts_dir_def split: prod.split)
qed

lemma s_checkout:
  "fst (run_state (Checkout 1 s_env ''/cache'' ''git/repo'' ''main'' None) [])
    = Some (Inr (PathJoin [checkouts_dir s_env ''/cache'' ''git/repo'', replicate 40 (CHR ''a'')],
        replicate 40 (CHR ''a'')))"
  by (rule s_checkout_world) (simp_all add: git_isSSHRepositoryURL_def sshSCPStyle_def HasPrefix_def)

theorem checkout_result_witness:
  "\<exists>h' :: sobj call list. path_comps (PathJoin [checkouts_dir s_env ''/cache'' ''git/repo'', replicate 40 (CHR ''a'')])
      = path_comps (cacheRoot s_env ''/cache'') @ [''checkouts'', repoHash ''git/repo'', replicate 40 (CHR ''a'')]
    \<and> tree_present (PathJoin [checkouts_dir s_env ''/cache'' ''git/repo'', replicate 40 (CHR ''a'')])
        (replicate 40 (CHR ''a'')) h'"
proof -
  obtain h' where "run_state (Checkout 1 s_env ''/cache'' ''git/repo'' ''main'' None) []
      = (Some (Inr (PathJoin [checkouts_dir s_env ''/cache'' ''git/repo'', replicate 40 (CHR ''a'')],
          replicate 40 (CHR ''a''))), h')"
    using s_checkout by (metis prod.collapse)
  from checkout_result [OF this] show ?thesis by blast
qed


subsection \<open>Locks, keys, the mirror\<close>

text \<open>
  The shared mirror of a repository is changed (initialised, its remote reset, fetched, thrown away) only
  while this process holds the mirror's lock file: it has taken the lock and neither dropped it nor closed the
  file since; unless the system handed out the mirror's own path as a fresh temporary directory.
\<close>

lemma mirror_changed_under_lock:
  "\<exists>new. snd (run_state (Checkout fuel env cacheDir repoURL revision creds) h) = h @ new
    \<and> (let m = mirror_dir env cacheDir repoURL in
        (\<exists>d pat. CallOS (MkdirTemp d pat (Inr m)) \<in> set new)
        \<or> while_held (takes_lock (m @ ''.lockfile'')) (drops_lock (m @ ''.lockfile'')) (mirror_change m) new)"
proof -
  obtain r h' where run: "run_state (Checkout fuel env cacheDir repoURL revision creds) h = (r, h')" by fastforce
  from Checkout_safe [OF this] show ?thesis by (simp add: run mirror_safe_def temp_named_def Let_def)
qed

text \<open>
  C22: A checkout that returns, whatever its result, has removed every directory it made for a private key:
  each one is removed later in the same run.
\<close>

theorem checkout_removes_keys:
  "\<exists>new. snd (run_state (Checkout fuel env cacheDir repoURL revision creds) h) = h @ new
    \<and> answered makes_key_dir removes_key_dir new"
proof -
  obtain r h' where "run_state (Checkout fuel env cacheDir repoURL revision creds) h = (r, h')" by fastforce
  with Checkout_keys [OF this] show ?thesis by simp
qed

text \<open>
  C23: Whatever its result, a checkout closes every lock file it opened and drops every lock it took.
\<close>

theorem checkout_releases_locks:
  "\<exists>new. snd (run_state (Checkout fuel env cacheDir repoURL revision creds) h) = h @ new
    \<and> answered opens_file closes_file new \<and> answered lock_taken lock_dropped new"
proof -
  obtain r h' where run: "run_state (Checkout fuel env cacheDir repoURL revision creds) h = (r, h')" by fastforce
  from Checkout_released this obtain new where "h' = h @ new" "locks_released new" by (rule appendsE)
  with run show ?thesis by (simp add: locks_released_def)
qed


subsection \<open>A checkout returns\<close>

text \<open>
  C24: With a clock that advances while the process sleeps, a checkout returns, whatever the file system, git
  and the other holders of the locks do: 302 attempts at each lock are enough to reach its deadline.
\<close>

theorem checkout_returns:
  assumes "clock_advances env" and "302 \<le> fuel"
  shows "\<exists>outcome. fst (run_state (Checkout fuel env cacheDir repoURL revision creds) h) = Some outcome"
proof -
  note lock = withLock_returns [OF assms]
  have tree: "r \<noteq> None" if "run_state (checkout_tree fuel env m d sha auth) h = (r, h')" for m d sha auth h r h'
    using that by (auto simp: checkout_tree_def os_defs Let_def dest: lock
        split: if_splits option.splits prod.splits)
  have locked: "r \<noteq> None" if "run_state (checkout_locked fuel env m d url rev' auth) h = (r, h')"
    for m d url rev' auth h r h'
    using that by (auto simp: checkout_locked_def dest: lock tree split: option.splits sum.splits prod.splits)
  obtain r h' where run: "run_state (Checkout fuel env cacheDir repoURL revision creds) h = (r, h')" by fastforce
  then have "r \<noteq> None" by (cases rule: Checkout_run) (auto dest: locked)
  with run show ?thesis by simp
qed

text \<open>A world in which every lock is always taken, and time passes only by sleeping.\<close>

fun s_slept :: "sobj call \<Rightarrow> int" where
  "s_slept (CallOS (Sleep d)) = max 0 d"
| "s_slept _ = 0"

definition s_busy :: "sobj env" where
  "s_busy = s_env\<lparr>env_now := (\<lambda>h. sum_list (List.map s_slept h)),
     env_os := s_os\<lparr>os_FlockTry := (\<lambda>h p. Some (OsError EWouldBlock ''busy''))\<rparr>\<rparr>"

theorem checkout_returns_witness:
  "clock_advances s_busy
    \<and> (\<exists>outcome. fst (run_state (Checkout 302 s_busy ''/cache'' ''git/repo'' ''main'' None) []) = Some outcome)"
proof -
  have "0 \<le> s_slept c" for c by (cases c rule: s_slept.cases) simp_all
  then have "clock_advances s_busy"
    by (auto simp: clock_advances_def s_busy_def intro!: sum_list_nonneg)
  with checkout_returns [of s_busy 302] show ?thesis by simp
qed


subsection \<open>Recovering the mirror\<close>

text \<open>
  C25: Keeping the mirror up to date takes at most eight runs of git and throws the mirror away at most once,
  and only right after git reported its configuration as corrupt.
\<close>

theorem mirror_recovered_once:
  "\<exists>new. snd (run_state (ensureMirror env m repoURL auth) h) = h @ new
    \<and> count_calls git_run new \<le> 8 \<and> count_calls (removal_of m) new \<le> 1
    \<and> guarded (removal_of m) (\<lambda>c d. reports_corruption c) new"
proof -
  from justified_ensureMirror [of m env repoURL auth] obtain new where
    new: "snd (run_state (ensureMirror env m repoURL auth) h) = h @ new" "recovery_justified m new"
    unfolding appends_def by blast
  from git_cost.cost_ensureMirror [of env m repoURL auth] new(1) have "count_calls git_run new \<le> 8"
    unfolding at_most_def appends_def count_calls_weight by (metis add_0_right mult_1_right same_append_eq)
  moreover from removal_cost.cost_ensureMirror [of m env repoURL auth] new(1)
  have "count_calls (removal_of m) new \<le> 1"
    unfolding at_most_def appends_def count_calls_weight by (metis add_0 mult_0_right same_append_eq)
  ultimately show ?thesis using new unfolding recovery_justified_def by blast
qed

end
