(* ===== verification/Git_Auth_Props.thy ===== *)
theory Git_Auth_Props
  imports Checkout_Props
begin

section \<open>Credentials, revisions and temporary directories\<close>

text \<open>
  How credentials reach git (the Authorization header, the private key file), what a repository that needs
  keys does without them, which commit a branch or tag name resolves to, and what becomes of the directory a
  working tree is cloned into.
\<close>

subsection \<open>The Authorization header\<close>

text \<open>
  C27: The header for HTTP decodes to \<open>user:password\<close>, with the token in place of an empty password and
  \<open>x-access-token\<close> in place of an empty user; it is empty exactly when there is nothing to send, and it holds
  only characters of the base64 alphabet, so no line break of a secret reaches the request.
\<close>

theorem auth_header_roundtrip:
  "base64_decode (authHeader (Some c)) =
     (if cr_username c = [] \<and> cr_password c = [] \<and> cr_token c = [] then []
      else (if cr_username c = [] then ''x-access-token'' else cr_username c) @ '':''
        @ (if cr_password c = [] then cr_token c else cr_password c))
   \<and> (authHeader (Some c) = [] \<longleftrightarrow> cr_username c = [] \<and> cr_password c = [] \<and> cr_token c = [])
   \<and> set (authHeader (Some c)) \<subseteq> insert (CHR ''='') (set b64_alphabet)"
proof -
  define w where "w = (if cr_username c = [] then ''x-access-token'' else cr_username c) @ '':''
        @ (if cr_password c = [] then cr_token c else cr_password c)"
  let ?none = "cr_username c = [] \<and> cr_password c = [] \<and> cr_token c = []"
  have eq: "authHeader (Some c) = (if ?none then [] else base64_EncodeToString w)"
    by (auto simp: authHeader_def Let_def w_def simp del: base64_EncodeToString.simps)
  have "w \<noteq> []" by (simp add: w_def)
  then have "base64_EncodeToString w \<noteq> []"
    by (metis base64_decode.simps(2) base64_decode_encode)
  with base64_charset [of w] show ?thesis
    unfolding eq w_def [symmetric] by (simp add: base64_decode_encode)
qed


subsection \<open>Key files\<close>

text \<open>What a checkout writes: private files, directly in a key directory it has made.\<close>

fun private_write :: "'o call list \<Rightarrow> 'o call \<Rightarrow> bool" where
  "private_write new (CallOS (WriteFile p content perm a)) \<longleftrightarrow> perm = 384 \<and>
     (\<exists>root d. CallOS (MkdirTemp root ''ssh-*'' (Inr d)) \<in> set new
        \<and> (p = PathJoin [d, ''id_ed25519''] \<or> p = PathJoin [d, ''known_hosts'']))"
| "private_write new _ \<longleftrightarrow> True"

fun no_write :: "'o call \<Rightarrow> bool" where
  "no_write (CallOS (WriteFile p content perm a)) \<longleftrightarrow> False"
| "no_write _ \<longleftrightarrow> True"

interpretation not_writing: locked_calls no_write
  by unfold_locales simp_all

definition private_writes :: "'o call list \<Rightarrow> bool" where
  "private_writes new \<longleftrightarrow> list_all (private_write new) new"

lemma private_write_mono: "private_write new c \<Longrightarrow> set new \<subseteq> set new' \<Longrightarrow> private_write new' c"
  by (cases "(new, c)" rule: private_write.cases) auto

interpretation writing: trace_property private_writes
proof
  fix xs ys :: "'o call list"
  assume "private_writes xs" "private_writes ys"
  then show "private_writes (xs @ ys)"
    by (auto simp: private_writes_def list_all_iff intro: private_write_mono)
qed (simp add: private_writes_def)

lemma private_no_write: "list_all no_write new \<Longrightarrow> private_writes new"
proof -
  have "no_write c \<Longrightarrow> private_write new c" for c by (cases c rule: no_write.cases) simp_all
  then show "list_all no_write new \<Longrightarrow> private_writes new" by (auto simp: private_writes_def list_all_iff)
qed

lemma private_emits: "emits no_write m \<Longrightarrow> appends private_writes m"
  by (erule writing.appends_emits) (rule private_no_write)

text \<open>A write is a write of one of the two key files, with mode 0600.\<close>

definition key_write :: "string \<Rightarrow> 'o call \<Rightarrow> bool" where
  "key_write d c \<longleftrightarrow> no_write c \<or> (\<exists>p content a. c = CallOS (WriteFile p content 384 a)
     \<and> (p = PathJoin [d, ''id_ed25519''] \<or> p = PathJoin [d, ''known_hosts'']))"

lemma key_write_simps [simp]:
  "no_write c \<Longrightarrow> key_write d c"
  "key_write d (CallOS (WriteFile (PathJoin [d, ''id_ed25519'']) content 384 a))"
  "key_write d (CallOS (WriteFile (PathJoin [d, ''known_hosts'']) content 384 a))"
  by (auto simp: key_write_def)

lemma key_writes_private:
  assumes "list_all (key_write d) new" and "CallOS (MkdirTemp root ''ssh-*'' (Inr d)) \<in> set new"
  shows "private_writes new"
  unfolding private_writes_def list_all_iff
proof
  fix c assume "c \<in> set new"
  with assms(1) have "key_write d c" by (simp add: list_all_iff)
  then show "private_write new c"
    using assms(2) unfolding key_write_def
    by (cases "(new, c)" rule: private_write.cases) auto
qed

lemma prepare_ssh_private: "appends private_writes (prepare_ssh env base c)"
proof (rule appendsI)
  fix h r h' assume run: "run_state (prepare_ssh env base c) h = (r, h')"
  let ?root = "PathJoin [base, ''auth'']"
  let ?e1 = "os_MkdirAll (env_os env) h ?root"
  let ?h1 = "h @ [CallOS (MkdirAll ?root ?e1)]"
  let ?t = "os_MkdirTemp (env_os env) ?h1 ?root ''ssh-*''"
  let ?mk = "[CallOS (MkdirAll ?root ?e1), CallOS (MkdirTemp ?root ''ssh-*'' ?t)]"
  consider (mkdir) err where "?e1 = Some err" | (temp) err where "?e1 = None" "?t = Inl err"
    | (made) d where "?e1 = None" "?t = Inr d" by (cases ?e1; cases ?t) auto
  then show "\<exists>new. h' = h @ new \<and> private_writes new"
  proof cases
    case mkdir
    with run show ?thesis
      by (intro exI [of _ "[CallOS (MkdirAll ?root ?e1)]"]) (auto simp: prepare_ssh_def os_defs Let_def private_no_write)
  next
    case temp
    with run show ?thesis
      by (intro exI [of _ ?mk]) (auto simp: prepare_ssh_def os_defs Let_def private_no_write)
  next
    case made
    let ?p = "PathJoin [d, ''id_ed25519'']" and ?q = "PathJoin [d, ''known_hosts'']"
    let ?rest = "\<lambda>w. case w of Some err \<Rightarrow> State_Monad.return (Inl err)
        | None \<Rightarrow> State_Monad.bind (sshBinaryPath env) (\<lambda>ssh. State_Monad.return (Inr (Some (ssh_auth ssh ?p ?q d))))"
    have "run_state (State_Monad.bind (write_keys env d ?p ?q c) ?rest) (h @ ?mk) = (r, h')"
      using run made by (simp add: prepare_ssh_def os_defs Let_def)
    moreover have "emits (key_write d) (State_Monad.bind (write_keys env d ?p ?q c) ?rest)"
      unfolding write_keys_def by (intro wp) simp_all
    ultimately obtain new where new: "h' = (h @ ?mk) @ new" "list_all (key_write d) new"
      by (elim emitsE [rotated])
    then have "private_writes (?mk @ new)"
      using made by (intro key_writes_private [of d _ ?root]) simp_all
    with new(1) show ?thesis by (intro exI [of _ "?mk @ new"]) simp
  qed
qed

text \<open>
  C26: The only files a checkout writes are the private key and the known hosts, each with mode 0600 and
  directly inside a directory for keys that this checkout has just made.
\<close>

theorem key_files_private:
  "\<exists>new. snd (run_state (Checkout fuel env cacheDir repoURL revision creds) h) = h @ new
    \<and> list_all (private_write new) new"
proof -
  have prep: "appends private_writes (prepareAuth env base repoURL creds)" for base
    unfolding prepareAuth_def
    by (intro writing.appends_rules prepare_ssh_private)
  have "appends private_writes (Checkout fuel env cacheDir repoURL revision creds)"
    unfolding Checkout_def Let_def
    by (intro writing.appends_rules prep private_emits [OF not_writing.emits_checkout_locked]
        private_emits [OF not_writing.emits_cleanup_auth] private_emits wp) simp_all
  then show ?thesis unfolding appends_def private_writes_def by blast
qed


text \<open>
  For a repository that is reached over SSH, credentials without a private key or without known hosts are
  refused before git is run: all that happens is that the cache directories are created.
\<close>

lemma ssh_needs_keys:
  assumes "git_isSSHRepositoryURL repoURL"
    and "case creds of None \<Rightarrow> True | Some c \<Rightarrow> cr_sshPrivateKey c = [] \<or> cr_knownHosts c = []"
  shows "\<exists>err new. run_state (Checkout fuel env cacheDir repoURL revision creds) h = (Some (Inl err), h @ new)
    \<and> list_all is_mkdir new"
proof -
  have prep: "\<exists>err. prepareAuth env base repoURL creds = State_Monad.return (Inl err)" for base
    using assms by (auto simp: prepareAuth_def split: option.splits)
  obtain r h' where run: "run_state (Checkout fuel env cacheDir repoURL revision creds) h = (r, h')" by fastforce
  then show ?thesis
  proof (cases rule: Checkout_run)
    case (auth_failed dirs err)
    with prep [of "cacheRoot env cacheDir"] run show ?thesis by auto
  next
    case (main dirs auth h1 h2)
    with prep [of "cacheRoot env cacheDir"] show ?thesis by auto
  qed (use run in auto)
qed

theorem ssh_needs_keys_witness:
  "\<exists>err new. run_state (Checkout 1 s_env ''/cache'' ''ssh://host/repo'' ''main'' None) [] = (Some (Inl err), [] @ new)
    \<and> list_all is_mkdir new"
  by (rule ssh_needs_keys) (simp_all add: git_isSSHRepositoryURL_def HasPrefix_def)


subsection \<open>Resolving a revision\<close>

lemma not_space_hex: "hex_char c \<Longrightarrow> \<not> is_space c"
  by (auto simp: hex_char_def is_space_def Let_def)

text \<open>
  A branch or tag name resolves to the hash on the first line that \<open>git ls-remote\<close> prints, whatever
  reference that line names. (Git matches the name against the tail of every reference, so the first line need
  not be the branch that was asked for.)
\<close>

lemma resolve_takes_first_line:
  assumes "\<not> sha1Re revision" and "sha1Re sha"
    and "\<And>bin ex h. os_RunGit (env_os env) h bin m ex
           (auth_args auth @ [''ls-remote'', ''--refs'', ''origin'', revision])
         = (sha @ [CHR 0x09] @ ref @ [CHR 0x0A] @ others, None)"
  shows "fst (run_state (resolveRevision env m revision auth) h) = Inr sha"
proof -
  let ?args = "[''ls-remote'', ''--refs'', ''origin'', revision]"
  obtain bin h1 where bin: "run_state (gitBinaryPath env) h = (bin, h1)" by (cases "run_state (gitBinaryPath env) h")
  have "sha \<noteq> []" "list_all (\<lambda>c. \<not> is_space c) sha"
    using assms(2) by (auto simp: sha1Re_def list_all_iff dest: not_space_hex)
  moreover have "is_space (CHR 0x09)" by (simp add: is_space_def)
  ultimately obtain rest where f: "Fields (TrimSpace (sha @ [CHR 0x09] @ ref @ [CHR 0x0A] @ others)) = sha # rest"
    using first_field [of sha "[CHR 0x09] @ ref @ [CHR 0x0A] @ others"] by auto
  have "fst (run_state (runGitOutput env m auth ?args) h) = Inr (sha @ [CHR 0x09] @ ref @ [CHR 0x0A] @ others)"
    using assms(3) bin by (simp add: runGitOutput_def runGitCommand_def os_defs)
  with f assms(1,2) show ?thesis
    unfolding resolveRevision_def by (auto split: prod.splits)
qed

text \<open>Asked for \<open>main\<close>, git lists another branch whose name ends in \<open>/main\<close> first: its commit is taken.\<close>

definition s_listing :: string where
  "s_listing = replicate 40 (CHR ''b'') @ [CHR 0x09] @ ''refs/heads/feature/main'' @ [CHR 0x0A]
     @ replicate 40 (CHR ''a'') @ [CHR 0x09] @ ''refs/heads/main''"

theorem resolve_takes_first_line_witness:
  "fst (run_state (resolveRevision (s_env\<lparr>env_os := s_os\<lparr>os_RunGit := (\<lambda>h bin d ex args. (s_listing, None))\<rparr>\<rparr>)
      ''/mirror'' ''main'' None) []) = Inr (replicate 40 (CHR ''b''))"
proof (rule resolve_takes_first_line [where ref = "''refs/heads/feature/main''"
      and others = "replicate 40 (CHR ''a'') @ [CHR 0x09] @ ''refs/heads/main''"])
  show "sha1Re (replicate 40 (CHR ''b''))" by (simp add: sha1Re_def list_all_iff hex_char_def)
qed (simp_all add: s_listing_def, simp add: sha1Re_def)


subsection \<open>Temporary directories\<close>

text \<open>
  The directory a working tree is cloned into is either removed again, or the clone succeeded and the
  directory was to be moved to its final place; nothing else is ever removed.
\<close>

lemma temp_clone_settled:
  "\<exists>new. snd (run_state (populate env m d finalDir sha auth) h) = h @ new
    \<and> (\<forall>p x. CallOS (RemoveAll p x) \<in> set new \<longrightarrow> CallOS (MkdirTemp d ''tmp-*'' (Inr p)) \<in> set new)
    \<and> (\<forall>t. CallOS (MkdirTemp d ''tmp-*'' (Inr t)) \<in> set new \<longrightarrow> t \<noteq> [] \<longrightarrow>
         (\<exists>x. CallOS (RemoveAll t x) \<in> set new)
         \<or> fst (run_state (populate env m d finalDir sha auth) h) = None
           \<and> (\<exists>e. CallOS (RenamePath t finalDir e) \<in> set new))"
proof -
  obtain r h' where run: "run_state (populate env m d finalDir sha auth) h = (r, h')" by fastforce
  from populate_run [OF this] obtain new where "h' = h @ new"
    "\<forall>p x. CallOS (RemoveAll p x) \<in> set new \<longrightarrow> CallOS (MkdirTemp d ''tmp-*'' (Inr p)) \<in> set new"
    "\<forall>t. CallOS (MkdirTemp d ''tmp-*'' (Inr t)) \<in> set new \<longrightarrow> t \<noteq> [] \<longrightarrow>
       (\<exists>x. CallOS (RemoveAll t x) \<in> set new) \<or> r = None \<and> (\<exists>e. CallOS (RenamePath t finalDir e) \<in> set new)"
    by metis
  with run show ?thesis by (intro exI [of _ new]) simp
qed

text \<open>
  A world in which the final directory cannot be looked at and the move fails because something is there:
  the checkout succeeds, and the clone stays behind in its temporary directory.
\<close>

definition s_taken :: "sobj env" where
  "s_taken = s_env\<lparr>env_os := s_os\<lparr>os_Stat := (\<lambda>h p. Inl (OsError ErrNotExist ''no'')),
     os_Rename := (\<lambda>h p q. Some (OsError ErrExist ''file exists''))\<rparr>\<rparr>"

lemma s_taken_run:
  "\<exists>gs. run_state (populate s_taken ''/m'' ''/c'' ''/c/sha'' ''sha'' None) [] = (None,
     [CallOS (StatPath ''/c/sha'' (Inl (OsError ErrNotExist ''no''))), CallOS (MkdirTemp ''/c'' ''tmp-*'' (Inr ''/c/tmp-1''))]
     @ gs @ [CallOS (RenamePath ''/c/tmp-1'' ''/c/sha'' (Some (OsError ErrExist ''file exists'')))])
   \<and> list_all is_git gs"
proof -
  have g: "\<exists>new. run_state (runGit s_taken d auth args) h = (None, h @ new) \<and> list_all is_git new" for d auth args h
    by (simp add: runGit_def runGitCommand_def gitBinaryPath_def os_defs s_taken_def s_os_def)
  let ?h = "[CallOS (StatPath ''/c/sha'' (Inl (OsError ErrNotExist ''no''))), CallOS (MkdirTemp ''/c'' ''tmp-*'' (Inr ''/c/tmp-1''))]"
  obtain n1 where n1: "run_state (runGit s_taken ''/m'' None [''clone'', ''--no-checkout'', ''/m'', ''/c/tmp-1'']) ?h
      = (None, ?h @ n1)" "list_all is_git n1" using g by blast
  obtain n2 where n2: "run_state (runGit s_taken ''/c/tmp-1'' None [''checkout'', ''--force'', ''--detach'', ''sha'']) (?h @ n1)
      = (None, (?h @ n1) @ n2)" "list_all is_git n2" using g by blast
  have os: "run_state (osStat s_taken p) h = (Inl (OsError ErrNotExist ''no''), h @ [CallOS (StatPath p (Inl (OsError ErrNotExist ''no'')))])"
    "run_state (osMkdirTemp s_taken d pat) h = (Inr (d @ ''/tmp-1''), h @ [CallOS (MkdirTemp d pat (Inr (d @ ''/tmp-1'')))])"
    "run_state (osRename s_taken p q) h = (Some (OsError ErrExist ''file exists''),
        h @ [CallOS (RenamePath p q (Some (OsError ErrExist ''file exists'')))])" for p d pat q h
    by (simp_all add: os_defs s_taken_def s_os_def)
  show ?thesis
    using n1 n2 by (intro exI [of _ "n1 @ n2"]) (simp add: populate_def clone_into_def move_clone_def os is_os_def)
qed

theorem temp_clone_settled_witness:
  "fst (run_state (populate s_taken ''/m'' ''/c'' ''/c/sha'' ''sha'' None) []) = None
    \<and> (\<exists>e. CallOS (RenamePath ''/c/tmp-1'' ''/c/sha'' e)
          \<in> set (snd (run_state (populate s_taken ''/m'' ''/c'' ''/c/sha'' ''sha'' None) [])))
    \<and> (\<forall>p x. CallOS (RemoveAll p x) \<notin> set (snd (run_state (populate s_taken ''/m'' ''/c'' ''/c/sha'' ''sha'' None) [])))"
proof -
  obtain gs where run: "run_state (populate s_taken ''/m'' ''/c'' ''/c/sha'' ''sha'' None) [] = (None,
     [CallOS (StatPath ''/c/sha'' (Inl (OsError ErrNotExist ''no''))), CallOS (MkdirTemp ''/c'' ''tmp-*'' (Inr ''/c/tmp-1''))]
     @ gs @ [CallOS (RenamePath ''/c/tmp-1'' ''/c/sha'' (Some (OsError ErrExist ''file exists'')))])"
    and gs: "list_all is_git gs" using s_taken_run by blast
  have rm: "CallOS (RemoveAll p x) \<notin> set (snd (run_state (populate s_taken ''/m'' ''/c'' ''/c/sha'' ''sha'' None) []))"
    for p x
    using gs by (auto simp: run list_all_iff)
  have "CallOS (MkdirTemp ''/c'' ''tmp-*'' (Inr ''/c/tmp-1''))
      \<in> set (snd (run_state (populate s_taken ''/m'' ''/c'' ''/c/sha'' ''sha'' None) []))" by (simp add: run)
  with rm temp_clone_settled [of s_taken "''/m''" "''/c''" "''/c/sha''" "''sha''" None "[]"] show ?thesis
    by auto
qed

end
