(* ===== verification/Yaml_Props.thy ===== *)
theory Yaml_Props
  imports Yaml_Render Validation Samples
begin

section \<open>What the YAML renderer guarantees\<close>

text \<open>
  With a context that stays alive and files that do not change, \<open>Render\<close> is a pure function of the tree and
  the files (\<open>yaml_spec\<close>); whatever the world does, it reads only inside the checkout, it never gets past a
  symbolic link, and it polls the context right before every read.
\<close>

subsection \<open>The renderer as a function\<close>

fun decode_one :: "'o yaml_lib \<Rightarrow> string \<Rightarrow> nat \<times> string \<Rightarrow> 'o option list result" where
  "decode_one y source (i, doc) =
     (if TrimSpace doc = [] then Inr []
      else (case yl_ToJSON y doc of
              Inl err \<Rightarrow> Inl (doc_error source i err)
            | Inr json \<Rightarrow> (case yl_Unmarshal y json of
                            Inl err \<Rightarrow> Inl (doc_error source i err) | Inr u \<Rightarrow> Inr [Some u])))"

definition decode_spec :: "'o yaml_lib \<Rightarrow> string \<Rightarrow> string \<Rightarrow> 'o option list result" where
  "decode_spec y source content =
     (let (docs, readErr) = yl_docs y content in
      case collect (decode_one y source) (enumerate 0 docs) of
        Inl err \<Rightarrow> Inl err
      | Inr us \<Rightarrow> (case readErr of None \<Rightarrow> Inr us | Some err \<Rightarrow> Inl (doc_error source (length docs) err)))"

text \<open>The first problem on the walk, and the files on it, in its order.\<close>

fun tree_error :: "string \<Rightarrow> dir_tree \<Rightarrow> gerror option"
  and entries_error :: "string \<Rightarrow> (string \<times> dir_tree) list \<Rightarrow> gerror option" where
  "tree_error path (NoEntry e) = Some e"
| "tree_error path (DirUnreadable e) = Some e"
| "tree_error path LinkEntry = Some (Errorf (''refusing symlink: '' @ path))"
| "tree_error path FileEntry = None"
| "tree_error path (DirTree entries) = entries_error path entries"
| "entries_error path [] = None"
| "entries_error path ((name, entry) # entries) =
     (case tree_error (PathJoin [path, name]) entry of Some e \<Rightarrow> Some e | None \<Rightarrow> entries_error path entries)"

fun tree_files :: "string \<Rightarrow> dir_tree \<Rightarrow> string list"
  and entries_files :: "string \<Rightarrow> (string \<times> dir_tree) list \<Rightarrow> string list" where
  "tree_files path FileEntry = [path]"
| "tree_files path (DirTree entries) = entries_files path entries"
| "tree_files path _ = []"
| "entries_files path [] = []"
| "entries_files path ((name, entry) # entries) =
     tree_files (PathJoin [path, name]) entry @ entries_files path entries"

definition file_spec :: "'o yaml_lib \<Rightarrow> (string \<Rightarrow> string result) \<Rightarrow> string \<Rightarrow> 'o option list result" where
  "file_spec y files path = (case files path of Inl err \<Rightarrow> Inl err | Inr content \<Rightarrow> decode_spec y path content)"

definition yaml_spec ::
  "'o yaml_lib \<Rightarrow> (string \<Rightarrow> string result) \<Rightarrow> (string \<Rightarrow> dir_tree) \<Rightarrow> string \<Rightarrow> string \<Rightarrow> 'o option list result" where
  "yaml_spec y files tree checkoutRoot path =
     (case ResolveWithinRoot checkoutRoot path of
        Inl err \<Rightarrow> Inl err
      | Inr root \<Rightarrow>
          (case tree_error root (tree root) of
             Some err \<Rightarrow> Inl err
           | None \<Rightarrow> collect (file_spec y files) (sort (filter is_yaml_file (tree_files root (tree root))))))"

lemma decode_docs_alive:
  assumes "alive env"
  shows "fst (run_state (decode_docs env y source i docs readErr out) h) =
    (case collect (decode_one y source) (enumerate i docs) of
       Inl err \<Rightarrow> Inl err
     | Inr us \<Rightarrow> (case readErr of None \<Rightarrow> Inr (out @ us) | Some err \<Rightarrow> Inl (doc_error source (i + length docs) err)))"
proof (induction docs arbitrary: i out h)
  case Nil
  then show ?case by (simp add: alive_ctxErr [OF assms] split: option.split)
next
  case (Cons doc docs)
  show ?case
    by (auto simp: alive_ctxErr [OF assms] Cons.IH split: sum.split option.split)
qed

lemma walk_alive:
  shows "alive env \<Longrightarrow> fst (run_state (walk env path t paths) h) = (case tree_error path t of
      Some e \<Rightarrow> Inl e | None \<Rightarrow> Inr (paths @ filter is_yaml_file (tree_files path t)))"
    and "alive env \<Longrightarrow> fst (run_state (walk_entries env path entries paths) h) = (case entries_error path entries of
      Some e \<Rightarrow> Inl e | None \<Rightarrow> Inr (paths @ filter is_yaml_file (entries_files path entries)))"
proof (induction env path t paths and env path entries paths arbitrary: h and h rule: walk_walk_entries.induct)
  case (7 env path name entry entries paths)
  obtain r h1 where r: "run_state (walk env (PathJoin [path, name]) entry paths) h = (r, h1)" by fastforce
  with "7.IH"(1) [OF 7(3), of h] have *: "r = (case tree_error (PathJoin [path, name]) entry of
      Some e \<Rightarrow> Inl e | None \<Rightarrow> Inr (paths @ filter is_yaml_file (tree_files (PathJoin [path, name]) entry)))" by simp
  show ?case
    by (cases "tree_error (PathJoin [path, name]) entry")
      (use * "7.IH"(2) 7(3) in \<open>auto simp: r split: option.split\<close>)
qed (auto simp: alive_ctxErr split: option.split)

lemma renderYAMLFile_alive:
  assumes "alive env" and "\<And>h p. os_ReadFile (env_os env) h p = files p"
  shows "fst (run_state (renderYAMLFile env y path) h) = file_spec y files path"
  using assms(2)
  by (cases "files path") (simp_all add: renderYAMLFile_def os_defs file_spec_def decode_spec_def
      decode_docs_alive [OF assms(1)] case_prod_beta cong: sum.case_cong option.case_cong)

lemma render_files_alive:
  assumes "alive env" and "\<And>h p. os_ReadFile (env_os env) h p = files p"
  shows "fst (run_state (render_files env y paths out) h) =
    (case collect (file_spec y files) paths of Inl err \<Rightarrow> Inl err | Inr us \<Rightarrow> Inr (out @ us))"
proof (induction paths arbitrary: out h)
  case (Cons path paths)
  obtain r h1 where r: "run_state (renderYAMLFile env y path) (h @ [CallCtxErr None]) = (r, h1)" by fastforce
  with renderYAMLFile_alive [OF assms, of y path "h @ [CallCtxErr None]"] have *: "file_spec y files path = r" by simp
  show ?case
    by (cases r) (simp_all add: alive_ctxErr [OF assms(1)] r Cons.IH * split: sum.split)
qed simp

text \<open>
  C28: With a context that stays alive and files that do not change underneath, the renderer computes this
  function: the files with a YAML extension below the application's directory, in the order of their paths,
  each one's documents in order, blank documents skipped; or the first error, which for a document names the
  file and the number of the document.
\<close>

theorem yaml_render_exact:
  assumes "alive env" and "\<And>h p. os_ReadFile (env_os env) h p = files p"
    and "\<And>h p. os_WalkTree (env_os env) h p = tree p"
  shows "fst (run_state (YAMLRenderer_Render env y checkoutRoot spec sha) h)
    = yaml_spec y files tree checkoutRoot (src_path (spec_source spec))"
proof -
  have walk: "fst (run_state (yamlFiles env root) h) = (case tree_error root (tree root) of
      Some e \<Rightarrow> Inl e | None \<Rightarrow> Inr (sort (filter is_yaml_file (tree_files root (tree root)))))" for root h
  proof -
    let ?h = "h @ [CallOS (WalkTree root (tree root))]"
    obtain r h1 where r: "run_state (walk env root (tree root) []) ?h = (r, h1)" by fastforce
    with walk_alive(1) [OF assms(1), of root "tree root" "[]" ?h] show ?thesis
      by (auto simp: yamlFiles_def os_defs assms(3) split: option.split)
  qed
  show ?thesis
  proof (cases "ResolveWithinRoot checkoutRoot (src_path (spec_source spec))")
    case (Inr root)
    obtain r h1 where r: "run_state (yamlFiles env root) (h @ [CallCtxErr None]) = (r, h1)" by fastforce
    with walk [of root "h @ [CallCtxErr None]"] Inr show ?thesis
      by (auto simp: YAMLRenderer_Render_def alive_ctxErr [OF assms(1)] yaml_spec_def
          render_files_alive [OF assms(1,2)] split: option.split sum.split)
  qed (simp add: YAMLRenderer_Render_def alive_ctxErr [OF assms(1)] yaml_spec_def)
qed

text \<open>A directory with two YAML files, out of order, and a README, over a converter that copies.\<close>

definition s_yaml :: "sobj yaml_lib" where
  "s_yaml = \<lparr>yl_docs = (\<lambda>c. (Split (CHR ''|'') c, None)), yl_ToJSON = Inr,
     yl_Unmarshal = (\<lambda>j. if j = ''bad'' then Inl (Errorf ''json'') else Inr (s_configmap\<lparr>so_name := j\<rparr>))\<rparr>"

definition s_dir_env :: "sobj env" where
  "s_dir_env = s_env\<lparr>env_os := s_os\<lparr>os_WalkTree := (\<lambda>h p. DirTree [(''b.yaml'', FileEntry),
       (''README'', FileEntry), (''a'', DirTree [(''c.YML'', FileEntry)])]),
     os_ReadFile := (\<lambda>h p. Inr (if p = ''/co/apps/demo/b.yaml'' then ''x| |y'' else ''z''))\<rparr>\<rparr>"

definition s_names :: "sobj option list result \<Rightarrow> string list result" where
  "s_names r = (case r of Inl e \<Rightarrow> Inl e | Inr us \<Rightarrow> Inr (List.map (\<lambda>u. case u of None \<Rightarrow> [] | Some b \<Rightarrow> so_name b) us))"

theorem yaml_render_exact_witness:
  "alive s_dir_env \<and> s_names (fst (run_state (YAMLRenderer_Render s_dir_env s_yaml ''/co'' (app_spec s_app) ''sha'') []))
    = Inr [''z'', ''x'', ''y'']"
proof -
  have a: "alive s_dir_env" by (simp add: alive_def s_dir_env_def s_env_def)
  let ?tree = "\<lambda>p :: string. DirTree [(''b.yaml'', FileEntry), (''README'', FileEntry), (''a'', DirTree [(''c.YML'', FileEntry)])]"
  let ?files = "\<lambda>p. Inr (if p = ''/co/apps/demo/b.yaml'' then ''x| |y'' else ''z'') :: string result"
  have "fst (run_state (YAMLRenderer_Render s_dir_env s_yaml ''/co'' (app_spec s_app) ''sha'') [])
      = yaml_spec s_yaml ?files ?tree ''/co'' (src_path (spec_source (app_spec s_app)))"
    by (rule yaml_render_exact [OF a]) (simp_all add: s_dir_env_def s_os_def)
  moreover have "s_names (yaml_spec s_yaml ?files ?tree ''/co'' (src_path (spec_source (app_spec s_app)))) = Inr [''z'', ''x'', ''y'']"
    by code_simp
  ultimately show ?thesis using a by simp
qed


subsection \<open>Reading only inside the checkout\<close>

text \<open>The names in a directory listing are file names: not empty, without a slash, not \<open>.\<close> or \<open>..\<close>.\<close>

fun well_named :: "dir_tree \<Rightarrow> bool" and entries_named :: "(string \<times> dir_tree) list \<Rightarrow> bool" where
  "well_named (DirTree entries) \<longleftrightarrow> entries_named entries"
| "well_named _ \<longleftrightarrow> True"
| "entries_named [] \<longleftrightarrow> True"
| "entries_named ((name, entry) # entries) \<longleftrightarrow> ordinary name \<and> well_named entry \<and> entries_named entries"

lemma walk_below:
  shows "run_state (walk env path t paths) h = (Inr ps, h') \<Longrightarrow> well_named t \<Longrightarrow> below root path
    \<Longrightarrow> list_all (below root) paths \<Longrightarrow> list_all (below root) ps"
    and "run_state (walk_entries env path entries paths) h = (Inr ps, h') \<Longrightarrow> entries_named entries \<Longrightarrow> below root path
    \<Longrightarrow> list_all (below root) paths \<Longrightarrow> list_all (below root) ps"
proof (induction env path t paths and env path entries paths arbitrary: h ps h' and h ps h' rule: walk_walk_entries.induct)
  case (7 env path name entry entries paths)
  from "7.prems"(1) obtain r h1 where r: "run_state (walk env (PathJoin [path, name]) entry paths) h = (r, h1)"
    "run_state (case r of Inl err \<Rightarrow> State_Monad.return (Inl err) | Inr paths' \<Rightarrow> walk_entries env path entries paths') h1
      = (Inr ps, h')" unfolding walk.simps walk_entries.simps by (rule run_bindE)
  then obtain qs where qs: "r = Inr qs" "run_state (walk_entries env path entries qs) h1 = (Inr ps, h')"
    by (cases r) auto
  have "list_all (below root) qs"
    by (rule "7.IH"(1) [OF r(1) [unfolded qs(1)]]) (use "7.prems" in \<open>simp_all add: below_child\<close>)
  from "7.IH"(2) [OF qs(2) _ _ this] "7.prems" show ?case by simp
qed (auto simp: ctxErr_def split: option.splits if_splits)

lemma emits_walk:
  assumes "\<And>e. P (CallCtxErr e)"
  shows "emits P (walk env path t paths)" and "emits P (walk_entries env path entries paths)"
proof (induction env path t paths and env path entries paths rule: walk_walk_entries.induct)
qed (unfold walk.simps walk_entries.simps, (intro wp assms; assumption)+)

lemma yamlFiles_run:
  assumes "run_state (yamlFiles env root) h = (Inr ps, h')"
  obtains qs h1 where "run_state (walk env root (os_WalkTree (env_os env) h root) [])
      (h @ [CallOS (WalkTree root (os_WalkTree (env_os env) h root))]) = (Inr qs, h1)" "ps = sort qs"
  using assms by (auto simp: yamlFiles_def os_defs split: prod.splits sum.splits)

text \<open>The renderer lists and reads only below the checkout root, and otherwise only polls the context.\<close>

lemma emits_yaml_below:
  assumes "IsAbs checkoutRoot" and "\<And>h p. well_named (os_WalkTree (env_os env) h p)"
  shows "emits (reads_below checkoutRoot) (YAMLRenderer_Render env y checkoutRoot spec sha)"
proof -
  let ?P = "reads_below checkoutRoot"
  have docs: "emits ?P (decode_docs env y source i docs readErr out)"
    for env :: "'a env" and y source i docs readErr out
    by (induction env y source i docs readErr out rule: decode_docs.induct)
      (unfold decode_docs.simps, (intro wp; simp)+)
  have files: "list_all (below checkoutRoot) paths \<Longrightarrow> emits ?P (render_files env y paths out)"
    for env :: "'a env" and y paths out
    by (induction env y paths out rule: render_files.induct)
      (unfold render_files.simps renderYAMLFile_def, (intro wp docs; simp)+)
  have listing: "emits ?P (yamlFiles env root)" if "below checkoutRoot root" for root
    unfolding yamlFiles_def by (intro wp emits_walk) (simp_all add: that)
  let ?k = "\<lambda>f. case f of Inl err \<Rightarrow> State_Monad.return (Inl err) | Inr paths \<Rightarrow> render_files env y paths []"
  have listed: "emits ?P (State_Monad.bind (yamlFiles env root) ?k)"
    if r: "ResolveWithinRoot checkoutRoot (src_path (spec_source spec)) = Inr root" for root
  proof (rule emits_bind_run)
    from assms(1) r have b: "below checkoutRoot root" by (rule resolve_below)
    show "emits ?P (yamlFiles env root)" by (rule listing [OF b])
    fix h f h' assume run: "run_state (yamlFiles env root) h = (f, h')"
    show "emits ?P (?k f)"
    proof (cases f)
      case (Inr ps)
      from run [unfolded Inr] obtain qs h1 where qs: "run_state (walk env root (os_WalkTree (env_os env) h root) [])
          (h @ [CallOS (WalkTree root (os_WalkTree (env_os env) h root))]) = (Inr qs, h1)" "ps = sort qs"
        by (rule yamlFiles_run)
      from walk_below(1) [OF qs(1) assms(2) b] have "list_all (below checkoutRoot) ps"
        by (simp add: qs(2) list_all_iff)
      with Inr files show ?thesis by simp
    qed (simp add: wp)
  qed
  show ?thesis
    unfolding YAMLRenderer_Render_def
    by (rule emits_bind) (auto split: option.split sum.split intro: listed wp)
qed


subsection \<open>Symbolic links\<close>

fun blocked :: "dir_tree \<Rightarrow> bool" and entries_blocked :: "(string \<times> dir_tree) list \<Rightarrow> bool" where
  "blocked FileEntry \<longleftrightarrow> False"
| "blocked (DirTree entries) \<longleftrightarrow> entries_blocked entries"
| "blocked _ \<longleftrightarrow> True"
| "entries_blocked [] \<longleftrightarrow> False"
| "entries_blocked ((name, entry) # entries) \<longleftrightarrow> blocked entry \<or> entries_blocked entries"

lemma walk_blocked:
  shows "run_state (walk env path t paths) h = (Inr ps, h') \<Longrightarrow> \<not> blocked t"
    and "run_state (walk_entries env path entries paths) h = (Inr ps, h') \<Longrightarrow> \<not> entries_blocked entries"
proof (induction env path t paths and env path entries paths arbitrary: h ps h' and h ps h' rule: walk_walk_entries.induct)
  case (7 env path name entry entries paths)
  from "7.prems" obtain r h1 where r: "run_state (walk env (PathJoin [path, name]) entry paths) h = (r, h1)"
    "run_state (case r of Inl err \<Rightarrow> State_Monad.return (Inl err) | Inr paths' \<Rightarrow> walk_entries env path entries paths') h1
      = (Inr ps, h')" unfolding walk.simps walk_entries.simps by (rule run_bindE)
  then obtain qs where qs: "r = Inr qs" "run_state (walk_entries env path entries qs) h1 = (Inr ps, h')"
    by (cases r) auto
  from "7.IH"(1) [OF r(1) [unfolded qs(1)]] "7.IH"(2) [OF qs(2)] show ?case by simp
qed (auto simp: ctxErr_def split: option.splits if_splits)

text \<open>
  C29: A symbolic link anywhere below the application's directory, whatever it points to and whatever it is
  called, makes rendering fail; so does a directory that cannot be listed.
\<close>

theorem yaml_refuses_links:
  assumes "ResolveWithinRoot checkoutRoot (src_path (spec_source spec)) = Inr appRoot"
    and "\<And>h. blocked (os_WalkTree (env_os env) h appRoot)"
  shows "\<exists>err. fst (run_state (YAMLRenderer_Render env y checkoutRoot spec sha) h) = Inl err"
proof (cases "env_ctxErr env h")
  case None
  let ?h = "h @ [CallCtxErr None]"
  obtain f h1 where f: "run_state (yamlFiles env appRoot) ?h = (f, h1)" by fastforce
  have "\<exists>e. f = Inl e"
  proof (cases f)
    case (Inr ps)
    from f [unfolded Inr] obtain qs h2 where "run_state (walk env appRoot (os_WalkTree (env_os env) ?h appRoot) [])
        (?h @ [CallOS (WalkTree appRoot (os_WalkTree (env_os env) ?h appRoot))]) = (Inr qs, h2)"
      by (rule yamlFiles_run)
    with walk_blocked(1) assms(2) show ?thesis by blast
  qed simp
  with None f assms(1) show ?thesis by (auto simp: YAMLRenderer_Render_def ctxErr_def)
qed (simp add: YAMLRenderer_Render_def ctxErr_def)

theorem yaml_refuses_links_witness:
  "\<exists>err. fst (run_state (YAMLRenderer_Render
     (s_env\<lparr>env_os := s_os\<lparr>os_WalkTree := (\<lambda>h p. DirTree [(''a.yaml'', FileEntry), (''deep'', DirTree [(''x'', LinkEntry)])])\<rparr>\<rparr>)
     s_yaml ''/co'' (app_spec s_app) ''sha'') []) = Inl err"
proof (rule yaml_refuses_links)
  show "ResolveWithinRoot ''/co'' (src_path (spec_source (app_spec s_app))) = Inr ''/co/apps/demo''" by code_simp
qed simp


subsection \<open>Polling the context\<close>

lemma polled_docs: "appends polled_reads (decode_docs env y source i docs readErr out)"
proof (rule polled_emits)
  show "emits (\<lambda>c. \<not> reads_disk c) (decode_docs env y source i docs readErr out)"
    by (induction env y source i docs readErr out rule: decode_docs.induct)
      (unfold decode_docs.simps, (intro wp; simp)+)
qed

lemma emits_docs_below: "emits (reads_below root) (decode_docs env y source i docs readErr out)"
  by (induction env y source i docs readErr out rule: decode_docs.induct)
    (unfold decode_docs.simps, (intro wp; simp)+)

lemma polled_yaml: "appends polled_reads (YAMLRenderer_Render env y checkoutRoot spec sha)"
proof -
  have one: "appends polled_now (renderYAMLFile env y path)" for env :: "'a env" and y path
    unfolding renderYAMLFile_def
    by (intro polled_now_bind polled_now_os polling.appends_rules polled_docs)
  have files: "appends polled_reads (render_files env y paths out)" for env :: "'a env" and y paths out
    by (induction env y paths out rule: render_files.induct)
      (unfold render_files.simps, (intro polling.appends_rules polled_poll polled_now_bind one;
        simp add: polling.appends_rules)+)
  have walks: "appends polled_reads (walk env root t paths)" for root t paths
    by (intro polled_emits emits_walk) simp
  have listing: "appends polled_now (yamlFiles env root)" for root
    unfolding yamlFiles_def by (intro polled_now_bind polled_now_os polling.appends_rules walks)
  have listed: "appends polled_now (State_Monad.bind (yamlFiles env root)
      (\<lambda>f. case f of Inl err \<Rightarrow> State_Monad.return (Inl err) | Inr paths \<Rightarrow> render_files env y paths []))" for root
    by (intro polled_now_bind listing polling.appends_rules files)
  show ?thesis
    unfolding YAMLRenderer_Render_def
    by (intro polled_poll) (auto split: sum.split intro: listed polled_now_plain polling.appends_return)
qed

end
