(* ===== verification/Helm_Props.thy ===== *)
theory Helm_Props
  imports Helm_Render Yaml_Props
begin

section \<open>What the renderers guarantee\<close>

text \<open>
  The Helm renderer reads inside the checkout and polls the context like the YAML renderer; its result does not
  depend on the order in which Go ranges over the manifests; and what its check for \<open>NOTES.txt\<close> lets through.
\<close>

subsection \<open>Reading\<close>

lemma emits_values_below:
  "IsAbs checkoutRoot \<Longrightarrow> emits (reads_below checkoutRoot) (readHelmValues env hl checkoutRoot files merged)"
proof (induction env hl checkoutRoot files merged rule: readHelmValues.induct)
  case (2 env hl checkoutRoot rel files merged)
  have b: "below checkoutRoot (Clean p)" if "ResolveWithinRoot checkoutRoot rel = Inr p" for p
    using resolve_below [OF 2(2) that] by (simp add: below_def)
  show ?case unfolding readHelmValues.simps by (intro wp 2; simp add: b)
qed (simp add: wp)

lemma emits_decode_all_below: "emits (reads_below root) (decode_all env y ms out)"
  by (induction env y ms out rule: decode_all.induct)
    (unfold decode_all.simps decodeManifest_def, (intro wp emits_docs_below; simp)+)

lemma emits_helm_below:
  assumes "IsAbs checkoutRoot"
  shows "emits (reads_below checkoutRoot) (HelmRenderer_Render env y hl checkoutRoot spec sha)"
  unfolding HelmRenderer_Render_def render_chart_def decode_manifests_def
  by (intro wp emits_values_below emits_decode_all_below; simp add: assms resolve_below)

text \<open>
  For an absolute checkout root, both renderers name only paths at or below it, whatever the specification and
  the values files say: the directory they walk or load the chart from, and every file they read, have the
  components of the root followed by file names. They make no other call to the outside than polling the context.
  (Lexically: a link inside the checkout can still point elsewhere, and Helm's loader opens the chart's files
  itself; the YAML renderer refuses links, Helm's does not.)
\<close>

lemma renderers_read_inside:
  assumes "IsAbs checkoutRoot" and "\<And>h p. well_named (os_WalkTree (env_os env) h p)"
  shows "\<exists>a b. snd (run_state (YAMLRenderer_Render env y checkoutRoot spec sha) h) = h @ a
    \<and> snd (run_state (HelmRenderer_Render env y hl checkoutRoot spec sha) h) = h @ b
    \<and> list_all (reads_below checkoutRoot) a \<and> list_all (reads_below checkoutRoot) b"
  using emitsD [OF emits_yaml_below [OF assms]] emitsD [OF emits_helm_below [OF assms(1)]] by blast

text \<open>A Helm library for the witnesses: one manifest, plus the notes of the chart.\<close>

definition s_helm :: "(sobj, unit, unit) helm_lib" where
  "s_helm = \<lparr>hl_decodeValues = (\<lambda>c. Inr []), hl_Load = (\<lambda>h p. Inr ()), hl_ToRenderValues = (\<lambda>c v r. Inr ()),
     hl_EngineRender = (\<lambda>c v. Inr [(''demo/templates/cm.yaml'', ''x''), (''demo/templates/NOTES.txt'', ''bad'')]),
     hl_CRDObjects = (\<lambda>c. [])\<rparr>"

theorem renderers_read_inside_witness:
  "\<exists>a b. snd (run_state (YAMLRenderer_Render s_dir_env s_yaml ''/co'' (app_spec s_app) ''sha'') []) = [] @ a
    \<and> snd (run_state (HelmRenderer_Render s_dir_env s_yaml s_helm ''/co'' (app_spec s_app) ''sha'') []) = [] @ b
    \<and> list_all (reads_below ''/co'') a \<and> list_all (reads_below ''/co'') b"
  by (rule renderers_read_inside) (simp_all add: s_dir_env_def s_os_def ordinary_def)

lemma polled_values: "appends polled_reads (readHelmValues env hl checkoutRoot files merged)"
proof (induction env hl checkoutRoot files merged rule: readHelmValues.induct)
  case (2 env hl checkoutRoot rel files merged)
  have "appends polled_now (State_Monad.bind (osReadFile env (Clean path)) (\<lambda>r. case r of
      Inl err \<Rightarrow> State_Monad.return (Inl err)
    | Inr content \<Rightarrow> (case readValuesDocument hl content of
        Inl err \<Rightarrow> State_Monad.return (Inl (Wrapf (''parse values file '' @ rel @ '': '') err []))
      | Inr vs \<Rightarrow> readHelmValues env hl checkoutRoot files (deepMerge merged vs))))"
    if "rel \<noteq> []" "ResolveWithinRoot checkoutRoot rel = Inr path" for path
    by (intro polled_now_bind polled_now_os polling.appends_rules 2 [OF that])
  then show ?case
    unfolding readHelmValues.simps
    by (intro polled_poll) (auto split: sum.split intro: polled_now_plain polling.appends_return)
qed (simp add: polling.appends_return)

lemma polled_decode_all: "appends polled_reads (decode_all env y ms out)"
  by (induction env y ms out rule: decode_all.induct)
    (unfold decode_all.simps decodeManifest_def,
      (intro polling.appends_rules polled_docs polled_emits [where m = "ctxErr env" for env] wp; simp)+)

lemma polled_helm: "appends polled_reads (HelmRenderer_Render env y hl checkoutRoot spec sha)"
proof -
  have ctx: "appends polled_reads (ctxErr env)" by (intro polled_emits wp) simp
  have chart: "appends polled_reads (render_chart env y hl checkoutRoot spec helm ch)" for helm ch
    unfolding render_chart_def decode_manifests_def
    by (intro polling.appends_rules ctx polled_values polled_decode_all)
  have load: "appends polled_now (State_Monad.bind (loadChart hl p) (\<lambda>l. case l of
      Inl err \<Rightarrow> State_Monad.return (Inl (Wrapf ''load chart: '' err []))
    | Inr ch \<Rightarrow> render_chart env y hl checkoutRoot spec helm ch))" for p helm
  proof (intro polled_now_bind polling.appends_rules chart)
    show "appends polled_now (loadChart hl p)"
      unfolding loadChart_def by (simp add: appends_def polled_now_one)
  qed
  show ?thesis
    unfolding HelmRenderer_Render_def
    by (intro polled_poll) (auto split: sum.split option.split intro: load polled_now_plain polling.appends_return)
qed

text \<open>
  Right before they list a directory, load a chart or read a file, both renderers have polled the context
  and found it alive: once it is cancelled, nothing more is read.
\<close>

lemma renderers_poll_context:
  "\<exists>a b. snd (run_state (YAMLRenderer_Render env y checkoutRoot spec sha) h) = h @ a
    \<and> snd (run_state (HelmRenderer_Render env y hl checkoutRoot spec sha) h) = h @ b
    \<and> guarded reads_disk (\<lambda>c d. c = CallCtxErr None) a \<and> guarded reads_disk (\<lambda>c d. c = CallCtxErr None) b"
  using polled_yaml [of env y checkoutRoot spec sha] polled_helm [of env y hl checkoutRoot spec sha]
  unfolding appends_def polled_reads_def by blast


subsection \<open>Determinism\<close>

lemma map_of_perm:
  "distinct (List.map fst xs) \<Longrightarrow> mset xs = mset ys \<Longrightarrow> map_of xs = map_of ys"
  by (metis map_of_inject_set mset_eq_imp_distinct_iff mset_eq_setD mset_map)

lemma decode_manifests_perm:
  assumes "distinct (List.map fst ms)" and "mset ms = mset ms'"
  shows "decode_manifests env y includeCRDs crds ms = decode_manifests env y includeCRDs crds ms'"
proof -
  let ?P = "\<lambda>name. \<not> HasPrefix name ''templates/NOTES.txt''"
  from assms(2) have "mset (List.map fst ms) = mset (List.map fst ms')" by simp
  then have "mset (filter ?P (List.map fst ms)) = mset (filter ?P (List.map fst ms'))"
    by (simp only: mset_filter)
  then have "manifest_keys ms = manifest_keys ms'"
    unfolding manifest_keys_def by (intro properties_for_sort) simp_all
  moreover have "manifest_at ms = manifest_at ms'"
    using map_of_perm [OF assms] by (simp add: manifest_at_def fun_eq_iff)
  ultimately show ?thesis by (simp only: decode_manifests_def)
qed

text \<open>
  Rendering a chart gives the same result whatever order the program ranges over the map of manifests in:
  two template engines whose answers differ only in that order lead to the same run.
\<close>

lemma helm_order_independent:
  assumes "\<And>ch v. case (hl_EngineRender hl ch v, hl_EngineRender hl' ch v) of
       (Inl e, Inl e') \<Rightarrow> e = e' | (Inr ms, Inr ms') \<Rightarrow> distinct (List.map fst ms) \<and> mset ms = mset ms' | _ \<Rightarrow> False"
    and "hl\<lparr>hl_EngineRender := g\<rparr> = hl'\<lparr>hl_EngineRender := g\<rparr>"
  shows "HelmRenderer_Render env y hl checkoutRoot spec sha = HelmRenderer_Render env y hl' checkoutRoot spec sha"
proof -
  from assms(2) have same: "hl_decodeValues hl' = hl_decodeValues hl" "hl_Load hl' = hl_Load hl"
    "hl_ToRenderValues hl' = hl_ToRenderValues hl" "hl_CRDObjects hl' = hl_CRDObjects hl"
    by (cases hl; cases hl'; simp)+
  have "readHelmValues env hl' root files merged = readHelmValues env hl root files merged" for root files merged
    by (induction files arbitrary: merged)
      (simp_all add: readValuesDocument_def same cong: sum.case_cong option.case_cong)
  moreover have "(case hl_EngineRender hl' ch v of Inl err \<Rightarrow> f err | Inr ms \<Rightarrow> decode_manifests env y i crds ms)
      = (case hl_EngineRender hl ch v of Inl err \<Rightarrow> f err | Inr ms \<Rightarrow> decode_manifests env y i crds ms)" for ch v f i crds
    using assms(1) [of ch v] by (auto split: sum.splits intro!: decode_manifests_perm [symmetric])
  ultimately have "render_chart env y hl' checkoutRoot spec = render_chart env y hl checkoutRoot spec"
    by (intro ext) (unfold render_chart_def same, simp cong: sum.case_cong option.case_cong)
  then show ?thesis unfolding HelmRenderer_Render_def loadChart_def same by (simp only:)
qed

theorem helm_order_independent_witness:
  "HelmRenderer_Render s_dir_env s_yaml s_helm ''/co'' (app_spec s_app) ''sha''
    = HelmRenderer_Render s_dir_env s_yaml (s_helm\<lparr>hl_EngineRender := (\<lambda>c v. Inr
        [(''demo/templates/NOTES.txt'', ''bad''), (''demo/templates/cm.yaml'', ''x'')])\<rparr>) ''/co'' (app_spec s_app) ''sha''"
  by (rule helm_order_independent [where g = "hl_EngineRender s_helm"]) (simp_all add: s_helm_def)


subsection \<open>The notes of a chart\<close>

lemma decode_all_alive:
  assumes "alive env"
  shows "fst (run_state (decode_all env y ms out) h) =
    (case collect (\<lambda>(n, m). decode_spec y n m) ms of Inl err \<Rightarrow> Inl err | Inr us \<Rightarrow> Inr (out @ us))"
proof (induction ms arbitrary: out h)
  case (Cons e ms)
  obtain n m where e: "e = (n, m)" by fastforce
  obtain r h1 where r: "run_state (decodeManifest env y n m) (h @ [CallCtxErr None]) = (r, h1)" by fastforce
  have "fst (run_state (decodeManifest env y n m) (h @ [CallCtxErr None])) = decode_spec y n m"
    by (simp add: decodeManifest_def decode_docs_alive [OF assms] decode_spec_def case_prod_beta
        cong: sum.case_cong option.case_cong)
  with r have *: "decode_spec y n m = r" by simp
  show ?case
    by (cases r) (simp_all add: e alive_ctxErr [OF assms] r Cons.IH * split: sum.split)
qed simp

lemma collect_error: "x \<in> set xs \<Longrightarrow> f x = Inl e \<Longrightarrow> \<exists>err. collect f xs = Inl err"
  by (induction xs) (auto split: sum.split)

text \<open>
  The template engine names a manifest by the chart it belongs to, so the notes of a chart \<open>demo\<close> are
  \<open>demo/templates/NOTES.txt\<close>. Such a name passes the check that is to leave the notes out: they are decoded as
  a manifest, and a chart whose notes are plain text cannot be rendered.
\<close>

lemma helm_notes_break_render:
  assumes "alive env" and "(chart @ ''/templates/NOTES.txt'', contents) \<in> set manifests"
    and "distinct (List.map fst manifests)" and "chart \<noteq> []" and "hd chart \<noteq> CHR ''t''"
    and "decode_spec y (chart @ ''/templates/NOTES.txt'') contents = Inl e"
  shows "\<exists>err. fst (run_state (decode_manifests env y includeCRDs crds manifests) h) = Inl err"
proof -
  let ?name = "chart @ ''/templates/NOTES.txt''"
  let ?ms = "List.map (\<lambda>name. (name, manifest_at manifests name)) (manifest_keys manifests)"
  have "\<not> HasPrefix ?name ''templates/NOTES.txt''" using assms(4,5) by (cases chart) (simp_all add: HasPrefix_def)
  then have "?name \<in> set (manifest_keys manifests)"
    using assms(2) by (force simp: manifest_keys_def)
  moreover have "manifest_at manifests ?name = contents"
    using assms(2,3) by (simp add: manifest_at_def)
  ultimately have "(?name, contents) \<in> set ?ms" by force
  from collect_error [OF this, of "\<lambda>(n, m). decode_spec y n m"] assms(6)
  obtain err where c: "collect (\<lambda>(n, m). decode_spec y n m) ?ms = Inl err" by auto
  have fail: "fst (run_state (decode_all env y ?ms out) h) = Inl err" for out h
    by (simp add: decode_all_alive [OF assms(1)] c)
  show ?thesis
    unfolding decode_manifests_def
    by (auto simp: fail split: prod.split sum.split)
qed

theorem helm_notes_break_render_witness:
  "\<exists>err. fst (run_state (decode_manifests s_dir_env s_yaml False []
     [(''demo/templates/cm.yaml'', ''x''), (''demo/templates/NOTES.txt'', ''bad'')]) []) = Inl err"
  by (rule helm_notes_break_render [of s_dir_env "''demo''" "''bad''"])
    (simp_all add: alive_def s_dir_env_def s_env_def decode_spec_def s_yaml_def TrimSpace_def is_space_def)

end
