(* ===== verification/Operator_Props.thy ===== *)
theory Operator_Props
  imports Operator Reconcile_Props Git_Auth_Props Helm_Props
begin

section \<open>The operator as it is wired\<close>

text \<open>
  The reconciler that \<open>newOperatorRunner\<close> builds meets the assumptions under which the theorems about
  \<open>Reconcile\<close> hold, so those theorems are about this program; the worker, its queue, and the informer's events.
\<close>

subsection \<open>The repository cache and the renderers only work locally\<close>

lemma emits_decode_local: "emits is_local (decode_docs env y source i docs readErr out)"
  by (rule emits_mono [OF emits_docs_below [of "[]"]]) (rule reads_local)

lemma emits_yaml_local: "emits is_local (YAMLRenderer_Render env y checkoutRoot spec sha)"
proof -
  have files: "emits is_local (render_files env y paths out)" for paths out
    by (induction env y paths out rule: render_files.induct)
      (unfold render_files.simps renderYAMLFile_def, (intro wp emits_decode_local; simp)+)
  show ?thesis
    unfolding YAMLRenderer_Render_def yamlFiles_def by (intro wp files emits_walk; simp)
qed

lemma emits_values_local: "emits is_local (readHelmValues env hl checkoutRoot rels merged)"
  by (induction env hl checkoutRoot rels merged rule: readHelmValues.induct)
    (unfold readHelmValues.simps, (intro wp; simp)+)

lemma emits_decode_all_local: "emits is_local (decode_all env y ms out)"
  by (rule emits_mono [OF emits_decode_all_below [of "[]"]]) (rule reads_local)

lemma emits_helm_local: "emits is_local (HelmRenderer_Render env y hl checkoutRoot spec sha)"
  unfolding HelmRenderer_Render_def render_chart_def decode_manifests_def
  by (intro wp emits_values_local emits_decode_all_local; simp)

lemma newReconciler_fields [simp]:
  "rc_env (newReconciler fuel env u y hl order opts) = env"
  "rc_api (newReconciler fuel env u y hl order opts) = u"
  "rc_kube (newReconciler fuel env u y hl order opts) = True"
  "rc_config (newReconciler fuel env u y hl order opts) = runner_config opts"
  "rc_checkout (newReconciler fuel env u y hl order opts) = repo_checkout fuel env (opt_CacheDir opts)"
  "rc_renderYAML (newReconciler fuel env u y hl order opts) = YAMLRenderer_Render env y"
  "rc_renderHelm (newReconciler fuel env u y hl order opts) = HelmRenderer_Render env y hl"
  "rc_mapOrder (newReconciler fuel env u y hl order opts) = order"
  by (simp_all add: newReconciler_def)

lemma wired_well_behaved:
  assumes "lawful_uapi u" and "visits_all order"
  shows "well_behaved (newReconciler fuel env u y hl order opts)"
  unfolding well_behaved_def newReconciler_fields repo_checkout_def
  by (intro conjI allI assms wp local_calls.emits_Checkout emits_yaml_local emits_helm_local)

lemma repo_checkout_run:
  assumes "run_state (repo_checkout fuel env cacheDir repo revision creds) h = (Inr (dir, sha), h')"
  shows "run_state (Checkout fuel env cacheDir repo revision creds) h = (Some (Inr (dir, sha)), h')"
  using assms unfolding repo_checkout_def by (elim run_bindE) (auto split: option.splits)

lemma repo_checkout_success:
  assumes "run_state (repo_checkout fuel env cacheDir repo revision creds) h = (Inr (dir, sha), h @ new)"
  shows "sha1Re sha \<and> (sha1Re revision \<longrightarrow> sha = ToLower revision)
    \<and> path_comps dir = path_comps (cacheRoot env cacheDir) @ [''checkouts'', repoHash repo, sha]
    \<and> tree_present dir sha new
    \<and> names_commit (mirror_dir env cacheDir repo) (if revision = [] then ''main'' else revision) sha new"
  using Checkout_success [OF repo_checkout_run [OF assms]] checkout_dir_comps by fastforce


subsection \<open>From the repository to the cluster\<close>

text \<open>
  C4: End to end, with the repository cache and the renderers in place: when the worker's reconcile of an
  active application finishes without an error, its calls contain a checkout of the application's repository
  and then a rendering, and there is one commit such that
  git named it when it was asked, in the mirror, for the revision (it verified the hash that the
  revision is, or it is the first word of git's listing of the references of that name, for \<open>main\<close> if
  the revision is empty; for a name, this is all that the code makes sure of);
  the checkout returned the commit's directory of that repository in the cache, which was seen to exist or
  was filled by a git checkout of exactly this commit;
  everything that was patched, and accepted, was normalised from what was rendered from that directory,
  under a policy that names the commit; and the status records the same commit.
\<close>

theorem deployed_is_checked_out:
  assumes "lawful_uapi u" and "visits_all order" and "active env h ns name app"
    and "run_state (reconcile_call (newReconciler fuel env u y hl order opts) ns name) h = (Finished res None, h @ new)"
  shows "\<exists>creds before co reading rest dir sha rendered normalized desired base modified updated.
    new = before @ co @ reading @ rest
    \<and> run_state (Checkout fuel env (opt_CacheDir opts) (src_repository (spec_source (app_spec app)))
          (src_revision (spec_source (app_spec app))) creds) (h @ before) = (Some (Inr (dir, sha)), h @ before @ co)
    \<and> sha1Re sha
    \<and> names_commit (mirror_dir env (opt_CacheDir opts) (src_repository (spec_source (app_spec app))))
          (if src_revision (spec_source (app_spec app)) = [] then ''main'' else src_revision (spec_source (app_spec app)))
          sha co
    \<and> path_comps dir = path_comps (cacheRoot env (opt_CacheDir opts))
          @ [''checkouts'', repoHash (src_repository (spec_source (app_spec app))), sha]
    \<and> tree_present dir sha co
    \<and> run_state (render (newReconciler fuel env u y hl order opts) app dir sha) (h @ before @ co)
        = (Inr rendered, h @ before @ co @ reading)
    \<and> NormalizeAndValidate u (env_mapper env (h @ before @ co @ reading)) rendered
        (reconcile_policy (runner_config opts) app sha) = Inr (normalized, desired)
    \<and> list_all2 (patch_of env u (fieldManagerOrDefault (opt_FieldManager opts))
        (spec_takeoverExistingResources (app_spec app))) normalized (filter is_patch new)
    \<and> list_all patch_ok (filter is_patch new)
    \<and> last new = CallStatusPatch base modified (Inr updated) \<and> st_appliedRevision (app_status modified) = sha"
proof -
  let ?rc = "newReconciler fuel env u y hl order opts" and ?g = "CallGetApp ns name (Inr app)"
  from assms(4) have run: "run_state (Reconcile ?rc ns name) h = ((res, None), h @ new)"
    unfolding reconcile_call_def by (elim run_bindE) (auto split: prod.splits)
  have act: "active (rc_env ?rc) h ns name app" using assms(3) by simp
  from successful_stages [OF wired_well_behaved [OF assms(1,2)] act run]
  obtain creds dir sha l k b rendered normalized desired patches prunes now updated
    where st: "staged ?rc app (h @ [?g]) creds dir sha l k b rendered normalized desired"
      and pre: "harmless (l @ k @ b)" and ap: "applied ?rc app normalized patches None" and pr: "pruned ?rc app desired prunes None"
      and new: "new = (?g # l @ k @ b) @ patches @ prunes @ [CallNow now, CallStatusPatch (attempted app sha)
         (app\<lparr>app_status := success_status u now sha desired (attempted app sha)\<rparr>) (Inr updated)]"
    by (metis newReconciler_fields(2))
  let ?repo = "src_repository (spec_source (app_spec app))" and ?rev = "src_revision (spec_source (app_spec app))"
  let ?rest = "patches @ prunes @ [CallNow now, CallStatusPatch (attempted app sha)
         (app\<lparr>app_status := success_status u now sha desired (attempted app sha)\<rparr>) (Inr updated)]"
  from st have co: "run_state (repo_checkout fuel env (opt_CacheDir opts) ?repo ?rev creds) (h @ ?g # l)
        = (Inr (dir, sha), (h @ ?g # l) @ k)"
    and rd: "run_state (render ?rc app dir sha) (h @ (?g # l) @ k) = (Inr rendered, h @ (?g # l) @ k @ b)"
    and nv: "NormalizeAndValidate u (env_mapper env (h @ (?g # l) @ k @ b)) rendered (reconcile_policy (runner_config opts) app sha)
        = Inr (normalized, desired)"
    by (simp_all add: staged_def)
  have n: "new = (?g # l) @ k @ b @ ?rest" using new by simp
  have run': "run_state (Checkout fuel env (opt_CacheDir opts) ?repo ?rev creds) (h @ ?g # l)
        = (Some (Inr (dir, sha)), h @ (?g # l) @ k)"
    using repo_checkout_run [OF co] by simp
  note out = repo_checkout_success [OF co]
  have "harmless (?g # l @ k @ b)" using pre by simp
  then have f: "filter is_patch new = patches" unfolding new by (rule successful_patches [OF _ ap pr])
  have fm: "cfg_fieldManager (runner_config opts) = opt_FieldManager opts" by (simp add: runner_config_def)
  from ap fm have patched: "list_all2 (patch_of env u (fieldManagerOrDefault (opt_FieldManager opts))
      (spec_takeoverExistingResources (app_spec app))) normalized (filter is_patch new)" "list_all patch_ok (filter is_patch new)"
    by (auto simp: applied_def apply_run_def f)
  let ?after = "app\<lparr>app_status := success_status u now sha desired (attempted app sha)\<rparr>"
  have fin: "last new = CallStatusPatch (attempted app sha) ?after (Inr updated)" using new by simp
  have rev: "st_appliedRevision (app_status ?after) = sha" by (simp add: success_fields)
  show ?thesis
    by (intro exI conjI, rule n, rule run', use out in blast, use out in blast, use out in blast, use out in blast,
        rule rd, rule nv, rule patched, rule patched, rule fin, rule rev)
qed

text \<open>
  The operator with its default flags in a world with one application, whose chart renders one config map.
\<close>

definition s_chart_app :: git_application where
  "s_chart_app = s_app\<lparr>app_spec := (app_spec s_app)\<lparr>spec_render := \<lparr>rd_type = ''helm'',
     rd_helm = Some \<lparr>hr_releaseName = ''demo'', hr_valuesFiles = [], hr_includeCRDs = False\<rparr>\<rparr>\<rparr>\<rparr>"

definition s_chart_helm :: "(sobj, unit, unit) helm_lib" where
  "s_chart_helm = s_helm\<lparr>hl_EngineRender := (\<lambda>c v. Inr [(''demo/templates/cm.yaml'', ''x'')])\<rparr>"

definition s_chart_world :: "sobj env" where
  "s_chart_world = s_world (Inr s_chart_app) (DirTree [])"

definition s_operator :: "sobj reconciler" where
  "s_operator = newReconciler 1 s_chart_world s_api s_yaml s_chart_helm (\<lambda>es. es) (main_options default_flags)"

lemma s_options [simp]:
  "runner_config (main_options default_flags) = \<lparr>cfg_watchNamespace = [], cfg_concurrentReconciles = 2,
     cfg_minimumRequeueInterval = 15 * Second, cfg_allowClusterScopedResources = False, cfg_allowedRepositoryPrefixes = [],
     cfg_fieldManager = ''tiny-gitops-controller'', cfg_cacheDir = []\<rparr>"
  "opt_CacheDir (main_options default_flags) = []" "opt_FieldManager (main_options default_flags) = ''tiny-gitops-controller''"
  by (simp_all add: runner_config_def main_options_def default_flags_def splitAllowedPrefixes_def TrimSpace_def)

lemma s_chart_fields [simp]:
  "om_deletionTimestamp (app_meta s_chart_app) = None" "spec_suspend (app_spec s_chart_app) = False"
  "src_repository (spec_source (app_spec s_chart_app)) = ''https://x/r.git''"
  "src_revision (spec_source (app_spec s_chart_app)) = ''main''" "src_path (spec_source (app_spec s_chart_app)) = ''apps/demo''"
  "src_secretRef (spec_source (app_spec s_chart_app)) = None"
  "spec_render (app_spec s_chart_app) = \<lparr>rd_type = ''helm'',
     rd_helm = Some \<lparr>hr_releaseName = ''demo'', hr_valuesFiles = [], hr_includeCRDs = False\<rparr>\<rparr>"
  "spec_interval (app_spec s_chart_app) = 60 * Second" "spec_prune (app_spec s_chart_app)"
  "spec_takeoverExistingResources (app_spec s_chart_app) = False" "st_inventory (app_status s_chart_app) = []"
  by (simp_all add: s_chart_app_def s_app_def)

lemma s_chart_active: "active s_chart_world h ns name s_chart_app"
  by (simp add: active_def is_deleted_def s_chart_world_def s_world_def)

lemma s_chart_valid: "validateSpec s_api s_chart_app (runner_config (main_options default_flags)) = None"
  by (simp add: validateSpec_None s_app_eval s_chart_app_def)

lemma s_ctx [simp]: "run_state (ctxErr (s_world g t)) h = (None, h @ [CallCtxErr None])"
  by (simp add: ctxErr_def s_world_def)

lemma s_chart_rendered:
  assumes "dir \<noteq> []" and "path_comps dir \<noteq> []"
  shows "fst (run_state (HelmRenderer_Render s_chart_world s_yaml s_chart_helm dir (app_spec s_chart_app) sha) h)
    = Inr [Some (s_configmap\<lparr>so_name := ''x''\<rparr>)]"
proof -
  have "ResolveWithinRoot dir ''apps/demo'' = Inr (path_of (IsAbs dir) (path_comps dir @ path_comps ''apps/demo''))"
    using assms by (intro resolve_inside) (simp_all add: path_comps_def IsAbs_def HasPrefix_def)
  then show ?thesis
    by (simp add: HelmRenderer_Render_def s_chart_world_def loadChart_def render_chart_def s_chart_helm_def s_helm_def
        decode_manifests_def manifest_keys_def manifest_at_def HasPrefix_def decodeManifest_def s_yaml_def TrimSpace_def is_space_def)
qed

definition s_sha :: string where
  "s_sha = replicate 40 (CHR ''a'')"

lemma s_chart_normalized:
  "\<exists>o' ref. NormalizeAndValidate s_api s_mapper [Some (s_configmap\<lparr>so_name := ''x''\<rparr>)]
     (reconcile_policy (runner_config (main_options default_flags)) s_chart_app s_sha) = Inr ([o'], [ref]) \<and> so_kind o' = ''ConfigMap''"
  by (simp add: NormalizeAndValidate_loop normalize_object_def basicValidate_def s_mapper_def
      scope_check_def place_object_def sizeCheck_def MaxObjectSizeBytes_def Let_def s_configmap_def
      resourceReferenceFor_def ensureMetadata_def reconcile_policy_def s_chart_app_def s_app_def)

lemma s_chart_checkout:
  obtains dir h' where "run_state (repo_checkout 1 s_chart_world [] ''https://x/r.git'' ''main'' None) h = (Inr (dir, s_sha), h')"
    and "dir \<noteq> []" and "path_comps dir \<noteq> []"
proof -
  have "\<not> git_isSSHRepositoryURL ''https://x/r.git''"
    by (simp add: git_isSSHRepositoryURL_def sshSCPStyle_def HasPrefix_def Let_def)
  from s_checkout_world [OF this, of "Inr s_chart_app" "DirTree []" "[]" h] obtain dir h'
    where run: "run_state (Checkout 1 s_chart_world [] ''https://x/r.git'' ''main'' None) h = (Some (Inr (dir, s_sha)), h')"
    by (cases "run_state (Checkout 1 s_chart_world [] ''https://x/r.git'' ''main'' None) h") (auto simp: s_sha_def s_chart_world_def)
  then have r: "run_state (repo_checkout 1 s_chart_world [] ''https://x/r.git'' ''main'' None) h = (Inr (dir, s_sha), h')"
    by (simp add: repo_checkout_def)
  from Checkout_success [OF run] checkout_dir_comps [of s_sha s_chart_world "[]" "''https://x/r.git''"]
  have "path_comps dir \<noteq> []" by auto
  moreover from this have "dir \<noteq> []" by (auto simp: path_comps_def)
  ultimately show thesis by (rule that [OF r, rotated])
qed

lemma s_operator_run:
  "\<exists>res h'. run_state (reconcile_call s_operator ''app-ns'' ''demo'') [] = (Finished res None, h')"
proof -
  let ?g = "[CallGetApp ''app-ns'' ''demo'' (Inr s_chart_app)]"
  have e: "env_mapper s_chart_world h = s_mapper" "env_dynPatch s_chart_world h r n m b p = None"
    "env_statusPatch s_chart_world h base app = Inr app" for h r n m b p base app
    by (simp_all add: s_chart_world_def s_world_def)
  obtain dir h1 where co: "run_state (repo_checkout 1 s_chart_world [] ''https://x/r.git'' ''main'' None) ?g = (Inr (dir, s_sha), h1)"
    and dir: "dir \<noteq> []" "path_comps dir \<noteq> []" by (rule s_chart_checkout)
  obtain h2 where rd: "run_state (HelmRenderer_Render s_chart_world s_yaml s_chart_helm dir (app_spec s_chart_app) s_sha) h1
      = (Inr [Some (s_configmap\<lparr>so_name := ''x''\<rparr>)], h2)"
    using s_chart_rendered [OF dir, of s_sha h1] by (metis prod.collapse)
  from s_chart_normalized obtain o' ref where nv: "NormalizeAndValidate s_api s_mapper [Some (s_configmap\<lparr>so_name := ''x''\<rparr>)]
     (reconcile_policy (runner_config (main_options default_flags)) s_chart_app s_sha) = Inr ([o'], [ref])" "so_kind o' = ''ConfigMap''"
    by blast
  have "run_state (Reconcile s_operator ''app-ns'' ''demo'') [] = run_state (reconcile_active s_operator s_chart_app) ?g"
    using run_Reconcile_active [of s_operator "[]" "''app-ns''" "''demo''"] s_chart_active by (simp add: s_operator_def)
  also have "\<dots> = run_state (reconcile_checkout s_operator (attempted s_chart_app s_sha) dir s_sha) h1"
    using s_chart_valid co by (simp add: reconcile_active_def s_operator_def loadCredentials_def)
  also have "\<dots> = run_state (reconcile_apply s_operator (attempted s_chart_app s_sha) s_sha [o'] [ref]) h2"
    using rd nv by (simp add: reconcile_checkout_def s_operator_def render_def e)
  finally have run: "run_state (Reconcile s_operator ''app-ns'' ''demo'') []
    = run_state (reconcile_apply s_operator (attempted s_chart_app s_sha) s_sha [o'] [ref]) h2" .
  have ap: "\<exists>c. run_state (Apply s_chart_world s_api [o'] (fieldManagerOrDefault ''tiny-gitops-controller'') False) h2 = (None, h2 @ [c])"
    using nv(2) by (simp add: Apply_def s_mapper_def dynPatch_def e)
  have pr: "run_state (prune s_operator (attempted s_chart_app s_sha) [ref]) h = (None, h)" for h
    by (simp add: prune_def s_operator_def Diff_def index_refs_def drop_refs_def Normalize_def)
  have fin: "\<exists>res h'. run_state (reconcile_finish s_operator (attempted s_chart_app s_sha) s_sha [ref]) h = ((res, None), h')" for h
    by (simp add: reconcile_finish_def run_updateSuccess s_operator_def e Let_def)
  have "\<exists>res h'. run_state (reconcile_apply s_operator (attempted s_chart_app s_sha) s_sha [o'] [ref]) h2 = ((res, None), h')"
    using ap pr fin by (auto simp: reconcile_apply_def s_operator_def)
  with run show ?thesis by (auto simp: reconcile_call_def)
qed

theorem deployed_is_checked_out_witness:
  "\<exists>base modified updated. \<exists>new :: sobj call list. sha1Re (st_appliedRevision (app_status modified))
     \<and> list_all patch_ok (filter is_patch new) \<and> last new = CallStatusPatch base modified (Inr updated)"
proof -
  from s_operator_run obtain res h' where run: "run_state (reconcile_call s_operator ''app-ns'' ''demo'') [] = (Finished res None, [] @ h')"
    by auto
  from deployed_is_checked_out [OF s_api_lawful _ s_chart_active run [unfolded s_operator_def]] show ?thesis
    by (auto simp: visits_all_def)
qed


subsection \<open>What a reconcile reads\<close>

text \<open>\<open>reads_in dir c\<close>: if the call reads a file, lists a directory or loads a chart, it is below \<open>dir\<close>.\<close>

definition reads_in :: "string \<Rightarrow> 'o call \<Rightarrow> bool" where
  "reads_in dir c \<longleftrightarrow> (reads_disk c \<longrightarrow> reads_below dir c)"

lemma reads_in_simps [simp]: "\<not> reads_disk c \<Longrightarrow> reads_in dir c" "reads_below dir c \<Longrightarrow> reads_in dir c"
  by (simp_all add: reads_in_def)

interpretation no_reads: git_calls "\<lambda>c. \<not> reads_disk c"
  by unfold_locales simp_all

lemma reads_in_fail: "emits (reads_in dir) (fail_result rc app stage err stalled)"
  by (intro wp) simp_all

lemma reads_in_apply: "emits (reads_in dir) (reconcile_apply rc app sha normalized desired)"
  unfolding reconcile_apply_def
  by (intro wp reads_in_fail emits_reconcile_finish) (auto simp: patch_of_def split: call.splits)

lemma reads_in_checkout:
  assumes "IsAbs dir" and "\<And>h p. well_named (os_WalkTree (env_os env) h p)"
  shows "emits (reads_in dir) (reconcile_checkout (newReconciler fuel env u y hl order opts) app dir sha)"
proof -
  have "emits (reads_in dir) (YAMLRenderer_Render env y dir spec sha)" "emits (reads_in dir) (HelmRenderer_Render env y hl dir spec sha)"
    for spec
    by (rule emits_mono [OF emits_yaml_below [OF assms]] emits_mono [OF emits_helm_below [OF assms(1)]], simp)+
  then have "emits (reads_in dir) (render (newReconciler fuel env u y hl order opts) app dir sha)"
    unfolding render_def newReconciler_fields by (intro wp)
  then show ?thesis
    unfolding reconcile_checkout_def by (intro wp reads_in_fail reads_in_apply)
qed

text \<open>A run reads only the directory of one commit; before the checkout, and after a failure, nothing is read.\<close>

definition reads_commit :: "'o env \<Rightarrow> string \<Rightarrow> string \<Rightarrow> 'o call list \<Rightarrow> bool" where
  "reads_commit env cacheDir repo new \<longleftrightarrow>
     (\<exists>sha. sha1Re sha \<and> list_all (reads_in (PathJoin [checkouts_dir env cacheDir repo, sha])) new)"

lemma reads_commitI:
  "sha1Re sha \<Longrightarrow> emits (reads_in (PathJoin [checkouts_dir env cacheDir repo, sha])) m \<Longrightarrow> appends (reads_commit env cacheDir repo) m"
  unfolding emits_appends reads_commit_def by (erule appends_mono) blast

lemma reads_commit_fail: "appends (reads_commit env cacheDir repo) (fail_result rc app stage err stalled)"
  using reads_commitI [OF s_sha reads_in_fail] .

lemma reads_commit_bind:
  assumes "emits (\<lambda>c. \<not> reads_disk c) m"
    and "\<And>h a h'. run_state m h = (a, h') \<Longrightarrow> appends (reads_commit env cacheDir repo) (f a)"
  shows "appends (reads_commit env cacheDir repo) (State_Monad.bind m f)"
proof (rule appendsI)
  fix h r h' assume "run_state (State_Monad.bind m f) h = (r, h')"
  then obtain a h1 where a: "run_state m h = (a, h1)" "run_state (f a) h1 = (r, h')" by (rule run_bindE)
  from emitsE [OF assms(1) a(1)] obtain k where k: "h1 = h @ k" "list_all (\<lambda>c. \<not> reads_disk c) k" .
  from appendsE [OF assms(2) [OF a(1)] a(2)] obtain l where l: "h' = h1 @ l" "reads_commit env cacheDir repo l" .
  from k(2) have "list_all (reads_in d) k" for d by (auto simp: list_all_iff)
  with l(2) have "reads_commit env cacheDir repo (k @ l)" by (auto simp: reads_commit_def)
  with k(1) l(1) show "\<exists>new. h' = h @ new \<and> reads_commit env cacheDir repo new" by simp
qed

lemma active_reads_commit:
  assumes "IsAbs (cacheRoot env (opt_CacheDir opts))" and "\<And>h p. well_named (os_WalkTree (env_os env) h p)"
  shows "appends (reads_commit env (opt_CacheDir opts) (src_repository (spec_source (app_spec app))))
    (reconcile_active (newReconciler fuel env u y hl order opts) app)"
    (is "appends (reads_commit env ?cache ?repo) (reconcile_active ?rc app)")
proof -
  have creds: "emits (\<lambda>c. \<not> reads_disk c) (loadCredentials env True app)" by (rule emits_loadCredentials) simp
  have co: "emits (\<lambda>c. \<not> reads_disk c) (repo_checkout fuel env ?cache ?repo rev creds)" for rev creds
    unfolding repo_checkout_def by (intro wp no_reads.emits_Checkout)
  have render: "appends (reads_commit env ?cache ?repo) (reconcile_checkout ?rc app' dir sha)"
    if "run_state (repo_checkout fuel env ?cache ?repo rev creds) h = (Inr (dir, sha), h')" for app' dir sha rev creds h h'
  proof -
    from Checkout_success [OF repo_checkout_run [OF that]]
    have s: "sha1Re sha" "dir = PathJoin [checkouts_dir env ?cache ?repo, sha]" by auto
    with assms(1) have "IsAbs dir" by (auto simp: checkouts_dir_def IsAbs_PathJoin sha1Re_def)
    from reads_commitI [OF s(1) reads_in_checkout [OF this assms(2), unfolded s(2)]] s(2) show ?thesis by simp
  qed
  show ?thesis
    unfolding reconcile_active_def newReconciler_fields
    by (auto split: option.split prod.split sum.split intro!: reads_commit_fail reads_commit_bind creds co render)
qed

text \<open>
  C30: A reconcile with the operator's own repository cache and renderers reads nothing but the checkout of one
  commit: if the cache root is an absolute path, then there is one commit directory of the application's
  repository in the cache such that every path that is read, listed, or handed to Helm's chart loader has the
  components of this directory followed by file names, whatever the specification, its values files and the
  repository say. (What is compared are the paths that the operator names. Where a symbolic link leads, and what
  Helm's loader opens below the chart's directory, is not seen here.)
\<close>

theorem reconcile_reads_checkout:
  assumes "IsAbs (cacheRoot env (opt_CacheDir opts))" and "\<And>h p. well_named (os_WalkTree (env_os env) h p)"
    and "active env h ns name app"
    and "run_state (Reconcile (newReconciler fuel env u y hl order opts) ns name) h = (r, h')"
  shows "\<exists>dir sha new. h' = h @ new \<and> sha1Re sha \<and> IsAbs dir
    \<and> path_comps dir = path_comps (cacheRoot env (opt_CacheDir opts))
          @ [''checkouts'', repoHash (src_repository (spec_source (app_spec app))), sha]
    \<and> list_all (reads_in dir) new"
proof -
  let ?rc = "newReconciler fuel env u y hl order opts" and ?g = "CallGetApp ns name (Inr app)"
  let ?repo = "src_repository (spec_source (app_spec app))"
  have act: "active (rc_env ?rc) h ns name app" using assms(3) by simp
  from assms(4) have run: "run_state (reconcile_active ?rc app) (h @ [?g]) = (r, h')"
    by (simp only: run_Reconcile_active [OF act])
  from appendsE [OF active_reads_commit [OF assms(1,2)] run] obtain new where
    new: "h' = (h @ [?g]) @ new" "reads_commit env (opt_CacheDir opts) ?repo new" .
  then obtain sha where sha: "sha1Re sha" "list_all (reads_in (PathJoin [checkouts_dir env (opt_CacheDir opts) ?repo, sha])) new"
    by (auto simp: reads_commit_def)
  moreover have "IsAbs (PathJoin [checkouts_dir env (opt_CacheDir opts) ?repo, sha])"
    using sha(1) assms(1) by (auto simp: checkouts_dir_def IsAbs_PathJoin sha1Re_def)
  ultimately show ?thesis
    using new(1) checkout_dir_comps [OF sha(1), of env "opt_CacheDir opts" ?repo]
    by (intro exI [of _ "PathJoin [checkouts_dir env (opt_CacheDir opts) ?repo, sha]"] exI [of _ sha] exI [of _ "?g # new"]) simp
qed

theorem reconcile_reads_checkout_witness:
  "\<exists>dir sha. sha1Re sha \<and> path_comps dir = [''tmp'', ''cabure-cache'', ''checkouts'', repoHash ''https://x/r.git'', sha]
    \<and> list_all (reads_in dir) (snd (run_state (Reconcile s_operator ''app-ns'' ''demo'') []))"
proof -
  have root: "cacheRoot s_chart_world [] = ''/tmp/cabure-cache''" by code_simp
  have comps: "path_comps ''/tmp/cabure-cache'' = [''tmp'', ''cabure-cache'']" by code_simp
  obtain r h' where run: "run_state (Reconcile s_operator ''app-ns'' ''demo'') [] = (r, h')"
    by (cases "run_state (Reconcile s_operator ''app-ns'' ''demo'') []")
  have "IsAbs (cacheRoot s_chart_world (opt_CacheDir (main_options default_flags)))" by (simp add: root)
  moreover have "well_named (os_WalkTree (env_os s_chart_world) h p)" for h p
    by (simp add: s_chart_world_def s_world_def)
  ultimately show ?thesis
    using reconcile_reads_checkout [OF _ _ s_chart_active run [unfolded s_operator_def]] run by (auto simp: root comps)
qed

end
