(* ===== verification/Worker_Props.thy ===== *)
theory Worker_Props
  imports Operator_Props
begin

section \<open>Flags, work queue and workers\<close>

text \<open>
  Properties of the operator process around the reconciler: the allow-list flag, the events of the informer, and
  the worker, which hands every key that it takes from the queue back, once, whatever becomes of it.
\<close>

subsection \<open>The allow-list flag\<close>

definition clean_prefix :: "string \<Rightarrow> bool" where
  "clean_prefix p \<longleftrightarrow> p \<noteq> [] \<and> TrimSpace p = p \<and> CHR '','' \<notin> set p"

lemma TrimSpace_set: "set (TrimSpace s) \<subseteq> set s"
  by (auto simp: TrimSpace_def dest!: set_dropWhileD)

lemma Split_set: "w \<in> set (Split sep s) \<Longrightarrow> set w \<subseteq> set s"
proof (induction s arbitrary: w)
  case (Cons c s)
  show ?case
  proof (cases "c = sep")
    case True
    with Cons.prems Cons.IH show ?thesis by fastforce
  next
    case False
    obtain v vs where v: "Split sep s = v # vs" by (cases "Split sep s") auto
    with False Cons.prems consider "w = c # v" | "w \<in> set vs" by auto
    then show ?thesis using Cons.IH [of v] Cons.IH [of w] v by cases auto
  qed
qed simp

lemma TrimSpace_id: "s = [] \<or> \<not> is_space (hd s) \<and> \<not> is_space (last s) \<Longrightarrow> TrimSpace s = s"
  by (auto simp: TrimSpace_def dropWhile_space_id hd_rev)

lemma Join_ends:
  assumes "ps \<noteq> []" and "\<forall>p \<in> set ps. p \<noteq> []"
  shows "Join ps sep \<noteq> [] \<and> hd (Join ps sep) = hd (hd ps) \<and> last (Join ps sep) = last (last ps)"
  using assms
proof (induction ps sep rule: Join.induct)
  case (3 x y xs sep)
  then show ?case by auto
qed simp_all

text \<open>
  C40: The allow-list flag round-trips: joining prefixes that are not empty, have no comma and no white space
  around them with commas, and splitting the flag's value, gives the prefixes back in order; and whatever the value
  is, what comes out are such prefixes. A value of nothing but commas and blanks gives no prefix at all, which
  the validation takes for no restriction.
\<close>

theorem allowed_prefixes_roundtrip:
  "(list_all clean_prefix ps \<longrightarrow> splitAllowedPrefixes (Join ps '','') = ps)
    \<and> list_all clean_prefix (splitAllowedPrefixes raw)
    \<and> ((\<forall>c \<in> set raw. c = CHR '','' \<or> is_space c) \<longrightarrow> splitAllowedPrefixes raw = [])"
proof (intro conjI impI)
  assume ps: "list_all clean_prefix ps"
  show "splitAllowedPrefixes (Join ps '','') = ps"
  proof (cases "ps = []")
    case False
    from ps have ne: "\<forall>p \<in> set ps. p \<noteq> [] \<and> TrimSpace p = p \<and> CHR '','' \<notin> set p"
      by (auto simp: list_all_iff clean_prefix_def)
    with False have "TrimSpace (hd ps) = hd ps" "hd ps \<noteq> []" "TrimSpace (last ps) = last ps" "last ps \<noteq> []" by auto
    then have "\<not> is_space (hd (hd ps))" "\<not> is_space (last (last ps))"
      by (metis TrimSpace_hd, metis TrimSpace_last)
    with Join_ends [OF False, of "'',''"] ne have j: "Join ps '','' \<noteq> []" "TrimSpace (Join ps '','') = Join ps '',''"
      by (auto intro: TrimSpace_id)
    have "List.map TrimSpace ps = ps" using ne by (intro map_idI) simp
    moreover have "filter (\<lambda>p. p \<noteq> []) ps = ps" using ne by (simp add: filter_id_conv)
    ultimately show ?thesis
      using j Split_Join [OF False, of "CHR '',''"] ne by (simp add: splitAllowedPrefixes_def)
  qed (simp add: splitAllowedPrefixes_def TrimSpace_def)
next
  have "CHR '','' \<notin> set (TrimSpace w)" if "w \<in> set (Split (CHR '','') s)" for w s
    using that TrimSpace_set Split_no_sep by blast
  then show "list_all clean_prefix (splitAllowedPrefixes raw)"
    by (auto simp: splitAllowedPrefixes_def list_all_iff clean_prefix_def TrimSpace_idem Let_def)
next
  assume raw: "\<forall>c \<in> set raw. c = CHR '','' \<or> is_space c"
  have "TrimSpace w = []" if w: "w \<in> set (Split (CHR '','') s)" and s: "set s \<subseteq> set raw" for w s
  proof -
    have "is_space c" if "c \<in> set w" for c
      using that Split_set [OF w] Split_no_sep [OF w] s bspec [OF raw, of c] by auto
    then show ?thesis by (auto simp: TrimSpace_def dest: set_dropWhileD)
  qed
  then have "\<forall>w \<in> set (Split (CHR '','') (TrimSpace raw)). TrimSpace w = []"
    using TrimSpace_set by blast
  then show "splitAllowedPrefixes raw = []"
    unfolding splitAllowedPrefixes_def Let_def by (simp add: filter_empty_conv)
qed

theorem allowed_prefixes_roundtrip_witness:
  "splitAllowedPrefixes (Join [''https://a/'', ''ssh://b/''] '','') = [''https://a/'', ''ssh://b/''] \<and> splitAllowedPrefixes '' , ,'' = []"
  using allowed_prefixes_roundtrip [of "[''https://a/'', ''ssh://b/'']" "'' , ,''"]
  by (simp add: clean_prefix_def TrimSpace_def is_space_def)


subsection \<open>The queue calls of a worker\<close>

fun queue_log :: "'o call list \<Rightarrow> queue_call list" where
  "queue_log [] = []"
| "queue_log (CallQueue q # cs) = q # queue_log cs"
| "queue_log (_ # cs) = queue_log cs"

fun no_queue :: "'o call \<Rightarrow> bool" where
  "no_queue (CallQueue q) \<longleftrightarrow> False"
| "no_queue _ \<longleftrightarrow> True"

lemma queue_log_append [simp]: "queue_log (xs @ ys) = queue_log xs @ queue_log ys"
  by (induction xs rule: queue_log.induct) auto

lemma queue_log_none: "list_all no_queue xs \<Longrightarrow> queue_log xs = []"
  by (induction xs rule: queue_log.induct) auto

lemma local_no_queue: "is_local c \<Longrightarrow> no_queue c"
  by (cases c) auto

lemma Reconcile_no_queue: "well_behaved rc \<Longrightarrow> emits no_queue (Reconcile rc ns name)"
  by (rule emits_Reconcile_calls) (simp_all add: local_no_queue)

lemma reconcile_call_no_queue: "well_behaved rc \<Longrightarrow> emits no_queue (reconcile_call rc ns name)"
  unfolding reconcile_call_def by (intro wp Reconcile_no_queue)

text \<open>What the worker may do with a key while it holds it.\<close>

inductive verdict :: "string \<Rightarrow> queue_call list \<Rightarrow> bool" for key where
  dropped: "verdict key []"
| forgotten: "verdict key [QForget key]"
| limited: "verdict key [QAddRateLimited key]"
| later: "0 < d \<Longrightarrow> verdict key [QForget key, QAddAfter key d]"
| again: "verdict key [QForget key, QAddRateLimited key]"

text \<open>The queue's view of one worker: a key is handed out, judged, and returned before the next is asked for.\<close>

inductive worker_log :: "queue_call list \<Rightarrow> bool" where
  stopped: "worker_log []"
| shut_down: "worker_log [QGet (key, True)]"
| served: "verdict key acts \<Longrightarrow> worker_log rest \<Longrightarrow> worker_log (QGet (key, False) # acts @ QDone key # rest)"

lemma handle_key_verdict:
  assumes "\<And>ns n. emits no_queue (reconcile ns n)"
    and "run_state (handle_key env splitKey reconcile key) h = (u, h')"
  obtains new where "h' = h @ new" "verdict key (queue_log new)"
proof (cases "splitKey key")
  case (Inl err)
  with assms(2) show thesis by (intro that [of "[CallQueue (QForget key)]"]) (auto simp: handle_key_def verdict.intros)
next
  case (Inr p)
  obtain ns n where p: "p = (ns, n)" by (cases p)
  obtain out h1 where r: "run_state (reconcile ns n) h = (out, h1)" by (cases "run_state (reconcile ns n) h")
  from emitsE [OF assms(1) r] obtain new where h1: "h1 = h @ new" and nq: "list_all no_queue new" by blast
  note q = queue_log_none [OF nq]
  from assms(2) Inr r show thesis
    by (cases out)
      (auto simp: handle_key_def p h1 ctxErr_def split: option.splits if_splits
        intro: that [of "new @ [CallQueue (QAddRateLimited key)]"] that [of new]
          that [of "new @ [CallCtxErr c]" for c] that [of "new @ [CallCtxErr c, CallQueue (QAddRateLimited key)]" for c]
          that [of "new @ [CallQueue (QForget key)]"]
          that [of "new @ [CallQueue (QForget key), CallQueue (QAddAfter key d)]" for d]
          that [of "new @ [CallQueue (QForget key), CallQueue (QAddRateLimited key)]"]
        simp: q verdict.intros)
qed

text \<open>One round of the worker, in the history.\<close>

definition round :: "string \<Rightarrow> 'o call list \<Rightarrow> gerror option \<Rightarrow> 'o call list" where
  "round key new c = CallQueue (QGet (key, False)) # new @ [CallQueue (QDone key), CallCtxErr c]"

lemma worker_round:
  assumes "\<And>ns n. emits no_queue (reconcile ns n)"
    and run: "run_state (runWorker (Suc fuel) env splitKey reconcile) h = (r, h')"
  obtains (down) key where "env_queueGet env h = (key, True)" "r = True" "h' = h @ [CallQueue (QGet (key, True))]"
  | (stop) key new c where "env_queueGet env h = (key, False)" "verdict key (queue_log new)" "r = True" "h' = h @ round key new (Some c)"
  | (more) key new where "env_queueGet env h = (key, False)" "verdict key (queue_log new)"
      "run_state (runWorker fuel env splitKey reconcile) (h @ round key new None) = (r, h')"
proof -
  obtain key shutdown where g: "env_queueGet env h = (key, shutdown)" by (cases "env_queueGet env h")
  show thesis
  proof (cases shutdown)
    case True
    with run g show thesis by (intro down [of key]) (auto simp: queueGet_def)
  next
    case False
    let ?h = "h @ [CallQueue (QGet (key, False))]"
    obtain u h1 where hk: "run_state (handle_key env splitKey reconcile key) ?h = (u, h1)"
      by (cases "run_state (handle_key env splitKey reconcile key) ?h")
    from handle_key_verdict [OF assms(1) hk] obtain new where new: "h1 = ?h @ new" "verdict key (queue_log new)" .
    show thesis
    proof (cases "env_ctxErr env (h1 @ [CallQueue (QDone key)])")
      case None
      with run g False hk new(1) have "run_state (runWorker fuel env splitKey reconcile) (h @ round key new None) = (r, h')"
        by (simp add: queueGet_def process_key_def ctxErr_def round_def)
      with g False new(2) show thesis by (intro more) simp_all
    next
      case (Some c)
      with run g False hk new(1) have "r = True" "h' = h @ round key new (Some c)"
        by (simp_all add: queueGet_def process_key_def ctxErr_def round_def)
      with g False new(2) show thesis by (intro stop) simp_all
    qed
  qed
qed

lemma round_log: "verdict key (queue_log new) \<Longrightarrow> worker_log rest \<Longrightarrow> worker_log (queue_log (round key new c) @ rest)"
  using worker_log.served [of key "queue_log new" rest] by (simp add: round_def)

lemma worker_logs:
  assumes nq: "\<And>ns n. emits no_queue (reconcile ns n)"
  shows "run_state (runWorker fuel env splitKey reconcile) h = (r, h') \<Longrightarrow> \<exists>new. h' = h @ new \<and> worker_log (queue_log new)"
proof (induction fuel arbitrary: h)
  case (Suc fuel)
  from nq Suc.prems show ?case
  proof (cases rule: worker_round)
    case (down key)
    then show ?thesis by (simp add: worker_log.shut_down)
  next
    case (stop key new c)
    with round_log [OF stop(2) worker_log.stopped, of "Some c"] show ?thesis by simp
  next
    case (more key new)
    from Suc.IH [OF more(3)] obtain rest where "h' = (h @ round key new None) @ rest" "worker_log (queue_log rest)" by blast
    with round_log [OF more(2), of "queue_log rest" None] show ?thesis
      by (intro exI [of _ "round key new None @ rest"]) simp
  qed
qed (simp add: worker_log.stopped)

text \<open>
  C13: Whatever the reconciler does, and also when it panics, a worker keeps the protocol of the work queue: it
  takes one key at a time, hands each key back with exactly one \<open>Done\<close> before it asks for the next, and in
  between it only forgets the key or puts it back, once, at a limited rate or after a positive delay.
\<close>

theorem worker_keeps_protocol:
  assumes "\<And>ns n. emits no_queue (reconcile ns n)"
  shows "\<exists>new. snd (run_state (runWorker fuel env splitKey reconcile) h) = h @ new \<and> worker_log (queue_log new)"
proof -
  obtain r h' where run: "run_state (runWorker fuel env splitKey reconcile) h = (r, h')"
    by (cases "run_state (runWorker fuel env splitKey reconcile) h")
  from worker_logs [OF assms run] run show ?thesis by simp
qed

theorem worker_keeps_protocol_witness:
  "\<exists>new. snd (run_state (runWorker 5 s_chart_world (\<lambda>key. Inr (''app-ns'', key)) (reconcile_call s_operator)) []) = new
     \<and> worker_log (queue_log new)"
proof -
  have "well_behaved s_operator"
    unfolding s_operator_def by (rule wired_well_behaved) simp_all
  then have "emits no_queue (reconcile_call s_operator ns n)" for ns n by (rule reconcile_call_no_queue)
  from worker_keeps_protocol [OF this, where h = "[]" and fuel = 5 and env = s_chart_world] show ?thesis by simp
qed

text \<open>
  C3: A worker stops: once the queue answers, from the \<open>n\<close>-th request on at the latest, that it has been shut
  down, the worker returns, and \<open>n\<close> further rounds are enough. (\<open>asked\<close> counts the requests.)
\<close>

fun asked :: "'o call list \<Rightarrow> nat" where
  "asked [] = 0"
| "asked (CallQueue (QGet r) # cs) = Suc (asked cs)"
| "asked (_ # cs) = asked cs"

lemma asked_append [simp]: "asked (xs @ ys) = asked xs + asked ys"
  by (induction xs rule: asked.induct) auto

theorem worker_returns:
  assumes nq: "\<And>ns n. emits no_queue (reconcile ns n)" and shut: "\<And>h. n \<le> asked h \<Longrightarrow> snd (env_queueGet env h)"
    and "n < asked h + fuel" and "0 < fuel"
  shows "fst (run_state (runWorker fuel env splitKey reconcile) h)"
  using assms(3,4)
proof (induction fuel arbitrary: h)
  case (Suc fuel)
  obtain r h' where run: "run_state (runWorker (Suc fuel) env splitKey reconcile) h = (r, h')"
    by (cases "run_state (runWorker (Suc fuel) env splitKey reconcile) h")
  from nq run have r
  proof (cases rule: worker_round)
    case (more key new)
    with shut [of h] have h: "asked h < n" by force
    let ?h = "h @ round key new None"
    have "asked h + 1 \<le> asked ?h" by (simp add: round_def)
    with Suc.prems(1) h have "n < asked ?h + fuel" "0 < fuel" by auto
    from Suc.IH [OF this] more(3) show ?thesis by simp
  qed simp_all
  with run show ?case by simp
qed simp

theorem worker_returns_witness:
  "fst (run_state (runWorker 3 (s_chart_world\<lparr>env_queueGet := (\<lambda>h. (''demo'', 2 \<le> asked h))\<rparr>) (\<lambda>key. Inr (''app-ns'', key))
     (\<lambda>ns n. State_Monad.return (Panicked ''boom''))) [])"
  by (rule worker_returns [of _ 2]) (auto intro: wp)


subsection \<open>Coming back\<close>

lemma Reconcile_requeue:
  assumes wb: "well_behaved rc" and app: "env_getApp (rc_env rc) h ns name = Inr app" "\<not> is_deleted app"
    and pos: "0 < cfg_minimumRequeueInterval (rc_config rc)"
    and run: "run_state (Reconcile rc ns name) h = ((res, None), h @ new)"
  shows "cfg_minimumRequeueInterval (rc_config rc) \<le> res_requeueAfter res"
proof (cases "spec_suspend (app_spec app)")
  case True
  with run app pos show ?thesis
    by (auto simp: run_Reconcile run_updateSuspended Let_def minimumRequeueInterval_def split: sum.splits)
next
  case False
  with app have "active (rc_env rc) h ns name app" by (simp add: active_def)
  from wb this run show ?thesis by (rule successful_reconcile) (simp add: no_result_def)
qed

text \<open>
  C12: An application that exists and is not being deleted comes back: with a positive minimum interval, the
  worker ends a reconcile without error by putting the key back after at least that interval, and one with an
  error by putting it back at a limited rate, unless the error is the cancellation or the operator's context is
  done. Only then, and for applications that are gone, the key is not scheduled again.
\<close>

theorem live_application_comes_back:
  assumes "well_behaved rc" and "splitKey key = Inr (ns, name)"
    and "env_getApp (rc_env rc) h ns name = Inr app" and "\<not> is_deleted app"
    and "0 < cfg_minimumRequeueInterval (rc_config rc)"
    and "run_state (process_key (rc_env rc) splitKey (reconcile_call rc) key) h = (u, h')"
  shows "\<exists>res e new. run_state (Reconcile rc ns name) h = ((res, e), h @ new)
    \<and> (case e of
         None \<Rightarrow> \<exists>d \<ge> cfg_minimumRequeueInterval (rc_config rc).
           h' = h @ new @ [CallQueue (QForget key), CallQueue (QAddAfter key d), CallQueue (QDone key)]
       | Some err \<Rightarrow> is_canceled err \<or> env_ctxErr (rc_env rc) (h @ new) \<noteq> None
           \<or> h' = h @ new @ [CallCtxErr None, CallQueue (QAddRateLimited key), CallQueue (QDone key)])"
proof -
  obtain res e h1 where r: "run_state (Reconcile rc ns name) h = ((res, e), h1)"
    by (cases "run_state (Reconcile rc ns name) h") auto
  from Reconcile_appends [OF assms(1) r] obtain new where h1: "h1 = h @ new" .
  show ?thesis
  proof (cases e)
    case None
    with Reconcile_requeue [OF assms(1,3,4,5), of res new] r h1
    have "cfg_minimumRequeueInterval (rc_config rc) \<le> res_requeueAfter res" by simp
    with assms(2,5,6) r h1 None show ?thesis
      by (intro exI [of _ res] exI [of _ e] exI [of _ new])
        (auto simp: process_key_def handle_key_def reconcile_call_def intro!: exI [of _ "res_requeueAfter res"])
  next
    case (Some err)
    with assms(2,6) r h1 show ?thesis
      by (intro exI [of _ res] exI [of _ e] exI [of _ new])
        (auto simp: process_key_def handle_key_def reconcile_call_def ctxErr_def split: if_splits)
  qed
qed

theorem live_application_comes_back_witness:
  "\<exists>d \<ge> 15 * Second. \<exists>new. snd (run_state (process_key s_chart_world (\<lambda>key. Inr (''app-ns'', key)) (reconcile_call s_operator) ''demo'') [])
     = new @ [CallQueue (QForget ''demo''), CallQueue (QAddAfter ''demo'' d), CallQueue (QDone ''demo'')]"
proof -
  have wb: "well_behaved s_operator" unfolding s_operator_def by (rule wired_well_behaved) simp_all
  have f: "rc_env s_operator = s_chart_world" "cfg_minimumRequeueInterval (rc_config s_operator) = 15 * Second"
    by (simp_all add: s_operator_def)
  obtain u h' where run: "run_state (process_key s_chart_world (\<lambda>key. Inr (''app-ns'', key)) (reconcile_call s_operator) ''demo'') [] = (u, h')"
    by (cases "run_state (process_key s_chart_world (\<lambda>key. Inr (''app-ns'', key)) (reconcile_call s_operator) ''demo'') []")
  from s_operator_run obtain res0 h0 where "run_state (Reconcile s_operator ''app-ns'' ''demo'') [] = ((res0, None), h0)"
    unfolding reconcile_call_def by (auto elim!: run_bindE split: prod.splits)
  with live_application_comes_back [where rc = s_operator and key = "''demo''" and ns = "''app-ns''" and name = "''demo''"
      and splitKey = "\<lambda>key. Inr (''app-ns'', key)" and h = "[]" and app = s_chart_app and u = u and h' = h'] wb run f
  show ?thesis
    using s_chart_active [of "[]" "''app-ns''" "''demo''"] by (auto simp: active_def Second_def)
qed

end
