(* ===== verification/Concurrent_Props.thy ===== *)
theory Concurrent_Props
  imports Interleaving Worker_Props
begin

section \<open>Checkouts and workers that run at the same time\<close>

text \<open>
  \<open>mirror_updates_apart\<close>: two checkouts of one repository, in whatever order their calls interleave, change the
  mirror one after the other. \<open>reconciles_apart\<close>: two workers reconcile one application one after the other. Both
  are instances of \<open>sections_apart\<close>: the promises are those of \<open>flock\<close> and of client-go's work queue, the
  discipline is that of \<open>withLock\<close> and of \<open>runWorker\<close>.
\<close>

subsection \<open>The mirror\<close>

interpretation mirror_lock: shared_resource "takes_lock path" "drops_lock path" "mirror_change m" for path m
  by unfold_locales (metis drops_lock.elims(2) mirror_change.simps(3-))

text \<open>
  C20: Checkouts of one repository that run at the same time never mix their changes of its mirror: in every
  interleaving of their calls, provided that the system grants the exclusive lock of the lock file to one
  checkout at a time, between a change made by one checkout and a later change made by another the first has
  dropped the lock and then the second has taken it. (No checkout is given the mirror's own path as a fresh
  temporary directory.)
\<close>

theorem mirror_updates_apart:
  assumes "one_at_a_time (takes_lock (m @ ''.lockfile'')) (drops_lock (m @ ''.lockfile'')) None
      (g1 @ (i, c) # g2 @ (j, d) # g3)"
    and runs: "\<And>w. w \<in> {i, j} \<Longrightarrow> mirror_dir (env w) cacheDir repoURL = m
      \<and> snd (run_state (Checkout fuel (env w) cacheDir repoURL (revision w) (creds w)) (h w))
          = h w @ calls_of w (g1 @ (i, c) # g2 @ (j, d) # g3)
      \<and> (\<forall>t pat. CallOS (MkdirTemp t pat (Inr m)) \<notin> set (calls_of w (g1 @ (i, c) # g2 @ (j, d) # g3)))"
    and "mirror_change m c" and "mirror_change m d" and "i \<noteq> j"
  shows "\<exists>a x b y e. g2 = a @ (i, x) # b @ (j, y) # e
    \<and> drops_lock (m @ ''.lockfile'') x \<and> takes_lock (m @ ''.lockfile'') y"
proof (rule mirror_lock.sections_apart [OF assms(1) _ assms(3-5)])
  fix w assume w: "w \<in> {i, j}"
  let ?t = "calls_of w (g1 @ (i, c) # g2 @ (j, d) # g3)"
  obtain r where "run_state (Checkout fuel (env w) cacheDir repoURL (revision w) (creds w)) (h w) = (r, h w @ ?t)"
    using runs [OF w] by (metis prod.collapse)
  from Checkout_safe [OF this] runs [OF w] have "mirror_safe m ?t" by simp
  with runs [OF w] show "while_held (takes_lock (m @ ''.lockfile'')) (drops_lock (m @ ''.lockfile'')) (mirror_change m) ?t"
    by (simp add: mirror_safe_def temp_named_def)
qed

text \<open>The calls of a checkout in the sample world: what comes before its fetch, the fetch, what comes after.\<close>

definition s_before :: "string \<Rightarrow> string \<Rightarrow> sobj call list" where
  "s_before m d = [CallOS (MkdirAll (Dir m) None), CallOS (MkdirAll d None), CallNow 7,
     CallOS (OpenLock (m @ ''.lockfile'') None), CallOS (FlockTry (m @ ''.lockfile'') None),
     CallOS (StatPath (PathJoin [m, ''HEAD'']) (Inr True))]
     @ s_git m None [''remote'', ''remove'', ''origin''] @ s_git m None [''remote'', ''add'', ''origin'', ''git/repo'']
     @ [CallOS (StatPath ''/usr/bin/git'' (Inr True))]"

definition s_fetch :: "string \<Rightarrow> sobj call" where
  "s_fetch m = CallOS (RunGit ''/usr/bin/git'' m [''GIT_TERMINAL_PROMPT=0'', ''GIT_ASKPASS=true''] fetch_args
     (replicate 40 (CHR ''a''), None))"

definition s_after :: "string \<Rightarrow> string \<Rightarrow> sobj call list" where
  "s_after m d = [CallOS (FlockUnlock (m @ ''.lockfile'')), CallOS (CloseLock (m @ ''.lockfile''))]
     @ s_git m None [''ls-remote'', ''--refs'', ''origin'', ''main'']
     @ [CallOS (StatPath (PathJoin [d, replicate 40 (CHR ''a'')]) (Inr True))]"

lemma s_checkout_calls:
  fixes g t cacheDir
  defines "m \<equiv> mirror_dir (s_world g t) cacheDir ''git/repo''"
    and "d \<equiv> checkouts_dir (s_world g t) cacheDir ''git/repo''"
  shows "snd (run_state (Checkout 1 (s_world g t) cacheDir ''git/repo'' ''main'' None) h)
    = h @ s_before m d @ s_fetch m # s_after m d"
proof -
  have rev: "\<not> sha1Re ''main''" by (simp add: sha1Re_def)
  have "prepareAuth (s_world g t) base ''git/repo'' None = State_Monad.return (Inr None)" for base
    by (simp add: prepareAuth_def authHeader_def git_isSSHRepositoryURL_def sshSCPStyle_def HasPrefix_def)
  with rev show ?thesis
    by (simp add: Checkout_def checkout_locked_def checkout_tree_def withLock_def Let_def cleanup_auth_def
        m_def d_def mirror_dir_def checkouts_dir_def s_before_def s_fetch_def s_after_def s_git_def auth_env_def
        auth_args_def del: replicate.simps)
qed

theorem mirror_updates_apart_witness:
  "\<exists>m d. \<exists>a x b y e. List.map (Pair 0) (s_after m d) @ List.map (Pair 1) (s_before m d) = a @ (0 :: nat, x) # b @ (1, y) # e
    \<and> drops_lock (m @ ''.lockfile'') x \<and> takes_lock (m @ ''.lockfile'') y"
proof -
  let ?m = "mirror_dir s_env ''/cache'' ''git/repo''" and ?d = "checkouts_dir s_env ''/cache'' ''git/repo''"
  have ch: "mirror_change ?m (s_fetch ?m)" by (simp add: s_fetch_def mirror_args_def fetch_args_def)
  let ?g = "\<lambda>b a. List.map (Pair (0 :: nat)) b @ (0, s_fetch ?m) # (List.map (Pair 0) a @ List.map (Pair 1) b)
      @ (1, s_fetch ?m) # List.map (Pair 1) a"
  have calls: "calls_of w (?g (s_before ?m ?d) (s_after ?m ?d)) = s_before ?m ?d @ s_fetch ?m # s_after ?m ?d"
    if "w \<in> {0, 1}" for w :: nat
    using that by auto
  have one: "one_at_a_time (takes_lock (?m @ ''.lockfile'')) (drops_lock (?m @ ''.lockfile'')) None
      (?g (s_before ?m ?d) (s_after ?m ?d))"
    by (simp add: s_before_def s_fetch_def s_after_def s_git_def next_holder_def)
  have "CallOS (MkdirTemp t p (Inr ?m)) \<notin> set (s_before ?m ?d @ s_fetch ?m # s_after ?m ?d)" for t p
    by (simp add: s_before_def s_fetch_def s_after_def s_git_def)
  with mirror_updates_apart [where i = 0 and j = 1 and env = "\<lambda>_. s_env" and h = "\<lambda>_. []" and fuel = 1
      and cacheDir = "''/cache''" and repoURL = "''git/repo''" and revision = "\<lambda>_. ''main''" and creds = "\<lambda>_. None",
      OF one _ ch ch] calls s_checkout_calls [of _ _ "''/cache''" "[]"]
  have "\<exists>a x b y e. List.map (Pair 0) (s_after ?m ?d) @ List.map (Pair 1) (s_before ?m ?d) = a @ (0 :: nat, x) # b @ (1, y) # e
    \<and> drops_lock (?m @ ''.lockfile'') x \<and> takes_lock (?m @ ''.lockfile'') y"
    by simp
  then show ?thesis by blast
qed



subsection \<open>The applications\<close>

text \<open>The queue hands a key out, a worker hands it back, and in between reads the application.\<close>

fun hands_out :: "string \<Rightarrow> 'o call \<Rightarrow> bool" where
  "hands_out key (CallQueue (QGet r)) \<longleftrightarrow> r = (key, False)"
| "hands_out key _ \<longleftrightarrow> False"

fun hands_back :: "string \<Rightarrow> 'o call \<Rightarrow> bool" where
  "hands_back key (CallQueue (QDone k)) \<longleftrightarrow> k = key"
| "hands_back key _ \<longleftrightarrow> False"

fun reads_app :: "string \<Rightarrow> string \<Rightarrow> 'o call \<Rightarrow> bool" where
  "reads_app ns name (CallGetApp ns' name' r) \<longleftrightarrow> ns' = ns \<and> name' = name"
| "reads_app ns name _ \<longleftrightarrow> False"

interpretation queue_key: shared_resource "hands_out key" "hands_back key" "reads_app ns name" for key ns name
  by unfold_locales (metis hands_back.elims(2) reads_app.simps(10))

lemma emits_handle_key:
  assumes "\<And>ns name. splitKey key = Inr (ns, name) \<Longrightarrow> emits P (reconcile ns name)"
    and "\<And>q. (\<forall>k. q \<noteq> QDone k) \<Longrightarrow> (\<forall>r. q \<noteq> QGet r) \<Longrightarrow> P (CallQueue q)" and "\<And>e. P (CallCtxErr e)"
  shows "emits P (handle_key env splitKey reconcile key)"
  unfolding handle_key_def
  by (intro wp assms) (auto split: reconcile_outcome.split option.split intro!: wp assms)

lemma no_queue_hands_back: "no_queue c \<Longrightarrow> \<not> hands_back key c"
  by (cases c) auto

text \<open>A worker reads an application only between taking its key and handing it back.\<close>

lemma worker_reads:
  assumes quiet: "\<And>a b. emits (\<lambda>c. no_queue c \<and> (reads_app ns name c \<longrightarrow> a = ns \<and> b = name)) (reconcile a b)"
    and only: "\<And>k. splitKey k = Inr (ns, name) \<Longrightarrow> k = key"
  shows "appends (while_held (hands_out key) (hands_back key) (reads_app ns name)) (runWorker fuel env splitKey reconcile)"
proof (induction fuel)
  case (Suc fuel)
  let ?W = "while_held (hands_out key) (hands_back key) (reads_app ns name)"
  show ?case
  proof (rule appendsI)
    fix h r h' assume run: "run_state (runWorker (Suc fuel) env splitKey reconcile) h = (r, h')"
    obtain k shut where g: "env_queueGet env h = (k, shut)" by (cases "env_queueGet env h")
    let ?get = "CallQueue (QGet (k, shut))"
    show "\<exists>new. h' = h @ new \<and> ?W new"
    proof (cases shut)
      case True
      with run g have "h' = h @ [?get]" by (simp add: queueGet_def)
      then show ?thesis by (simp add: while_held_none)
    next
      case False
      let ?hk = "handle_key env splitKey reconcile k"
      obtain u h1 where hk: "run_state ?hk (h @ [?get]) = (u, h1)" by (cases "run_state ?hk (h @ [?get])")
      have "emits (\<lambda>c. \<not> hands_back key c \<and> (reads_app ns name c \<longrightarrow> k = key)) ?hk"
      proof (rule emits_handle_key)
        fix a b assume "splitKey k = Inr (a, b)"
        with only show "emits (\<lambda>c. \<not> hands_back key c \<and> (reads_app ns name c \<longrightarrow> k = key)) (reconcile a b)"
          by (intro emits_mono [OF quiet]) (auto dest: no_queue_hands_back)
      qed (auto elim: hands_back.elims)
      from emitsE [OF this hk] obtain new where new: "h1 = (h @ [?get]) @ new"
        "list_all (\<lambda>c. \<not> hands_back key c \<and> (reads_app ns name c \<longrightarrow> k = key)) new" .
      have "?W (?get # new)"
      proof (cases "k = key")
        case True
        with new(2) False show ?thesis by (intro while_held_section) (auto simp: list_all_iff)
      next
        case False
        with new(2) show ?thesis by (intro while_held_none) (auto simp: list_all_iff)
      qed
      let ?c = "env_ctxErr env (h1 @ [CallQueue (QDone k)])"
      let ?first = "(?get # new) @ [CallQueue (QDone k), CallCtxErr ?c]"
      have first: "?W ?first"
        by (rule while_held_append [OF \<open>?W (?get # new)\<close>]) (simp add: while_held_none)
      show ?thesis
      proof (cases ?c)
        case (Some e)
        with run g False hk new(1) have "h' = h @ ?first"
          by (simp add: queueGet_def process_key_def ctxErr_def)
        with first show ?thesis by blast
      next
        case None
        with run g False hk new(1) have "run_state (runWorker fuel env splitKey reconcile) (h @ ?first) = (r, h')"
          by (simp add: queueGet_def process_key_def ctxErr_def)
        with Suc.IH obtain rest where "h' = (h @ ?first) @ rest" "?W rest" by (rule appendsE)
        with while_held_append [OF first] show ?thesis by (intro exI [of _ "?first @ rest"]) simp
      qed
    qed
  qed
qed (simp add: appends_def holding.T_Nil)

lemma reconcile_call_reads:
  assumes "well_behaved rc"
  shows "emits (\<lambda>c. no_queue c \<and> (reads_app ns name c \<longrightarrow> a = ns \<and> b = name)) (reconcile_call rc a b)"
proof -
  have loc: "is_local c \<Longrightarrow> \<not> reads_app ns name c" for c :: "'a call" by (cases c) auto
  have "emits (\<lambda>c. no_queue c \<and> (reads_app ns name c \<longrightarrow> a = ns \<and> b = name)) (Reconcile rc a b)"
  proof (rule emits_Reconcile)
    show "emits (\<lambda>c. no_queue c \<and> (reads_app ns name c \<longrightarrow> a = ns \<and> b = name)) (updateSuspended (rc_env rc) (rc_config rc) app)"
      for app unfolding updateSuspended_def by (intro wp) simp_all
    show "emits (\<lambda>c. no_queue c \<and> (reads_app ns name c \<longrightarrow> a = ns \<and> b = name)) (reconcile_active rc app)" for app
      by (rule emits_active_calls [OF assms]) (auto simp: local_no_queue loc)
  qed simp
  then show ?thesis unfolding reconcile_call_def by (intro wp)
qed

text \<open>
  C14: No two workers reconcile the same application at the same time: in every interleaving of the calls of the
  workers, provided that the work queue does not hand a key out again before it has been handed back, between one
  worker's read of the application, with which a reconcile begins, and a later read by another worker, the first
  has told the queue that it is done with the key, and then the second has been given it. (The key is the only
  one that names the application.)
\<close>

theorem reconciles_apart:
  assumes "one_at_a_time (hands_out key) (hands_back key) None (g1 @ (i, c) # g2 @ (j, d) # g3)"
    and runs: "\<And>w. w \<in> {i, j} \<Longrightarrow> well_behaved (rc w)
      \<and> snd (run_state (runWorker fuel (rc_env (rc w)) splitKey (reconcile_call (rc w))) (h w))
          = h w @ calls_of w (g1 @ (i, c) # g2 @ (j, d) # g3)"
    and only: "\<And>k. splitKey k = Inr (ns, name) \<Longrightarrow> k = key"
    and "reads_app ns name c" and "reads_app ns name d" and "i \<noteq> j"
  shows "\<exists>a b e. g2 = a @ (i, CallQueue (QDone key)) # b @ (j, CallQueue (QGet (key, False))) # e"
proof -
  have "while_held (hands_out key) (hands_back key) (reads_app ns name) (calls_of w (g1 @ (i, c) # g2 @ (j, d) # g3))"
    if w: "w \<in> {i, j}" for w
    using worker_reads [where reconcile = "reconcile_call (rc w)" and splitKey = splitKey and fuel = fuel
        and env = "rc_env (rc w)", OF reconcile_call_reads only] runs [OF w]
    unfolding appends_def by (metis same_append_eq)
  from queue_key.sections_apart [OF assms(1) this assms(4-6)] obtain a x b y e
    where "g2 = a @ (i, x) # b @ (j, y) # e" "hands_back key x" "hands_out key y" by blast
  moreover from this have "x = CallQueue (QDone key)" "y = CallQueue (QGet (key, False))"
    by (auto elim!: hands_back.elims hands_out.elims)
  ultimately show ?thesis by blast
qed

text \<open>Two workers of the sample world, one after the other with the same key; its application cannot be read.\<close>

definition s_queue_world :: "sobj env" where
  "s_queue_world = s_env\<lparr>env_queueGet := (\<lambda>h. (''a/b'', False))\<rparr>"

definition s_queue_operator :: "sobj reconciler" where
  "s_queue_operator = newReconciler 1 s_queue_world s_api s_yaml s_chart_helm (\<lambda>es. es) (main_options default_flags)"

definition s_split :: "string \<Rightarrow> (string \<times> string) result" where
  "s_split key = (if key = ''a/b'' then Inr (''a'', ''b'') else Inl (Errorf ''unexpected key format''))"

theorem reconciles_apart_witness:
  "\<exists>a b e. [(0, CallCtxErr None), (0, CallQueue (QAddRateLimited ''a/b'')), (0 :: nat, CallQueue (QDone ''a/b'')), (0, CallCtxErr None),
      (1, CallQueue (QGet (''a/b'', False)))]
    = a @ (0, CallQueue (QDone ''a/b'') :: sobj call) # b @ (1, CallQueue (QGet (''a/b'', False))) # e"
proof -
  let ?read = "CallGetApp ''a'' ''b'' (Inl (Errorf [])) :: sobj call"
  let ?get = "CallQueue (QGet (''a/b'', False)) :: sobj call"
  let ?fin = "[CallCtxErr None, CallQueue (QAddRateLimited ''a/b''), CallQueue (QDone ''a/b''), CallCtxErr None] :: sobj call list"
  let ?g = "[(0 :: nat, ?get), (0, ?read)] @ List.map (Pair 0) ?fin @ [(1, ?get), (1, ?read)] @ List.map (Pair 1) ?fin"
  have wb: "well_behaved s_queue_operator" unfolding s_queue_operator_def by (rule wired_well_behaved) simp_all
  have run: "snd (run_state (runWorker 1 (rc_env s_queue_operator) s_split (reconcile_call s_queue_operator)) [])
      = [?get, ?read] @ ?fin"
    by (simp add: s_queue_operator_def newReconciler_def process_key_def handle_key_def s_split_def reconcile_call_def
        Reconcile_def s_queue_world_def s_env_def queueGet_def ctxErr_def getApp_def is_canceled_def
        is_not_found_def)
  have one: "one_at_a_time (hands_out ''a/b'') (hands_back ''a/b'') None
      ([(0 :: nat, ?get)] @ (0, ?read) # (List.map (Pair 0) ?fin @ [(1, ?get)]) @ (1, ?read) # List.map (Pair 1) ?fin)"
    by (simp add: next_holder_def)
  have only: "s_split k = Inr (''a'', ''b'') \<Longrightarrow> k = ''a/b''" for k by (simp add: s_split_def split: if_splits)
  have "\<exists>a b e. List.map (Pair (0 :: nat)) ?fin @ [(1, ?get)] = a @ (0, CallQueue (QDone ''a/b'')) # b @ (1, ?get) # e"
  proof (rule reconciles_apart [where rc = "\<lambda>_. s_queue_operator" and h = "\<lambda>_. []" and fuel = 1 and splitKey = s_split
        and ns = "''a''" and name = "''b''", OF one])
    show "well_behaved s_queue_operator \<and> snd (run_state (runWorker 1 (rc_env s_queue_operator) s_split
        (reconcile_call s_queue_operator)) []) = [] @ calls_of w ([(0, ?get)] @ (0, ?read) #
          (List.map (Pair 0) ?fin @ [(1, ?get)]) @ (1, ?read) # List.map (Pair 1) ?fin)" if "w \<in> {0, 1}" for w :: nat
      using that wb run by auto
  qed (auto dest: only)
  then show ?thesis by simp
qed

end
