(* ===== verification/Tree_Fill.thy ===== *)
theory Tree_Fill
  imports Concurrent_Props
begin

section \<open>The directory of a commit is filled once\<close>

text \<open>
  Several reconciles may check out the same commit at the same time, each through \<open>Checkout\<close>, which looks for
  the commit's directory, takes the lock of that directory, looks again, clones to a fresh directory and moves
  the clone into place. \<open>fills_safely\<close> is what one checkout keeps to; \<open>commit_filled_once\<close> is what follows for
  all of them together, from the promise of the lock and from directories staying where they are.
\<close>

fun moves_to :: "string \<Rightarrow> 'o call \<Rightarrow> bool" where
  "moves_to f (CallOS (RenamePath p q r)) \<longleftrightarrow> q = f"
| "moves_to f _ \<longleftrightarrow> False"

fun missed :: "string \<Rightarrow> 'o call \<Rightarrow> bool" where
  "missed f (CallOS (StatPath p r)) \<longleftrightarrow> p = f \<and> r \<noteq> Inr True"
| "missed f _ \<longleftrightarrow> False"

fun filled :: "string \<Rightarrow> 'o call \<Rightarrow> bool" where
  "filled f (CallOS (RenamePath p q r)) \<longleftrightarrow> q = f \<and> r = None"
| "filled f _ \<longleftrightarrow> False"

lemma filled_moves: "filled f c \<Longrightarrow> moves_to f c"
  by (cases "(f, c)" rule: filled.cases) simp_all

lemma moves_keep: "moves_to f c \<Longrightarrow> \<not> drops_lock path c"
  by (cases "(f, c)" rule: moves_to.cases) simp_all

interpretation tree_lock: shared_resource "takes_lock path" "drops_lock path" "moves_to f" for path f
  by unfold_locales (rule moves_keep)

text \<open>
  Every move to the directory happens under its lock, and after the directory was missing when the run looked
  for it under the same lock.
\<close>

definition fills_safely :: "string \<Rightarrow> 'o call list \<Rightarrow> bool" where
  "fills_safely f new \<longleftrightarrow>
     while_held (takes_lock (f @ ''.lockfile'')) (drops_lock (f @ ''.lockfile'')) (moves_to f) new
   \<and> while_held (missed f) (\<lambda>c. takes_lock (f @ ''.lockfile'') c \<or> moves_to f c) (moves_to f) new"

interpretation filling: trace_property "fills_safely f" for f
  by unfold_locales (auto simp: fills_safely_def holding.T_Nil intro: holding.T_append)

lemma fills_none: "list_all (\<lambda>c. \<not> moves_to f c) new \<Longrightarrow> fills_safely f new"
  by (simp add: fills_safely_def while_held_none)

lemma fills_emits: "emits (\<lambda>c. \<not> moves_to f c) p \<Longrightarrow> appends (fills_safely f) p"
  by (erule filling.appends_emits) (rule fills_none)

lemma lock_wait_no_move: "lock_wait path c \<Longrightarrow> \<not> moves_to f c"
  by (auto simp: lock_wait_def)

text \<open>The part of \<open>populate\<close> after the look at the directory moves something there at most once.\<close>

definition fill_tree where
  "fill_tree env mirrorDir checkoutDir finalDir sha auth = do {
     t \<leftarrow> osMkdirTemp env checkoutDir ''tmp-*'';
     (case t of
        Inl err \<Rightarrow> State_Monad.return (Some err)
      | Inr tempDir \<Rightarrow> do {
          (r, cleanupDir) \<leftarrow> clone_into env mirrorDir tempDir finalDir sha auth;
          (if cleanupDir \<noteq> [] then do { _ \<leftarrow> osRemoveAll env cleanupDir; State_Monad.return r }
           else State_Monad.return r)
        })
   }"

lemma populate_fill: "populate env mirrorDir checkoutDir finalDir sha auth = do {
     st \<leftarrow> osStat env finalDir;
     if st = Inr True then State_Monad.return None else fill_tree env mirrorDir checkoutDir finalDir sha auth
   }"
  unfolding populate_def fill_tree_def by simp

lemma fill_tree_moves: "at_most (\<lambda>c. of_bool (moves_to f c)) 1 (fill_tree env mirrorDir checkoutDir finalDir sha auth)"
  (is "at_most ?w _ _")
proof -
  have none: "emits (\<lambda>c. \<not> moves_to f c) p \<Longrightarrow> at_most ?w 0 p" for p :: "('a call list, 'b) state"
    by (rule at_most_none) (erule emits_mono, simp)
  have git: "at_most ?w 0 (runGit env d auth args)" for d args by (intro none wp) simp_all
  have ren: "at_most ?w 1 (osRename env p q)" for p q
    unfolding os_defs by (intro at_most_ask) simp
  have tmp: "at_most ?w 0 (osMkdirTemp env checkoutDir ''tmp-*'')" by (intro none wp) simp_all
  have move: "at_most ?w (Suc 0) (move_clone env tempDir finalDir)" for tempDir
    unfolding move_clone_def
    by (rule at_most_bind [OF ren, where k = 0]) (auto split: option.split intro!: none wp)
  have clone: "at_most ?w 1 (clone_into env mirrorDir tempDir finalDir sha auth)" for tempDir
    unfolding clone_into_def
    by (rule at_most_bind [OF git, where k = 1], rule at_most_cases(3) [OF at_most_bind [OF git, where k = 1]])
      (auto intro!: at_most_cases at_most_return move)
  show ?thesis
    unfolding fill_tree_def
    by (rule at_most_bind [OF tmp, where k = 1], rule at_most_cases(2) [OF _ at_most_bind [OF clone, where k = 0]])
      (auto split: prod.split intro!: at_most_return none wp)
qed

text \<open>After a call that takes the thing, one risky call is allowed, even if it drops it.\<close>

lemma while_held_once:
  assumes "takes t" "\<not> risky t" "list_all (\<lambda>c. \<not> drops c) mid"
    and "sum_list (List.map (\<lambda>c. of_bool (risky c)) mid) \<le> (1 :: nat)"
  shows "while_held takes (\<lambda>c. drops c \<or> risky c) risky (t # mid)"
  unfolding while_held_def
proof (intro allI impI)
  fix pre c post assume *: "t # mid = pre @ c # post" and "risky c"
  with assms(2) obtain us where us: "pre = t # us" "mid = us @ c # post" by (cases pre) auto
  with assms(3,4) \<open>risky c\<close> have "list_all (\<lambda>c. \<not> (drops c \<or> risky c)) us" by (auto simp: list_all_iff)
  with assms(1) us show "held takes (\<lambda>c. drops c \<or> risky c) pre"
    unfolding held_def by (intro exI [of _ "[]"] exI [of _ t] exI [of _ us]) simp
qed

text \<open>The part under the lock: if it moves anything to \<open>f\<close>, it first looks for \<open>f\<close>.\<close>

lemma populate_fills:
  assumes "run_state (populate env mirrorDir checkoutDir f sha auth) h = (r, h')"
  obtains new where "h' = h @ new" "list_all (\<lambda>c. \<not> lock_call c) new"
    "while_held (missed f) (\<lambda>c. takes_lock (f @ ''.lockfile'') c \<or> moves_to f c) (moves_to f) new"
proof -
  have "emits (\<lambda>c. \<not> lock_call c) (populate env mirrorDir checkoutDir f sha auth)"
    unfolding populate_def clone_into_def move_clone_def by (intro wp) simp_all
  from emitsE [OF this assms] obtain new where new: "h' = h @ new" "list_all (\<lambda>c. \<not> lock_call c) new" .
  let ?st = "os_Stat (env_os env) h f"
  let ?s = "CallOS (StatPath f ?st)"
  obtain k where k: "new = ?s # k" "sum_list (List.map (\<lambda>c. of_bool (moves_to f c)) k) \<le> (1 :: nat)"
    "?st = Inr True \<Longrightarrow> k = []"
  proof (cases "?st = Inr True")
    case True
    with assms new(1) that show thesis by (auto simp: populate_def os_defs)
  next
    case False
    with assms have "run_state (fill_tree env mirrorDir checkoutDir f sha auth) (h @ [?s]) = (r, h')"
      by (simp add: populate_fill os_defs)
    with fill_tree_moves [of f env mirrorDir checkoutDir f sha auth] obtain k where "h' = (h @ [?s]) @ k"
      "sum_list (List.map (\<lambda>c. of_bool (moves_to f c)) k) \<le> (1 :: nat)" unfolding at_most_def by (metis appendsE)
    with new(1) False show thesis by (intro that) simp_all
  qed
  have "list_all (\<lambda>c. \<not> takes_lock (f @ ''.lockfile'') c) k"
    using new(2) k(1) by (auto simp: list_all_iff dest: lock_calls(4))
  then have "while_held (missed f) (\<lambda>c. takes_lock (f @ ''.lockfile'') c \<or> moves_to f c) (moves_to f) new"
    using k by (cases "?st = Inr True") (simp_all add: while_held_none while_held_once)
  with new show thesis by (rule that)
qed

lemma withLock_fills:
  assumes "path = f @ ''.lockfile''"
  shows "appends (fills_safely f) (withLock fuel env path timeout (populate env mirrorDir checkoutDir f sha auth))"
proof (rule appendsI)
  fix h r h' assume "run_state (withLock fuel env path timeout (populate env mirrorDir checkoutDir f sha auth)) h = (r, h')"
  from withLock_run [OF this] obtain ws where ws: "lock_waits path ws"
    and *: "h' = h @ ws \<or> (\<exists>h1 h2 fr. h1 = h @ ws @ [CallOS (OpenLock path None), CallOS (FlockTry path None)]
                \<and> run_state (populate env mirrorDir checkoutDir f sha auth) h1 = (fr, h2)
                \<and> h' = h2 @ [CallOS (FlockUnlock path), CallOS (CloseLock path)])"
    unfolding lock_outcome_def by blast
  have wsafe: "fills_safely f ws"
    using ws by (intro fills_none) (auto simp: lock_waits_def list_all_iff dest: lock_wait_no_move)
  from * show "\<exists>new. h' = h @ new \<and> fills_safely f new"
  proof (elim disjE exE conjE)
    assume "h' = h @ ws" with wsafe show ?thesis by blast
  next
    fix h1 h2 fr
    assume h1: "h1 = h @ ws @ [CallOS (OpenLock path None), CallOS (FlockTry path None)]"
      and run: "run_state (populate env mirrorDir checkoutDir f sha auth) h1 = (fr, h2)"
      and h': "h' = h2 @ [CallOS (FlockUnlock path), CallOS (CloseLock path)]"
    let ?o = "CallOS (OpenLock path None)" and ?t = "CallOS (FlockTry path None)"
      and ?e = "[CallOS (FlockUnlock path), CallOS (CloseLock path)]"
    from run obtain k where k: "h2 = h1 @ k" "list_all (\<lambda>c. \<not> lock_call c) k"
      "while_held (missed f) (\<lambda>c. takes_lock (f @ ''.lockfile'') c \<or> moves_to f c) (moves_to f) k" by (rule populate_fills)
    from k(2) have "list_all (\<lambda>c. \<not> drops_lock path c) k" by (auto simp: list_all_iff dest: lock_calls(3))
    then have "fills_safely f (?t # k)"
      using k(3) assms while_held_append [OF while_held_none [of _ "[?t]"] k(3)]
      by (auto simp: fills_safely_def intro!: while_held_section)
    then have "fills_safely f ((ws @ [?o]) @ (?t # k) @ ?e)"
      using wsafe by (intro filling.T_append fills_none [of f ?e] fills_none [of f "[?o]"]) simp_all
    with h1 h' k(1) show ?thesis by (intro exI [of _ "ws @ [?o] @ (?t # k) @ ?e"]) simp
  qed
qed

interpretation not_moving: mirror_calls "\<lambda>c. \<not> moves_to f c" for f
  by unfold_locales simp_all

interpretation lock_not_moving: lock_file_calls "\<lambda>c. \<not> moves_to f c" for f
  by unfold_locales simp_all

lemma Checkout_fills: "appends (fills_safely f) (Checkout fuel env cacheDir repoURL revision creds)"
proof -
  have pop: "appends (fills_safely f) (withLock fuel env (d @ ''.lockfile'') t (populate env m c d sha auth))"
    for t m c d sha auth
  proof (cases "d = f")
    case True
    then show ?thesis using withLock_fills by blast
  next
    case False
    then have "emits (\<lambda>c. \<not> moves_to f c) (populate env m c d sha auth)"
      unfolding populate_def clone_into_def move_clone_def by (intro wp) simp_all
    then show ?thesis by (intro fills_emits lock_not_moving.emits_withLock)
  qed
  have os: "appends (fills_safely f) (osMkdirAll env p)" "appends (fills_safely f) (osStat env p)"
    "appends (fills_safely f) (resolveRevision env p rev' auth)" "appends (fills_safely f) (cleanup_auth env auth)"
    "appends (fills_safely f) (withLock fuel env path t (ensureMirror env m url auth))"
    for p rev' auth path t m url
    by (intro fills_emits lock_not_moving.emits_withLock not_moving.emits_ensureMirror not_moving.emits_resolveRevision
        not_moving.emits_cleanup_auth wp; simp)+
  have prep: "appends (fills_safely f) (prepareAuth env base repoURL creds)" for base
    unfolding prepareAuth_def prepare_ssh_def write_keys_def Let_def by (intro fills_emits wp) simp_all
  show ?thesis
    unfolding Checkout_def checkout_locked_def checkout_tree_def Let_def by (intro filling.appends_rules pop prep os)
qed

lemma held_since:
  assumes "held takes drops (xs @ y # ys)" and "drops y" and "\<not> takes y"
  shows "\<exists>t \<in> set ys. takes t"
proof (rule ccontr)
  assume none: "\<not> ?thesis"
  from assms(1) obtain u t v where s: "xs @ y # ys = u @ t # v" "takes t" "list_all (\<lambda>c. \<not> drops c) v"
    unfolding held_def by blast
  from s(1) none assms(2,3) s(2,3) show False
    by (auto simp: append_eq_append_conv2 append_eq_Cons_conv Cons_eq_append_conv)
qed

lemma calls_of_mem: "c \<in> set (calls_of w g) \<Longrightarrow> (w, c) \<in> set g"
  by (auto simp: calls_of_def)

text \<open>
  C21: The directory of a commit is filled at most once, however many checkouts of the commit run at the same
  time: in every interleaving of the calls of the checkouts, provided that the system grants the exclusive lock
  of the directory's lock file to one checkout at a time and that a directory which was moved to the place is
  found there from then on, once a checkout has moved its clone to the directory, no checkout, itself included,
  moves anything there again.
\<close>

theorem commit_filled_once:
  assumes excl: "one_at_a_time (takes_lock (f @ ''.lockfile'')) (drops_lock (f @ ''.lockfile'')) None
      (g1 @ (i, c) # g2 @ (j, d) # g3)"
    and runs: "\<And>w. w \<in> {i, j} \<Longrightarrow> snd (run_state (Checkout fuel (env w) cacheDir repoURL (revision w) (creds w)) (h w))
          = h w @ calls_of w (g1 @ (i, c) # g2 @ (j, d) # g3)"
    and stays: "\<And>w r. (w, CallOS (StatPath f r)) \<in> set g2 \<Longrightarrow> r = Inr True"
    and "filled f c"
  shows "\<not> moves_to f d"
proof
  assume d: "moves_to f d"
  have safe: "fills_safely f (calls_of w (g1 @ (i, c) # g2 @ (j, d) # g3))" if "w \<in> {i, j}" for w
    using Checkout_fills runs [OF that] unfolding appends_def by (metis prod.collapse same_append_eq)
  let ?no = "\<lambda>c. takes_lock (f @ ''.lockfile'') c \<or> moves_to f c"
  have held: "held (missed f) ?no (calls_of j (g1 @ (i, c) # g2))"
    using safe [of j] d unfolding fills_safely_def while_held_def by simp
  obtain xs y ys where cut: "calls_of j (g1 @ (i, c) # g2) = xs @ y # ys" "?no y" "\<not> missed f y"
    and later: "\<And>t. t \<in> set ys \<Longrightarrow> t \<in> set (calls_of j g2)"
  proof (cases "i = j")
    case True
    with filled_moves [OF assms(4)] that [of "calls_of j g1" c "calls_of j g2"] show thesis
      using assms(4) by (cases "(f, c)" rule: filled.cases) auto
  next
    case False
    have "while_held (takes_lock (f @ ''.lockfile'')) (drops_lock (f @ ''.lockfile'')) (moves_to f)
        (calls_of w (g1 @ (i, c) # g2 @ (j, d) # g3))" if "w \<in> {i, j}" for w
      using safe [OF that] by (simp add: fills_safely_def)
    from tree_lock.sections_apart [OF excl this filled_moves [OF assms(4)] d False]
    obtain a x b y e where g2: "g2 = a @ (i, x) # b @ (j, y) # e" and y: "takes_lock (f @ ''.lockfile'') y" by blast
    from y have nm: "\<not> missed f y" by (cases "(f, y)" rule: missed.cases) simp_all
    from g2 False have eq: "calls_of j (g1 @ (i, c) # g2) = calls_of j (g1 @ a @ b) @ y # calls_of j e" by simp
    from g2 have mem: "t \<in> set (calls_of j g2)" if "t \<in> set (calls_of j e)" for t using that by simp
    show thesis by (rule that [OF eq _ nm mem]) (use y in simp_all)
  qed
  from held cut(1) have "held (missed f) ?no (xs @ y # ys)" by simp
  from held_since [where drops = ?no, OF this cut(2,3)] obtain t where "t \<in> set (calls_of j g2)" "missed f t"
    using later by blast
  moreover obtain r where "t = CallOS (StatPath f r)" "r \<noteq> Inr True"
    using \<open>missed f t\<close> by (cases "(f, t)" rule: missed.cases) simp_all
  ultimately show False using stays calls_of_mem by metis
qed


text \<open>The first checkout of a commit in a world where its directory is missing until then.\<close>

definition s_missing :: "sobj env" where
  "s_missing = s_env\<lparr>env_os := s_os\<lparr>os_Stat := (\<lambda>h p. Inr (length h \<noteq> 16 \<and> length h \<noteq> 20))\<rparr>\<rparr>"

lemma s_missing_run:
  "run_state (osMkdirAll s_missing p) h = (None, h @ [CallOS (MkdirAll p None)])"
  "run_state (osStat s_missing p) h = (Inr (length h \<noteq> 16 \<and> length h \<noteq> 20),
     h @ [CallOS (StatPath p (Inr (length h \<noteq> 16 \<and> length h \<noteq> 20)))])"
  "run_state (osOpenLock s_missing p) h = (None, h @ [CallOS (OpenLock p None)])"
  "run_state (osFlockTry s_missing p) h = (None, h @ [CallOS (FlockTry p None)])"
  "run_state (osMkdirTemp s_missing d pat) h = (Inr (d @ ''/tmp-1''), h @ [CallOS (MkdirTemp d pat (Inr (d @ ''/tmp-1'')))])"
  "run_state (osRename s_missing p q) h = (None, h @ [CallOS (RenamePath p q None)])"
  "run_state (osRunGit s_missing bin d ex args) h
     = ((replicate 40 (CHR ''a''), None), h @ [CallOS (RunGit bin d ex args (replicate 40 (CHR ''a''), None))])"
  "run_state (Now s_missing) h = (7, h @ [CallNow 7])"
  by (simp_all add: os_defs Now_def s_missing_def s_env_def s_os_def)

definition s_first :: "string \<Rightarrow> string \<Rightarrow> string \<Rightarrow> sobj call list" where
  "s_first m d f = s_before m d @ s_fetch m # [CallOS (FlockUnlock (m @ ''.lockfile'')), CallOS (CloseLock (m @ ''.lockfile''))]
     @ s_git m None [''rev-parse'', ''--verify'', replicate 40 (CHR ''a'') @ ''^{commit}'']
     @ [CallOS (StatPath f (Inr False)), CallNow 7, CallOS (OpenLock (f @ ''.lockfile'') None),
        CallOS (FlockTry (f @ ''.lockfile'') None), CallOS (StatPath f (Inr False)),
        CallOS (MkdirTemp d ''tmp-*'' (Inr (d @ ''/tmp-1'')))]
     @ s_git m None [''clone'', ''--no-checkout'', m, d @ ''/tmp-1'']
     @ s_git (d @ ''/tmp-1'') None [''checkout'', ''--force'', ''--detach'', replicate 40 (CHR ''a'')]"

definition s_rename :: "string \<Rightarrow> string \<Rightarrow> sobj call" where
  "s_rename d f = CallOS (RenamePath (d @ ''/tmp-1'') f None)"

definition s_unlock :: "string \<Rightarrow> sobj call list" where
  "s_unlock f = [CallOS (FlockUnlock (f @ ''.lockfile'')), CallOS (CloseLock (f @ ''.lockfile''))]"

lemma s_sha_lower: "ToLower (replicate 40 (CHR ''a'')) = replicate 40 (CHR ''a'')"
  by code_simp

lemma s_missing_calls:
  defines "m \<equiv> mirror_dir s_env ''/cache'' ''git/repo''" and "d \<equiv> checkouts_dir s_env ''/cache'' ''git/repo''"
  shows "snd (run_state (Checkout 1 s_missing ''/cache'' ''git/repo'' (replicate 40 (CHR ''a'')) None) [])
    = s_first m d (PathJoin [d, replicate 40 (CHR ''a'')]) @ s_rename d (PathJoin [d, replicate 40 (CHR ''a'')])
      # s_unlock (PathJoin [d, replicate 40 (CHR ''a'')])"
proof -
  have prep: "prepareAuth s_missing base ''git/repo'' None = State_Monad.return (Inr None)" for base
    by (simp add: prepareAuth_def authHeader_def git_isSSHRepositoryURL_def sshSCPStyle_def HasPrefix_def)
  show ?thesis
    by (simp add: Checkout_def checkout_locked_def checkout_tree_def withLock_def Let_def cleanup_auth_def
        ensureMirror_def ensureMirrorAttempt_def mirror_body_def auth_env_def auth_args_def
        mirror_remote_def mirror_fetch_def gitBinaryPath_def runGit_def runGitOutput_def runGitCommand_def
        resolveRevision_def s_missing_run prep s_sha_lower populate_def clone_into_def move_clone_def
        m_def d_def mirror_dir_def checkouts_dir_def cacheRoot_def s_first_def s_before_def s_fetch_def s_git_def
        s_rename_def s_unlock_def del: replicate.simps)
qed

theorem commit_filled_once_witness:
  "\<exists>d f :: string. filled f (s_rename d f) \<and> \<not> moves_to f (CallOS (StatPath f (Inr True)) :: sobj call)"
proof -
  let ?m = "mirror_dir s_env ''/cache'' ''git/repo''" and ?d = "checkouts_dir s_env ''/cache'' ''git/repo''"
  let ?sha = "replicate 40 (CHR ''a'')"
  let ?f = "PathJoin [?d, ?sha]"
  let ?mid = "[CallOS (FlockUnlock (?m @ ''.lockfile'')), CallOS (CloseLock (?m @ ''.lockfile''))]
     @ s_git ?m None [''ls-remote'', ''--refs'', ''origin'', ''main'']"
  let ?g1 = "List.map (Pair (0 :: nat)) (s_first ?m ?d ?f)"
  let ?g2 = "List.map (Pair 0) (s_unlock ?f) @ List.map (Pair 1) (s_before ?m ?d @ s_fetch ?m # ?mid)"
  have "\<not> moves_to ?f (CallOS (StatPath ?f (Inr True)) :: sobj call)"
  proof (rule commit_filled_once [where i = 0 and j = 1 and ?g1.0 = ?g1 and ?g2.0 = ?g2 and ?g3.0 = "[]"
        and c = "s_rename ?d ?f" and fuel = 1 and env = "\<lambda>w. if w = 0 then s_missing else s_env"
        and cacheDir = "''/cache''" and repoURL = "''git/repo''" and creds = "\<lambda>_. None" and h = "\<lambda>_. []"
        and revision = "\<lambda>w. if w = 0 then ?sha else ''main''"])
    show "one_at_a_time (takes_lock (?f @ ''.lockfile'')) (drops_lock (?f @ ''.lockfile'')) None
        (?g1 @ (0, s_rename ?d ?f) # ?g2 @ [(1, CallOS (StatPath ?f (Inr True)))])"
      by (cases "?m = ?f") (simp_all add: s_first_def s_before_def s_fetch_def s_git_def s_unlock_def s_rename_def
          next_holder_def del: replicate.simps)
    show "snd (run_state (Checkout 1 (if w = 0 then s_missing else s_env) ''/cache'' ''git/repo''
        (if w = 0 then ?sha else ''main'') None) []) = [] @ calls_of w (?g1 @ (0, s_rename ?d ?f) # ?g2
          @ [(1, CallOS (StatPath ?f (Inr True)))])" if "w \<in> {0, 1}" for w :: nat
      using that s_missing_calls s_checkout_calls [of _ _ "''/cache''" "[]"]
      by (auto simp: s_after_def simp del: replicate.simps)
    show "r = Inr True" if "(w, CallOS (StatPath ?f r)) \<in> set ?g2" for w r
      using that by (auto simp: s_unlock_def s_before_def s_fetch_def s_git_def simp del: replicate.simps)
    show "filled ?f (s_rename ?d ?f)" by (simp add: s_rename_def)
  qed
  moreover have "filled ?f (s_rename ?d ?f)" by (simp add: s_rename_def)
  ultimately show ?thesis by blast
qed

end
