(* ===== verification/Servers.thy ===== *)
theory Servers
  imports Operator
begin

section \<open>The two HTTP servers of cmd/main.go\<close>

text \<open>
  \<open>newMetricsServer\<close> and \<open>newProbeServer\<close> as tables of routes, with what a request to a path is answered, and
  the life of a server after \<open>Start\<close>: its two goroutines wait for the context to shut it down, and for
  \<open>ListenAndServe\<close> to return. The handler of the metrics endpoint is Prometheus's, its answer a parameter.
\<close>

subsection \<open>Routes\<close>

datatype http_handler = PromHandler | HealthzHandler | ReadyzHandler

record http_server =
  srv_addr :: string
  srv_routes :: "(string \<times> http_handler) list"

definition newMetricsServer :: "string \<Rightarrow> http_server" where
  "newMetricsServer addr = \<lparr>srv_addr = addr, srv_routes = [(''/metrics'', PromHandler)]\<rparr>"

definition newProbeServer :: "string \<Rightarrow> http_server" where
  "newProbeServer addr =
     \<lparr>srv_addr = addr, srv_routes = [(''/healthz'', HealthzHandler), (''/readyz'', ReadyzHandler)]\<rparr>"

text \<open>The probe handlers: status code and body; \<open>http.Error\<close> ends its text with a line break.\<close>

definition healthz :: "nat \<times> string" where
  "healthz = (200, ''ok'')"

definition readyz :: "bool \<Rightarrow> nat \<times> string" where
  "readyz rdy = (if \<not> rdy then (503, ''not ready'' @ [CHR 0x0A]) else (200, ''ok''))"

text \<open>A request to a path, which \<open>ServeMux\<close> answers by the handler registered for exactly this path, or with 404.\<close>

definition serve :: "nat \<times> string \<Rightarrow> bool \<Rightarrow> http_server \<Rightarrow> string \<Rightarrow> nat \<times> string" where
  "serve metricsAnswer rdy srv path =
     (case map_of (srv_routes srv) path of
        None \<Rightarrow> (404, ''404 page not found'' @ [CHR 0x0A])
      | Some PromHandler \<Rightarrow> metricsAnswer
      | Some HealthzHandler \<Rightarrow> healthz
      | Some ReadyzHandler \<Rightarrow> readyz rdy)"

lemma probe_answers [simp]:
  "serve m rdy (newProbeServer addr) ''/healthz'' = (200, ''ok'')"
  "serve m rdy (newProbeServer addr) ''/readyz'' = readyz rdy"
  by (simp_all add: serve_def newProbeServer_def healthz_def)


subsection \<open>The life of a server\<close>

datatype server_pc =
    NotStarted
  | Listening \<comment> \<open>in \<open>ListenAndServe\<close>\<close>
  | Stopped \<comment> \<open>shut down; \<open>ListenAndServe\<close> has returned \<open>ErrServerClosed\<close>\<close>
  | Failed \<comment> \<open>\<open>ListenAndServe\<close> has returned another error\<close>

text \<open>\<open>Start\<close> starts the goroutines and returns no error, whatever becomes of the server.\<close>

definition server_Start :: "gerror option \<times> server_pc" where
  "server_Start = (None, Listening)"

text \<open>
  The steps of the goroutines, given whether the context is done; the last argument says whether the process
  sends itself SIGTERM.
\<close>

inductive server_step :: "bool \<Rightarrow> server_pc \<Rightarrow> server_pc \<Rightarrow> bool \<Rightarrow> bool" for ctxDone where
  shutdown: "ctxDone \<Longrightarrow> server_step ctxDone Listening Stopped False"
| exited: "server_step ctxDone Listening Failed True"

inductive_simps server_step_simps [simp]: "server_step ctxDone s t kill"

end
