(* ===== verification/Process.thy ===== *)
theory Process
  imports Servers
begin

section \<open>The life of the process: main, run and leader election of cmd/main.go\<close>

text \<open>
  \<open>operatorRunner.run\<close>, its informer, its shutdown watcher and its worker goroutines as a step relation over
  one state; and around it \<open>main\<close>: it parses the flags, installs the signal handler, starts the two servers,
  builds the runner, and then calls \<open>run\<close> itself or leaves that to client-go's leader election. Of a worker the
  state keeps where it is in the loop of \<open>runWorker\<close> (\<open>Worker_Moves\<close> shows that the loop moves like this). All
  steps interleave freely. Two things are left to the libraries: that a reconcile which has begun comes to
  its end, and how many keys the queue still hands out. The claims are in \<open>Process_Props\<close>.
\<close>

subsection \<open>The workers\<close>

datatype worker_pc =
    Asking \<comment> \<open>in \<open>queue.Get\<close>\<close>
  | Reconciling \<comment> \<open>between \<open>queue.Get\<close> and the return of \<open>queue.Done\<close>\<close>
  | Checking \<comment> \<open>before \<open>ctx.Err\<close> at the end of the round\<close>
  | Ended

text \<open>
  One move of the loop, given whether the queue is shut down and whether the context is done. A queue that is shut
  down still hands out the keys that are in it, and says that it is down when there are none left.
\<close>

inductive worker_move :: "bool \<Rightarrow> bool \<Rightarrow> worker_pc \<Rightarrow> worker_pc \<Rightarrow> bool" for queueDown ctxDone where
  handed: "worker_move queueDown ctxDone Asking Reconciling"
| shut: "queueDown \<Longrightarrow> worker_move queueDown ctxDone Asking Ended"
| handled: "worker_move queueDown ctxDone Reconciling Checking"
| stopped: "ctxDone \<Longrightarrow> worker_move queueDown ctxDone Checking Ended"
| again: "\<not> ctxDone \<Longrightarrow> worker_move queueDown ctxDone Checking Asking"

inductive_simps worker_move_simps [simp]:
  "worker_move queueDown ctxDone Asking w" "worker_move queueDown ctxDone Reconciling w"
  "worker_move queueDown ctxDone Checking w" "worker_move queueDown ctxDone Ended w"


subsection \<open>The runner\<close>

datatype runner_pc =
    Starting
  | Syncing \<comment> \<open>in \<open>WaitForCacheSync\<close>\<close>
  | Synced
  | Spawning
  | Serving \<comment> \<open>at \<open>ctx.Done\<close>\<close>
  | Draining \<comment> \<open>in \<open>workers.Wait\<close>\<close>
  | Closing gerror \<comment> \<open>before the deferred shutdown of the queue\<close>
  | Closed gerror \<comment> \<open>before the deferred reset of the readiness\<close>
  | Returned gerror

record runner =
  pc :: runner_pc
  ready :: bool
  ctx_done :: bool
  has_synced :: bool
  watching :: bool \<comment> \<open>the goroutine that shuts the queue down exists\<close>
  queue_down :: bool
  crew :: "worker_pc list"

text \<open>The workers that have not ended.\<close>

definition workers :: "runner \<Rightarrow> nat" where
  "workers s = length (filter (\<lambda>w. w \<noteq> Ended) (crew s))"

inductive runner_step :: "nat \<Rightarrow> runner \<Rightarrow> runner \<Rightarrow> bool" for n where
  start: "pc s = Starting \<Longrightarrow> runner_step n s (s\<lparr>ready := False, pc := Syncing\<rparr>)"
| informer: "pc s \<noteq> Starting \<Longrightarrow> runner_step n s (s\<lparr>has_synced := True\<rparr>)"
| wait_synced: "pc s = Syncing \<Longrightarrow> has_synced s \<Longrightarrow> runner_step n s (s\<lparr>pc := Synced\<rparr>)"
| wait_stopped: "pc s = Syncing \<Longrightarrow> ctx_done s \<Longrightarrow> runner_step n s (s\<lparr>pc := Closing ContextCanceled\<rparr>)"
| set_ready: "pc s = Synced \<Longrightarrow> runner_step n s (s\<lparr>ready := True, pc := Spawning\<rparr>)"
| spawn: "pc s = Spawning \<Longrightarrow> runner_step n s (s\<lparr>watching := True, crew := replicate n Asking, pc := Serving\<rparr>)"
| watcher: "watching s \<Longrightarrow> ctx_done s \<Longrightarrow> runner_step n s (s\<lparr>queue_down := True\<rparr>)"
| worker: "i < length (crew s) \<Longrightarrow> worker_move (queue_down s) (ctx_done s) (crew s ! i) w \<Longrightarrow>
    runner_step n s (s\<lparr>crew := (crew s)[i := w]\<rparr>)"
| stop: "pc s = Serving \<Longrightarrow> ctx_done s \<Longrightarrow> runner_step n s (s\<lparr>pc := Draining\<rparr>)"
| drained: "pc s = Draining \<Longrightarrow> workers s = 0 \<Longrightarrow> runner_step n s (s\<lparr>pc := Closing ContextCanceled\<rparr>)"
| shut_queue: "pc s = Closing e \<Longrightarrow> runner_step n s (s\<lparr>queue_down := True, pc := Closed e\<rparr>)"
| unready: "pc s = Closed e \<Longrightarrow> runner_step n s (s\<lparr>ready := False, pc := Returned e\<rparr>)"

inductive_cases runner_stepE: "runner_step n s t"

definition runner_start :: runner where
  "runner_start = \<lparr>pc = Starting, ready = False, ctx_done = False, has_synced = False,
     watching = False, queue_down = False, crew = []\<rparr>"


text \<open>What holds of the runner in every state: where it can be ready, when workers exist, what has been shut down.\<close>

definition runner_inv :: "runner \<Rightarrow> bool" where
  "runner_inv s \<longleftrightarrow>
     (ready s \<longrightarrow> has_synced s \<and> pc s \<notin> {Starting, Syncing, Synced} \<and> (\<forall>e. pc s \<noteq> Returned e))
   \<and> (0 < workers s \<longrightarrow> has_synced s \<and> pc s \<in> {Serving, Draining})
   \<and> (pc s \<in> {Serving, Draining} \<longrightarrow> watching s)
   \<and> (pc s \<in> {Synced, Spawning, Serving, Draining} \<longrightarrow> has_synced s)
   \<and> (pc s \<in> {Spawning, Serving, Draining} \<longrightarrow> ready s)
   \<and> (\<forall>e. pc s \<in> {Draining, Closing e, Closed e, Returned e} \<longrightarrow> ctx_done s)
   \<and> (\<forall>e. pc s \<in> {Closed e, Returned e} \<longrightarrow> queue_down s)
   \<and> (\<forall>e. pc s \<in> {Closing e, Closed e, Returned e} \<longrightarrow> e = ContextCanceled)"

lemma workers_frame [simp]:
  "workers (s\<lparr>pc := p\<rparr>) = workers s" "workers (s\<lparr>ready := b\<rparr>) = workers s" "workers (s\<lparr>ctx_done := b\<rparr>) = workers s"
  "workers (s\<lparr>has_synced := b\<rparr>) = workers s" "workers (s\<lparr>watching := b\<rparr>) = workers s"
  "workers (s\<lparr>queue_down := b\<rparr>) = workers s"
  by (simp_all add: workers_def)

lemma workers_0: "workers s = 0 \<longleftrightarrow> (\<forall>w \<in> set (crew s). w = Ended)"
  by (auto simp: workers_def filter_empty_conv)

lemma workers_move:
  assumes "i < length (crew s)" and "worker_move q c (crew s ! i) w"
  shows "0 < workers s"
proof -
  have "crew s ! i \<noteq> Ended" using assms(2) by auto
  with assms(1) have "\<not> (\<forall>w \<in> set (crew s). w = Ended)" by auto
  then show ?thesis using workers_0 [of s] by (metis gr0I)
qed

lemma runner_inv_start: "runner_inv runner_start"
  by (simp add: runner_inv_def runner_start_def workers_def)

lemma runner_inv_cancel: "runner_inv s \<Longrightarrow> runner_inv (s\<lparr>ctx_done := True\<rparr>)"
  by (simp add: runner_inv_def)

lemma runner_inv_step:
  assumes "runner_step n s t" and "runner_inv s"
  shows "runner_inv t"
  using assms(1)
proof cases
  case (worker i w)
  with assms(2) workers_move [OF worker(2,3)] show ?thesis by (auto simp: runner_inv_def)
qed (use assms(2) in \<open>auto simp: runner_inv_def\<close>)

lemma runner_keeps_done: "runner_step n s t \<Longrightarrow> ctx_done t = ctx_done s"
  by (erule runner_stepE) auto


subsection \<open>main\<close>

text \<open>
  What the libraries answer while \<open>main\<close> starts: \<open>flag.Parse\<close>, which ends the process with status 0 when
  help was asked for and with status 2 for a wrong flag; \<open>GetConfigOrDie\<close>, which exits with status 1
  when it fails; the constructors of the clients in \<open>newOperatorRunner\<close>; and the lock of the leader election
  (\<open>leader_lock\<close>).
\<close>

datatype flags_outcome = FlagsParsed | HelpRequested | FlagsInvalid

record startup =
  su_flags :: flags_outcome
  su_config :: "gerror option"
  su_clients :: client_errors
  su_lock :: "gerror option"

definition flags_exit :: "flags_outcome \<Rightarrow> nat option" where
  "flags_exit fo = (case fo of FlagsParsed \<Rightarrow> None | HelpRequested \<Rightarrow> Some 0 | FlagsInvalid \<Rightarrow> Some 2)"

datatype main_pc =
    Parsing \<comment> \<open>before the signal handler is installed\<close>
  | Configuring
  | StartingMetrics
  | StartingProbes
  | Initializing
  | Locking
  | Electing \<comment> \<open>in the \<open>select\<close> of \<open>runWithLeaderElection\<close>\<close>
  | Running \<comment> \<open>in \<open>runner.run\<close>\<close>
  | Exited nat
  | Killed \<comment> \<open>by a signal before its handler was installed\<close>

definition gone :: "main_pc \<Rightarrow> bool" where
  "gone m \<longleftrightarrow> m = Killed \<or> (\<exists>c. m = Exited c)"

lemma gone_simps [simp]:
  "gone Killed" "gone (Exited c)" "\<not> gone Parsing" "\<not> gone Configuring" "\<not> gone StartingMetrics" "\<not> gone StartingProbes"
  "\<not> gone Initializing" "\<not> gone Locking" "\<not> gone Electing" "\<not> gone Running"
  by (simp_all add: gone_def)

text \<open>
  \<open>pending\<close> counts SIGTERM and SIGINT that are on their way, \<open>signals\<close> those that have arrived. \<open>leading\<close>: the
  election has started the goroutine that runs the runner; \<open>lost\<close>: it has reported the loss of the lease.
\<close>

record process =
  main_at :: main_pc
  metrics :: server_pc
  probes :: server_pc
  pending :: nat
  signals :: nat
  leading :: bool
  lost :: bool
  runner_of :: runner

definition exit_on :: "gerror option \<Rightarrow> main_pc \<Rightarrow> main_pc" where
  "exit_on err continue = (case err of Some e \<Rightarrow> Exited 1 | None \<Rightarrow> continue)"

inductive main_step :: "bool \<Rightarrow> startup \<Rightarrow> process \<Rightarrow> process \<Rightarrow> bool" for leaderElect su where
  parsed: "main_at p = Parsing \<Longrightarrow>
    main_step leaderElect su p (p\<lparr>main_at := (case flags_exit (su_flags su) of Some c \<Rightarrow> Exited c | None \<Rightarrow> Configuring)\<rparr>)"
| configured: "main_at p = Configuring \<Longrightarrow>
    main_step leaderElect su p (p\<lparr>main_at := exit_on (su_config su) StartingMetrics\<rparr>)"
| metrics_started: "main_at p = StartingMetrics \<Longrightarrow>
    main_step leaderElect su p (p\<lparr>metrics := snd server_Start, main_at := exit_on (fst server_Start) StartingProbes\<rparr>)"
| probes_started: "main_at p = StartingProbes \<Longrightarrow>
    main_step leaderElect su p (p\<lparr>probes := snd server_Start, main_at := exit_on (fst server_Start) Initializing\<rparr>)"
| initialized: "main_at p = Initializing \<Longrightarrow>
    main_step leaderElect su p (p\<lparr>main_at := (case make_clients (su_clients su) of
        Panics err \<Rightarrow> Exited 2
      | Returns (Inl err) \<Rightarrow> Exited 1
      | Returns (Inr _) \<Rightarrow> if leaderElect then Locking else Running)\<rparr>)"
| run_returned: "main_at p = Running \<Longrightarrow> pc (runner_of p) = Returned e \<Longrightarrow>
    main_step leaderElect su p (p\<lparr>main_at := Exited (main_exit (Some e))\<rparr>)"

text \<open>
  \<open>runWithLeaderElection\<close>, and client-go's election as it sees it: the process is elected unless a signal has
  arrived, and may lose its lease at any time, which cancels the runner's context. The loss is reported only while
  no signal has arrived. The \<open>select\<close> returns to \<open>main\<close>, which exits, on a signal or on an error.
\<close>

inductive election_step :: "startup \<Rightarrow> process \<Rightarrow> process \<Rightarrow> bool" for su where
  locked: "main_at p = Locking \<Longrightarrow>
    election_step su p (p\<lparr>main_at := (case su_lock su of Some e \<Rightarrow> Exited (main_exit (Some e)) | None \<Rightarrow> Electing)\<rparr>)"
| elected: "main_at p = Electing \<Longrightarrow> signals p = 0 \<Longrightarrow> election_step su p (p\<lparr>leading := True\<rparr>)"
| lease_lost: "main_at p = Electing \<Longrightarrow> leading p \<Longrightarrow>
    election_step su p (p\<lparr>lost := lost p \<or> signals p = 0, runner_of := (runner_of p)\<lparr>ctx_done := True\<rparr>\<rparr>)"
| run_failed: "main_at p = Electing \<Longrightarrow> leading p \<Longrightarrow> pc (runner_of p) = Returned e \<Longrightarrow> \<not> is_canceled e \<Longrightarrow>
    election_step su p (p\<lparr>main_at := Exited (main_exit (Some e))\<rparr>)"
| reported_lost: "main_at p = Electing \<Longrightarrow> lost p \<Longrightarrow>
    election_step su p (p\<lparr>main_at := Exited (main_exit (Some (Errorf ''leader election lost'')))\<rparr>)"
| signalled: "main_at p = Electing \<Longrightarrow> 0 < signals p \<Longrightarrow>
    election_step su p (p\<lparr>main_at := Exited (main_exit (Some ContextCanceled))\<rparr>)"


subsection \<open>The process\<close>

text \<open>
  A signal ends the process while no handler is installed. The handler of \<open>SetupSignalHandler\<close>: the first signal
  cancels the context, the second ends the process with status 1.
\<close>

definition deliver :: "process \<Rightarrow> process" where
  "deliver p =
     (if main_at p = Parsing then p\<lparr>main_at := Killed\<rparr>
      else if signals p = 0 then p\<lparr>signals := 1, runner_of := (runner_of p)\<lparr>ctx_done := True\<rparr>\<rparr>
      else p\<lparr>signals := Suc (signals p), main_at := Exited 1\<rparr>)"

text \<open>The steps of the process itself; one that sends itself a signal adds it to the pending ones.\<close>

inductive own_step :: "bool \<Rightarrow> nat \<Rightarrow> startup \<Rightarrow> process \<Rightarrow> process \<Rightarrow> bool" for leaderElect n su where
  main: "\<not> gone (main_at p) \<Longrightarrow> main_step leaderElect su p q \<Longrightarrow> own_step leaderElect n su p q"
| election: "\<not> gone (main_at p) \<Longrightarrow> election_step su p q \<Longrightarrow> own_step leaderElect n su p q"
| run: "main_at p = Running \<or> main_at p = Electing \<and> leading p \<Longrightarrow> runner_step n (runner_of p) r \<Longrightarrow>
    own_step leaderElect n su p (p\<lparr>runner_of := r\<rparr>)"
| metrics_server: "\<not> gone (main_at p) \<Longrightarrow> server_step (0 < signals p) (metrics p) s kill \<Longrightarrow>
    own_step leaderElect n su p (p\<lparr>metrics := s, pending := pending p + of_bool kill\<rparr>)"
| probe_server: "\<not> gone (main_at p) \<Longrightarrow> server_step (0 < signals p) (probes p) s kill \<Longrightarrow>
    own_step leaderElect n su p (p\<lparr>probes := s, pending := pending p + of_bool kill\<rparr>)"
| delivered: "\<not> gone (main_at p) \<Longrightarrow> pending p = Suc k \<Longrightarrow>
    own_step leaderElect n su p (deliver (p\<lparr>pending := k\<rparr>))"

inductive process_step :: "bool \<Rightarrow> nat \<Rightarrow> startup \<Rightarrow> process \<Rightarrow> process \<Rightarrow> bool" for leaderElect n su where
  own: "own_step leaderElect n su p q \<Longrightarrow> process_step leaderElect n su p q"
| outside_signal: "\<not> gone (main_at p) \<Longrightarrow>
    process_step leaderElect n su p (p\<lparr>pending := Suc (pending p)\<rparr>)"

definition process_start :: process where
  "process_start = \<lparr>main_at = Parsing, metrics = NotStarted, probes = NotStarted, pending = 0, signals = 0,
     leading = False, lost = False, runner_of = runner_start\<rparr>"

abbreviation reachable :: "bool \<Rightarrow> nat \<Rightarrow> startup \<Rightarrow> process \<Rightarrow> bool" where
  "reachable leaderElect n su p \<equiv> (process_step leaderElect n su)\<^sup>*\<^sup>* process_start p"


subsection \<open>The invariant\<close>

text \<open>
  What the states of the process have in common: the runner's invariant, what signals have done, that a failed
  server has raised one, and why the process has ended.
\<close>

definition ended_well :: "bool \<Rightarrow> startup \<Rightarrow> process \<Rightarrow> nat \<Rightarrow> bool" where
  "ended_well leaderElect su p c \<longleftrightarrow>
     flags_exit (su_flags su) = Some c
   \<or> c = 1 \<and> (su_config su \<noteq> None \<or> (\<exists>err. make_clients (su_clients su) = Returns (Inl err)) \<or> 2 \<le> signals p)
   \<or> c = 2 \<and> (\<exists>err. make_clients (su_clients su) = Panics err)
   \<or> \<not> leaderElect \<and> (\<exists>e. pc (runner_of p) = Returned e \<and> c = main_exit (Some e))
   \<or> leaderElect \<and> (lost p \<or> 0 < signals p \<and> c = 0 \<or> (\<exists>e. su_lock su = Some e \<and> c = main_exit (Some e)))"

definition process_inv :: "bool \<Rightarrow> startup \<Rightarrow> process \<Rightarrow> bool" where
  "process_inv leaderElect su p \<longleftrightarrow>
     runner_inv (runner_of p)
   \<and> (0 < signals p \<longrightarrow> ctx_done (runner_of p))
   \<and> (ctx_done (runner_of p) \<longrightarrow> 0 < signals p \<or> lost p)
   \<and> (lost p \<longrightarrow> leaderElect \<and> (main_at p = Electing \<or> gone (main_at p)))
   \<and> (main_at p = Parsing \<longrightarrow> signals p = 0 \<and> metrics p = NotStarted \<and> probes p = NotStarted)
   \<and> (main_at p \<noteq> Killed \<longrightarrow> metrics p = Failed \<or> probes p = Failed \<longrightarrow> 0 < pending p + signals p)
   \<and> (main_at p = Running \<longrightarrow> \<not> leaderElect) \<and> (main_at p = Locking \<or> main_at p = Electing \<longrightarrow> leaderElect)
   \<and> (\<forall>c. main_at p = Exited c \<longrightarrow> ended_well leaderElect su p c)"

lemma main_step_inv:
  assumes "main_step le su p q" and "process_inv le su p"
  shows "process_inv le su q"
  using assms(1)
proof cases
  case parsed
  with assms(2) show ?thesis by (cases "flags_exit (su_flags su)") (auto simp: process_inv_def ended_well_def)
next
  case configured
  with assms(2) show ?thesis by (cases "su_config su") (auto simp: process_inv_def ended_well_def exit_on_def)
next
  case initialized
  show ?thesis
  proof (cases "make_clients (su_clients su)")
    case (Panics err)
    with initialized assms(2) show ?thesis by (auto simp: process_inv_def ended_well_def)
  next
    case (Returns r)
    with initialized assms(2) show ?thesis by (cases r) (auto simp: process_inv_def ended_well_def)
  qed
next
  case (run_returned e)
  with assms(2) show ?thesis by (auto simp: process_inv_def ended_well_def)
qed (use assms(2) in \<open>auto simp: process_inv_def exit_on_def server_Start_def\<close>)

lemma runner_error: "runner_inv s \<Longrightarrow> pc s = Returned e \<Longrightarrow> e = ContextCanceled"
  by (auto simp: runner_inv_def)

lemma main_exit_canceled [simp]: "main_exit (Some ContextCanceled) = 0"
  by (simp add: main_exit_def is_canceled_def)

lemma election_step_inv:
  assumes "election_step su p q" and "process_inv le su p"
  shows "process_inv le su q"
  using assms(1)
proof cases
  case locked
  with assms(2) show ?thesis by (cases "su_lock su") (auto simp: process_inv_def ended_well_def)
next
  case lease_lost
  with assms(2) show ?thesis by (auto simp: process_inv_def runner_inv_cancel)
next
  case (run_failed e)
  from assms(2) have "runner_inv (runner_of p)" by (simp add: process_inv_def)
  from runner_error [OF this run_failed(4)] run_failed(5) show ?thesis by (simp add: is_canceled_def)
qed (use assms(2) in \<open>auto simp: process_inv_def ended_well_def\<close>)

lemma process_inv_runner:
  "process_inv le su p \<Longrightarrow> \<not> gone (main_at p) \<Longrightarrow> runner_inv r \<Longrightarrow> ctx_done r = ctx_done (runner_of p)
    \<Longrightarrow> process_inv le su (p\<lparr>runner_of := r\<rparr>)"
  by (auto simp: process_inv_def)

lemma own_step_inv:
  assumes "own_step le n su p q" and "process_inv le su p"
  shows "process_inv le su q"
  using assms(1)
proof cases
  case (run r)
  from assms(2) have "runner_inv (runner_of p)" by (simp add: process_inv_def)
  with run(3) have "runner_inv r" "ctx_done r = ctx_done (runner_of p)"
    by (auto intro: runner_inv_step dest: runner_keeps_done)
  with run(1,2) show ?thesis using process_inv_runner [OF assms(2), of r] by auto
next
  case (delivered k)
  with assms(2) show ?thesis
    by (auto simp: process_inv_def deliver_def ended_well_def intro: runner_inv_cancel)
next
  case main
  with assms(2) show ?thesis by (blast intro: main_step_inv)
next
  case election
  with assms(2) show ?thesis by (blast intro: election_step_inv)
next
  case (metrics_server s kill)
  with assms(2) show ?thesis by (auto simp: process_inv_def ended_well_def)
next
  case (probe_server s kill)
  with assms(2) show ?thesis by (auto simp: process_inv_def ended_well_def)
qed

lemma process_invariant: "reachable le n su p \<Longrightarrow> process_inv le su p"
proof (induction rule: rtranclp_induct)
  case base
  then show ?case by (simp add: process_inv_def process_start_def runner_inv_start) (simp add: runner_start_def)
next
  case (step p q)
  from step.hyps(2) show ?case
  proof cases
    case own
    with step.IH show ?thesis by (rule own_step_inv [rotated])
  next
    case outside_signal
    with step.IH show ?thesis by (auto simp: process_inv_def)
  qed
qed

lemmas runner_facts = process_invariant [unfolded process_inv_def, THEN conjunct1, unfolded runner_inv_def]

end
