(* ===== verification/Worker_Moves.thy ===== *)
theory Worker_Moves
  imports Worker_Props Process
begin

section \<open>The worker of the code and the worker of the process\<close>

text \<open>
  \<open>Operator\<close> has the loop of \<open>runWorker\<close> as a program over the history of calls, \<open>Process\<close> keeps of each worker
  where it is in that loop. Here the two meet: read call by call, the history of the program is a run of the moves.
\<close>

text \<open>
  The calls of a worker, cut where it moves. Between \<open>Get\<close> and \<open>Done\<close> it may call whatever it likes, except the
  two; what decides a move is what the call answered.
\<close>

definition between :: "'o call \<Rightarrow> bool" where
  "between c \<longleftrightarrow> (\<nexists>r. c = CallQueue (QGet r)) \<and> (\<nexists>key. c = CallQueue (QDone key))"

inductive worker_run :: "worker_pc \<Rightarrow> 'o call list \<Rightarrow> worker_pc \<Rightarrow> bool" where
  here: "worker_run w [] w"
| asks: "worker_move shutdown ctxDone Asking w \<Longrightarrow> (w = Ended \<longleftrightarrow> shutdown) \<Longrightarrow> worker_run w cs v \<Longrightarrow>
    worker_run Asking (CallQueue (QGet (key, shutdown)) # cs) v"
| works: "worker_move queueDown ctxDone Reconciling w \<Longrightarrow> list_all between mid \<Longrightarrow> worker_run w cs v \<Longrightarrow>
    worker_run Reconciling (mid @ CallQueue (QDone key) # cs) v"
| checks: "worker_move queueDown (err \<noteq> None) Checking w \<Longrightarrow> worker_run w cs v \<Longrightarrow>
    worker_run Checking (CallCtxErr err # cs) v"

text \<open>What a worker that has ended does.\<close>

inductive_cases ended_runE: "worker_run Ended cs v"

lemma ended_calls_nothing: "worker_run Ended cs v \<Longrightarrow> cs = [] \<and> v = Ended"
  by (erule ended_runE) simp_all

lemma queue_log_mem: "CallQueue q \<in> set cs \<Longrightarrow> q \<in> set (queue_log cs)"
  by (induction cs rule: queue_log.induct) auto

lemma verdict_between:
  assumes "verdict key (queue_log mid)"
  shows "list_all between mid"
proof -
  from assms have "QGet r \<notin> set (queue_log mid)" "QDone k \<notin> set (queue_log mid)" for r k
    by (cases, auto)+
  then show ?thesis by (auto simp: list_all_iff between_def dest: queue_log_mem)
qed

lemma round_moves:
  assumes "verdict key (queue_log new)" and "worker_run (if c = None then Asking else Ended) cs v"
  shows "worker_run Asking (round key new c @ cs) v"
proof -
  have "worker_run Checking (CallCtxErr c # cs) v"
    by (rule worker_run.checks [OF _ assms(2)]) simp
  then have "worker_run Reconciling (new @ CallQueue (QDone key) # CallCtxErr c # cs) v"
    by (intro worker_run.works verdict_between [OF assms(1)]) simp_all
  then show ?thesis
    using worker_run.asks [of False False Reconciling] by (simp add: round_def)
qed

lemma runWorker_moves:
  assumes nq: "\<And>ns n. emits no_queue (reconcile ns n)"
  shows "run_state (runWorker fuel env splitKey reconcile) h = (r, h') \<Longrightarrow>
    \<exists>new. h' = h @ new \<and> worker_run Asking new (if r then Ended else Asking)"
proof (induction fuel arbitrary: h)
  case 0
  then show ?case by (simp add: worker_run.here)
next
  case (Suc fuel)
  from nq Suc.prems show ?case
  proof (cases rule: worker_round)
    case (down key)
    with worker_run.asks [of True False Ended "[]" Ended key] show ?thesis by (simp add: worker_run.here)
  next
    case (stop key new c)
    from round_moves [OF stop(2), of "Some c" "[]" Ended] stop show ?thesis by (simp add: worker_run.here)
  next
    case (more key new)
    from Suc.IH [OF more(3)] obtain rest where rest: "h' = (h @ round key new None) @ rest"
      "worker_run Asking rest (if r then Ended else Asking)" by blast
    with round_moves [OF more(2), of None rest] show ?thesis
      by (intro exI [of _ "round key new None @ rest"]) simp
  qed
qed

text \<open>
  C31: The workers of the process are the workers of the code. Whatever the reconciler does with a key, a panic
  included, the calls of \<open>runWorker\<close> read in order are a run of the moves that the process lets a worker make: it
  asks for a key, and ends there only if the queue answers that it is shut down; it handles the key up to its
  \<open>Done\<close>; then it looks at the context, ends if that is done and otherwise asks again. The run ends in \<open>Ended\<close>
  when the function has returned, and in \<open>Asking\<close> when the rounds that were granted are used up; after it has ended the
  worker makes no call.
\<close>

theorem worker_follows_moves:
  assumes "\<And>ns n. emits no_queue (reconcile ns n)"
  shows "\<exists>new. snd (run_state (runWorker fuel env splitKey reconcile) h) = h @ new
    \<and> worker_run Asking new (if fst (run_state (runWorker fuel env splitKey reconcile) h) then Ended else Asking)"
proof -
  obtain r h' where run: "run_state (runWorker fuel env splitKey reconcile) h = (r, h')"
    by (cases "run_state (runWorker fuel env splitKey reconcile) h")
  from runWorker_moves [OF assms run] run show ?thesis by simp
qed

theorem worker_follows_moves_witness:
  "\<exists>new. snd (run_state (runWorker 3 (s_chart_world\<lparr>env_queueGet := (\<lambda>h. (''demo'', asked h = 1))\<rparr>) (\<lambda>key. Inr (''app-ns'', key))
         (\<lambda>ns n. State_Monad.return (Panicked ''boom''))) []) = new
     \<and> worker_run Asking new Ended"
proof -
  let ?env = "s_chart_world\<lparr>env_queueGet := (\<lambda>h. (''demo'', asked h = 1))\<rparr>"
  let ?boom = "\<lambda>(ns :: string) (n :: string). State_Monad.return (Panicked ''boom'') :: (sobj, reconcile_outcome) prog"
  have "emits no_queue (?boom ns n)" for ns n by (rule wp)
  from worker_follows_moves [OF this, where h = "[]" and fuel = 3 and splitKey = "\<lambda>key. Inr (''app-ns'', key)" and env = ?env]
  have "\<exists>new. snd (run_state (runWorker 3 ?env (\<lambda>key. Inr (''app-ns'', key)) ?boom) []) = new
    \<and> worker_run Asking new (if fst (run_state (runWorker 3 ?env (\<lambda>key. Inr (''app-ns'', key)) ?boom) []) then Ended else Asking)"
    by simp
  moreover have "fst (run_state (runWorker 3 ?env (\<lambda>key. Inr (''app-ns'', key)) ?boom) [])"
    by (simp add: numeral_3_eq_3 queueGet_def process_key_def handle_key_def ctxErr_def s_chart_world_def s_world_def)
  ultimately show ?thesis by simp
qed

end
