(* ===== verification/Process_Props.thy ===== *)
theory Process_Props
  imports Process
begin

section \<open>Properties of the process\<close>

text \<open>
  When the process reports ready, how it ends and with which status, that it does end once a signal has been
  raised or a server has failed; and two ends that the exit status hides.
\<close>

subsection \<open>Sample runs\<close>

text \<open>A start-up in which every library call succeeds; a runner reaches \<open>serving\<close>, and its workers go to work.\<close>

definition starts_well :: "startup \<Rightarrow> bool" where
  "starts_well su \<longleftrightarrow> su_flags su = FlagsParsed \<and> su_config su = None
     \<and> make_clients (su_clients su) = Returns (Inr ()) \<and> su_lock su = None"

definition s_startup :: startup where
  "s_startup = \<lparr>su_flags = FlagsParsed, su_config = None,
     su_clients = \<lparr>ce_api = None, ce_dynamic = None, ce_kube = None, ce_discovery = None\<rparr>, su_lock = None\<rparr>"

lemma s_startup_well [simp]: "starts_well s_startup"
  by (simp add: starts_well_def s_startup_def make_clients_def)

definition s_started :: "bool \<Rightarrow> process" where
  "s_started leaderElect = process_start\<lparr>metrics := Listening, probes := Listening,
     main_at := (if leaderElect then Electing else Running)\<rparr>"

definition serving :: "nat \<Rightarrow> runner" where
  "serving n = \<lparr>pc = Serving, ready = True, ctx_done = False, has_synced = True, watching = True,
     queue_down = False, crew = replicate n Asking\<rparr>"

definition busy :: "nat \<Rightarrow> runner" where
  "busy n = (serving n)\<lparr>crew := replicate n Reconciling\<rparr>"

lemma reachable_step: "reachable le n su p \<Longrightarrow> own_step le n su p q \<Longrightarrow> reachable le n su q"
  by (meson process_step.own rtranclp.rtrancl_into_rtrancl)

lemma reachable_main:
  "reachable le n su p \<Longrightarrow> main_step le su p q \<Longrightarrow> \<not> gone (main_at p) \<Longrightarrow> reachable le n su q"
  by (blast intro: reachable_step own_step.main)

lemma reachable_election:
  "reachable le n su p \<Longrightarrow> election_step su p q \<Longrightarrow> \<not> gone (main_at p) \<Longrightarrow> reachable le n su q"
  by (blast intro: reachable_step own_step.election)

lemma reachable_deliver:
  "reachable le n su p \<Longrightarrow> pending p = Suc k \<Longrightarrow> \<not> gone (main_at p) \<Longrightarrow> reachable le n su (deliver (p\<lparr>pending := k\<rparr>))"
  by (blast intro: reachable_step own_step.delivered)

lemma reachable_signal:
  assumes "reachable le n su p" and "pending p = 0" and "\<not> gone (main_at p)"
  shows "reachable le n su (p\<lparr>pending := 1\<rparr>)"
proof -
  from process_step.outside_signal [OF assms(3), of le n su] assms(2) have "process_step le n su p (p\<lparr>pending := 1\<rparr>)" by simp
  with assms(1) show ?thesis by (rule rtranclp.rtrancl_into_rtrancl)
qed

lemma reachable_runner:
  assumes "(runner_step n)\<^sup>*\<^sup>* (runner_of p) r" and "reachable le n su p"
    and "main_at p = Running \<or> main_at p = Electing \<and> leading p"
  shows "reachable le n su (p\<lparr>runner_of := r\<rparr>)"
  using assms(1)
proof (induction rule: rtranclp_induct)
  case base
  with assms(2) show ?case by simp
next
  case (step r t)
  from step.hyps(2) assms(3) have "own_step le n su (p\<lparr>runner_of := r\<rparr>) (p\<lparr>runner_of := r\<rparr>\<lparr>runner_of := t\<rparr>)"
    by (intro own_step.run) auto
  with reachable_step [OF step.IH] show ?case by simp
qed

lemma reachable_started:
  assumes "starts_well su"
  shows "reachable le n su (s_started le)"
proof -
  note step = reachable_main [where su = su and le = le and n = n]
    and eval = process_start_def assms [unfolded starts_well_def] exit_on_def server_Start_def flags_exit_def
  have "reachable le n su process_start" by simp
  from step [OF this main_step.parsed] have "reachable le n su (process_start\<lparr>main_at := Configuring\<rparr>)"
    by (simp add: eval)
  from step [OF this main_step.configured] have "reachable le n su (process_start\<lparr>main_at := StartingMetrics\<rparr>)"
    by (simp add: eval)
  from step [OF this main_step.metrics_started]
  have "reachable le n su (process_start\<lparr>metrics := Listening, main_at := StartingProbes\<rparr>)" by (simp add: eval)
  from step [OF this main_step.probes_started]
  have "reachable le n su (process_start\<lparr>metrics := Listening, probes := Listening, main_at := Initializing\<rparr>)"
    by (simp add: eval)
  from step [OF this main_step.initialized]
  have run: "reachable le n su (process_start\<lparr>metrics := Listening, probes := Listening,
      main_at := (if le then Locking else Running)\<rparr>)" by (simp add: eval)
  show ?thesis
  proof (cases le)
    case True
    from reachable_election [OF run election_step.locked] True show ?thesis by (simp add: s_started_def eval)
  qed (use run in \<open>simp add: s_started_def\<close>)
qed

lemma to_serving: "(runner_step n)\<^sup>*\<^sup>* runner_start (serving n)"
proof -
  let ?s = "\<lambda>c sy rd. \<lparr>pc = c, ready = rd, ctx_done = False, has_synced = sy, watching = False, queue_down = False, crew = []\<rparr>"
  have "runner_step n runner_start (?s Syncing False False)"
    using runner_step.start [of runner_start n] by (simp add: runner_start_def)
  moreover have "runner_step n (?s Syncing False False) (?s Syncing True False)"
    using runner_step.informer [of "?s Syncing False False" n] by simp
  moreover have "runner_step n (?s Syncing True False) (?s Synced True False)"
    using runner_step.wait_synced [of "?s Syncing True False" n] by simp
  moreover have "runner_step n (?s Synced True False) (?s Spawning True True)"
    using runner_step.set_ready [of "?s Synced True False" n] by simp
  moreover have "runner_step n (?s Spawning True True) (serving n)"
    using runner_step.spawn [of "?s Spawning True True" n] by (simp add: serving_def)
  ultimately show ?thesis
    by (meson converse_rtranclp_into_rtranclp rtranclp.rtrancl_refl)
qed

lemma to_busy: "(runner_step n)\<^sup>*\<^sup>* (serving n) (busy n)"
proof -
  let ?s = "\<lambda>k. (serving n)\<lparr>crew := replicate k Reconciling @ replicate (n - k) Asking\<rparr>"
  have "(runner_step n)\<^sup>*\<^sup>* (serving n) (?s k)" if "k \<le> n" for k
    using that
  proof (induction k)
    case 0
    have "serving n = ?s 0" by (simp add: serving_def)
    then show ?case by simp
  next
    case (Suc k)
    have "replicate (n - k) Asking = Asking # replicate (n - Suc k) Asking"
      using Suc.prems by (simp add: Suc_diff_Suc flip: replicate_Suc)
    then have "(replicate k Reconciling @ replicate (n - k) Asking)[k := Reconciling]
        = replicate (Suc k) Reconciling @ replicate (n - Suc k) Asking"
      by (simp add: list_update_append replicate_append_same)
    with runner_step.worker [of k "?s k" Reconciling n] Suc.prems have "runner_step n (?s k) (?s (Suc k))"
      by (simp add: nth_append)
    with Suc show ?case by (meson Suc_leD rtranclp.rtrancl_into_rtrancl)
  qed
  from this [of n] show ?thesis by (simp add: busy_def)
qed

text \<open>The state in which the workers have come up, and the one in which each of them reconciles.\<close>

definition s_serving :: "bool \<Rightarrow> nat \<Rightarrow> process" where
  "s_serving leaderElect n = (s_started leaderElect)\<lparr>leading := leaderElect, runner_of := serving n\<rparr>"

definition s_busy :: "bool \<Rightarrow> nat \<Rightarrow> process" where
  "s_busy leaderElect n = (s_started leaderElect)\<lparr>leading := leaderElect, runner_of := busy n\<rparr>"

lemma reachable_serving: "reachable leaderElect n s_startup (s_serving leaderElect n)"
proof -
  have "reachable leaderElect n s_startup ((s_started leaderElect)\<lparr>leading := leaderElect\<rparr>)"
  proof (cases leaderElect)
    case True
    with reachable_election [OF reachable_started [OF s_startup_well] election_step.elected, of True n] show ?thesis
      by (simp add: s_started_def process_start_def)
  next
    case False
    with reachable_started [OF s_startup_well, of False n] show ?thesis by (simp add: s_started_def process_start_def)
  qed
  from reachable_runner [OF _ this, of "serving n"] to_serving [of n] show ?thesis
    by (simp add: s_serving_def s_started_def process_start_def)
qed

lemma reachable_busy: "reachable leaderElect n s_startup (s_busy leaderElect n)"
  using reachable_runner [OF _ reachable_serving, of n leaderElect "busy n"] to_busy [of n]
  by (simp add: s_serving_def s_busy_def s_started_def process_start_def)


subsection \<open>Readiness\<close>

text \<open>
  C33: The process reports ready only while \<open>run\<close> serves: the probe server's \<open>/readyz\<close> answers 200 only when the
  informer's cache has synced, workers exist only then, and once \<open>run\<close> has returned the probe answers 503, the
  queue is shut down and every worker has ended.
\<close>

theorem ready_only_serving:
  fixes m addr p
  defines "answer \<equiv> serve m (ready (runner_of p)) (newProbeServer addr) ''/readyz''"
  assumes "reachable leaderElect n su p"
  shows "(fst answer = 200 \<longrightarrow> has_synced (runner_of p) \<and> pc (runner_of p) \<notin> {Starting, Syncing, Synced})
    \<and> (0 < workers (runner_of p) \<longrightarrow> has_synced (runner_of p))
    \<and> (\<forall>e. pc (runner_of p) = Returned e \<longrightarrow> fst answer = 503
          \<and> queue_down (runner_of p) \<and> workers (runner_of p) = 0)"
  using runner_facts [OF assms(2)] unfolding answer_def by (auto simp: readyz_def)

theorem ready_only_serving_witness:
  "fst (serve (200, []) (ready (serving 2)) (newProbeServer '':8081'') ''/readyz'') = 200 \<and> has_synced (serving 2)"
  using ready_only_serving [OF reachable_serving [of True 2], of "(200, [])" "'':8081''"]
  by (simp add: s_serving_def serving_def readyz_def)


subsection \<open>How the process ends\<close>

text \<open>
  C34: Without leader election, the exit status tells how the process ended. Status 0: help was asked for, or
  \<open>run\<close> has returned, so that every worker has ended, none was cut off in the middle of a reconcile, the queue is
  shut down and the process is not ready. Status 1: the configuration or the API client failed, or a second signal
  arrived. Status 2: a flag was wrong, or the constructor of another client panicked. There is no other status.
\<close>

theorem plain_exit_waits:
  assumes "reachable False n su p" and "main_at p = Exited c"
  shows "c = 0 \<and> (su_flags su = HelpRequested
        \<or> (\<exists>e. pc (runner_of p) = Returned e) \<and> workers (runner_of p) = 0 \<and> queue_down (runner_of p) \<and> \<not> ready (runner_of p))
    \<or> c = 1 \<and> (su_config su \<noteq> None \<or> (\<exists>err. make_clients (su_clients su) = Returns (Inl err)) \<or> 2 \<le> signals p)
    \<or> c = 2 \<and> (su_flags su = FlagsInvalid \<or> (\<exists>err. make_clients (su_clients su) = Panics err))"
proof -
  have w: "ended_well False su p c" using process_invariant [OF assms(1)] assms(2) by (simp add: process_inv_def)
  show ?thesis
  proof (cases "\<exists>e. pc (runner_of p) = Returned e \<and> c = main_exit (Some e)")
    case True
    then obtain e where e: "pc (runner_of p) = Returned e" "c = main_exit (Some e)" by blast
    with runner_facts [OF assms(1)] have "e = ContextCanceled" by auto
    with e(2) have "c = 0" by simp
    with e(1) runner_facts [OF assms(1)] show ?thesis by auto
  next
    case False
    with w show ?thesis by (auto simp: ended_well_def flags_exit_def split: flags_outcome.splits)
  qed
qed

text \<open>A process whose runner has not synced yet is stopped by one signal.\<close>

lemma reachable_stopped:
  assumes "reachable le n su p" and "main_at p = Running" and "pc (runner_of p) = Starting" and "ctx_done (runner_of p)"
  shows "\<exists>r. reachable le n su (p\<lparr>runner_of := r, main_at := Exited 0\<rparr>)"
proof -
  let ?r = "runner_of p"
  let ?r1 = "?r\<lparr>ready := False, pc := Syncing\<rparr>"
  let ?r2 = "?r1\<lparr>pc := Closing ContextCanceled\<rparr>"
  let ?r3 = "?r2\<lparr>queue_down := True, pc := Closed ContextCanceled\<rparr>"
  let ?r4 = "?r3\<lparr>ready := False, pc := Returned ContextCanceled\<rparr>"
  have "runner_step n ?r ?r1" using assms(3) by (rule runner_step.start)
  moreover have "runner_step n ?r1 ?r2" using assms(4) by (intro runner_step.wait_stopped) simp_all
  moreover have "runner_step n ?r2 ?r3" by (rule runner_step.shut_queue) simp
  moreover have "runner_step n ?r3 ?r4" by (rule runner_step.unready) simp
  ultimately have "(runner_step n)\<^sup>*\<^sup>* ?r ?r4" by (meson converse_rtranclp_into_rtranclp rtranclp.rtrancl_refl)
  from reachable_runner [OF this assms(1)] assms(2) have r: "reachable le n su (p\<lparr>runner_of := ?r4\<rparr>)" by blast
  from reachable_main [OF r main_step.run_returned [of _ ContextCanceled]] assms(2)
  have "reachable le n su (p\<lparr>runner_of := ?r4, main_at := Exited 0\<rparr>)" by simp
  then show ?thesis by blast
qed

text \<open>The first signal ends a process that has just started, with status 0.\<close>

lemma first_signal_exits:
  assumes "reachable le n su ((s_started le)\<lparr>metrics := m, probes := b, pending := 1\<rparr>)" (is "reachable le n su ?p")
  shows "\<exists>q. reachable le n su q \<and> metrics q = m \<and> probes q = b \<and> signals q = 1 \<and> pending q = 0 \<and> main_at q = Exited 0"
proof -
  let ?d = "?p\<lparr>pending := 0, signals := 1, runner_of := runner_start\<lparr>ctx_done := True\<rparr>\<rparr>"
  have "deliver (?p\<lparr>pending := 0\<rparr>) = ?d" "\<not> gone (main_at ?p)"
    by (cases le; simp add: s_started_def process_start_def deliver_def)+
  with reachable_deliver [OF assms, of 0] have d: "reachable le n su ?d" by simp
  show ?thesis
  proof (cases le)
    case True
    from reachable_election [OF d election_step.signalled] True show ?thesis
      by (intro exI [of _ "?d\<lparr>main_at := Exited 0\<rparr>"]) (simp add: s_started_def process_start_def)
  next
    case False
    from reachable_stopped [OF d] False obtain r where "reachable le n su (?d\<lparr>runner_of := r, main_at := Exited 0\<rparr>)"
      by (auto simp: s_started_def process_start_def runner_start_def)
    then show ?thesis by (intro exI [of _ "?d\<lparr>runner_of := r, main_at := Exited 0\<rparr>"]) simp
  qed
qed

lemma server_can_fail:
  assumes "starts_well su"
  shows "reachable le n su ((s_started le)\<lparr>metrics := Failed, probes := Listening, pending := 1\<rparr>)"
    and "reachable le n su ((s_started le)\<lparr>metrics := Listening, probes := Failed, pending := 1\<rparr>)"
proof -
  have e: "\<not> gone (main_at (s_started le))" "metrics (s_started le) = Listening" "probes (s_started le) = Listening"
    by (simp_all add: s_started_def process_start_def)
  have "own_step le n su (s_started le) ((s_started le)\<lparr>metrics := Failed, probes := Listening, pending := 1\<rparr>)"
    using own_step.metrics_server [OF e(1), of Failed True le n su] e(2) by (simp add: s_started_def process_start_def)
  with reachable_started [OF assms] show "reachable le n su ((s_started le)\<lparr>metrics := Failed, probes := Listening, pending := 1\<rparr>)"
    by (rule reachable_step)
  have "own_step le n su (s_started le) ((s_started le)\<lparr>metrics := Listening, probes := Failed, pending := 1\<rparr>)"
    using own_step.probe_server [OF e(1), of Failed True le n su] e(3) by (simp add: s_started_def process_start_def)
  with reachable_started [OF assms] show "reachable le n su ((s_started le)\<lparr>metrics := Listening, probes := Failed, pending := 1\<rparr>)"
    by (rule reachable_step)
qed

text \<open>
  C36: The exit status does not tell that a server has failed. Start-up having succeeded, either server can fail
  (its port may be taken), upon which its goroutine sends the process SIGTERM, and the process then exits with
  status 0, no signal having come from outside; and whenever the process exits after at most one signal, such a
  SIGTERM included, and without having lost its lease, the status is 0. With and without leader election.
\<close>

theorem failed_server_exits_clean:
  assumes "starts_well su"
  shows "(\<exists>p. reachable leaderElect n su p \<and> metrics p = Failed \<and> signals p = 1 \<and> pending p = 0 \<and> main_at p = Exited 0)
    \<and> (\<exists>p. reachable leaderElect n su p \<and> probes p = Failed \<and> signals p = 1 \<and> pending p = 0 \<and> main_at p = Exited 0)
    \<and> (\<forall>p c. reachable leaderElect n su p \<longrightarrow> main_at p = Exited c \<longrightarrow> signals p \<le> 1 \<longrightarrow> \<not> lost p \<longrightarrow> c = 0)"
proof (intro conjI allI impI)
  note fail = server_can_fail [OF assms, of leaderElect n]
  from first_signal_exits [OF fail(1)]
  show "\<exists>p. reachable leaderElect n su p \<and> metrics p = Failed \<and> signals p = 1 \<and> pending p = 0 \<and> main_at p = Exited 0" by blast
  from first_signal_exits [OF fail(2)]
  show "\<exists>p. reachable leaderElect n su p \<and> probes p = Failed \<and> signals p = 1 \<and> pending p = 0 \<and> main_at p = Exited 0" by blast
  fix p c assume p: "reachable leaderElect n su p" "main_at p = Exited c" "signals p \<le> 1" "\<not> lost p"
  from process_invariant [OF p(1)] p(2) have "ended_well leaderElect su p c" "runner_inv (runner_of p)"
    by (simp_all add: process_inv_def)
  with assms p(3,4) show "c = 0" by (auto simp: ended_well_def starts_well_def flags_exit_def dest: runner_error)
qed

theorem failed_server_exits_clean_witness:
  "\<exists>p. reachable True 2 s_startup p \<and> metrics p = Failed \<and> signals p = 1 \<and> main_at p = Exited 0"
  using failed_server_exits_clean [OF s_startup_well, of True 2] by blast

theorem plain_exit_waits_witness:
  "\<exists>p. reachable False 1 s_startup p \<and> main_at p = Exited 0 \<and> (\<exists>e. pc (runner_of p) = Returned e)
     \<and> workers (runner_of p) = 0 \<and> queue_down (runner_of p)"
proof -
  have eq: "(s_started False)\<lparr>pending := 1\<rparr> = (s_started False)\<lparr>metrics := Listening, probes := Listening, pending := 1\<rparr>"
    by (simp add: s_started_def process_start_def)
  have "reachable False 1 s_startup ((s_started False)\<lparr>pending := 1\<rparr>)"
    by (rule reachable_signal [OF reachable_started [OF s_startup_well]]) (simp_all add: s_started_def process_start_def)
  from first_signal_exits [OF this [unfolded eq]] obtain p
    where p: "reachable False 1 s_startup p" "main_at p = Exited 0" by blast
  from plain_exit_waits [OF p] have "(\<exists>e. pc (runner_of p) = Returned e) \<and> workers (runner_of p) = 0 \<and> queue_down (runner_of p)"
    by (simp add: s_startup_def)
  with p show ?thesis by blast
qed

text \<open>
  C35: With leader election it does not wait: on a signal \<open>main\<close> returns at once, and a state is reachable in
  which the process has ended with status 0 while each of its workers was in the middle of a reconcile.
\<close>

theorem leader_exit_abandons:
  "\<exists>p. reachable True n s_startup p \<and> main_at p = Exited 0 \<and> signals p = 1
    \<and> pc (runner_of p) = Serving \<and> workers (runner_of p) = n \<and> crew (runner_of p) = replicate n Reconciling"
proof -
  let ?p = "(s_busy True n)\<lparr>pending := 1\<rparr>"
  have "reachable True n s_startup ?p"
    by (rule reachable_signal [OF reachable_busy]) (simp_all add: s_busy_def s_started_def process_start_def)
  from reachable_deliver [OF this, of 0]
  have "reachable True n s_startup (deliver (?p\<lparr>pending := 0\<rparr>))" by (simp add: s_busy_def s_started_def process_start_def)
  from reachable_election [OF this election_step.signalled] show ?thesis
    by (intro exI [of _ "deliver (?p\<lparr>pending := 0\<rparr>)\<lparr>main_at := Exited 0\<rparr>"])
      (simp add: s_busy_def s_started_def process_start_def busy_def serving_def deliver_def workers_def)
qed


subsection \<open>The process ends\<close>

text \<open>
  Once the context is done, every step of the runner that changes its state brings it nearer to its end: a worker
  has at most the rest of its round and the queue's next answer before it.
\<close>

fun rank :: "runner_pc \<Rightarrow> nat" where
  "rank Starting = 8" | "rank Syncing = 7" | "rank Synced = 6" | "rank Spawning = 5" | "rank Serving = 4"
| "rank Draining = 3" | "rank (Closing e) = 2" | "rank (Closed e) = 1" | "rank (Returned e) = 0"

fun worker_rank :: "worker_pc \<Rightarrow> nat" where
  "worker_rank Asking = 3" | "worker_rank Reconciling = 2" | "worker_rank Checking = 1" | "worker_rank Ended = 0"

definition remaining :: "nat \<Rightarrow> runner \<Rightarrow> nat" where
  "remaining n s = rank (pc s) * (3 * n + 3) + sum_list (List.map worker_rank (crew s))
     + (if has_synced s then 0 else 1) + (if queue_down s then 0 else 1)"

lemma worker_move_rank: "worker_move q True v w \<Longrightarrow> worker_rank w < worker_rank v"
  by (erule worker_move.cases) simp_all

lemma sum_list_less_update: "i < length xs \<Longrightarrow> y < xs ! i \<Longrightarrow> sum_list (xs[i := y]) < sum_list (xs :: nat list)"
  by (induction xs arbitrary: i) (auto split: nat.split)

lemma remaining_step:
  assumes "runner_step n s t" and "t \<noteq> s" and "ctx_done s"
  shows "remaining n t < remaining n s"
  using assms(1)
proof cases
  case (worker i w)
  with assms(3) worker_move_rank [of "queue_down s" "crew s ! i" w] show ?thesis
    using sum_list_less_update [of i "List.map worker_rank (crew s)" "worker_rank w"] by (simp add: remaining_def map_update)
next
  case spawn
  then show ?thesis by (simp add: remaining_def sum_list_replicate)
qed (use assms(2) in \<open>auto simp: remaining_def\<close>)

lemma remaining_cancel [simp]: "remaining n (s\<lparr>ctx_done := b\<rparr>) = remaining n s"
  by (simp add: remaining_def)

text \<open>A step that waits for the queue to hand out a key.\<close>

definition hands_key :: "runner \<Rightarrow> runner \<Rightarrow> bool" where
  "hands_key s t \<longleftrightarrow> (\<exists>i < length (crew s). i < length (crew t) \<and> crew s ! i = Asking \<and> crew t ! i = Reconciling)"

lemma hands_key_same [simp]: "crew t = crew s \<Longrightarrow> \<not> hands_key s t"
  by (auto simp: hands_key_def)

text \<open>
  The runner does not get stuck before it has returned, even if no key is handed out any more: a worker that waits
  for a key is woken because the watcher shuts the queue down.
\<close>

lemma worker_moves:
  assumes "runner_inv s" and "ctx_done s" and "pc s = Draining" and "0 < workers s"
  shows "\<exists>t. runner_step n s t \<and> t \<noteq> s \<and> \<not> hands_key s t"
proof -
  from assms(4) obtain i where i: "i < length (crew s)" "crew s ! i \<noteq> Ended"
    using workers_0 [of s] by (auto simp: in_set_conv_nth)
  show ?thesis
  proof (cases "queue_down s \<or> crew s ! i \<noteq> Asking")
    case True
    then obtain w where w: "worker_move (queue_down s) (ctx_done s) (crew s ! i) w" "crew s ! i = Asking \<longrightarrow> w = Ended"
      using i(2) assms(2) by (cases "crew s ! i") auto
    have "w \<noteq> crew s ! i" using worker_move_rank w(1) assms(2) by fastforce
    then have "crew (s\<lparr>crew := (crew s)[i := w]\<rparr>) \<noteq> crew s" using i(1) by (metis nth_list_update_eq runner.select_convs(7) runner.surjective runner.update_convs(7))
    moreover have "\<not> hands_key s (s\<lparr>crew := (crew s)[i := w]\<rparr>)"
      using w(2) i(1) by (auto simp: hands_key_def nth_list_update split: if_splits)
    ultimately show ?thesis using runner_step.worker [OF i(1) w(1), of n] by (metis (no_types))
  next
    case False
    from assms(1,3) have "watching s" by (simp add: runner_inv_def)
    from runner_step.watcher [OF this assms(2), of n] False show ?thesis
      by (intro exI [of _ "s\<lparr>queue_down := True\<rparr>"]) (auto dest: arg_cong [of _ _ queue_down])
  qed
qed

lemma runner_moves:
  assumes "runner_inv s" and "ctx_done s"
  shows "(\<exists>e. pc s = Returned e) \<or> (\<exists>t. runner_step n s t \<and> t \<noteq> s \<and> \<not> hands_key s t)"
proof -
  have change: "\<exists>t. runner_step n s t \<and> t \<noteq> s \<and> \<not> hands_key s t" if "runner_step n s t" "pc t \<noteq> pc s" "\<not> hands_key s t" for t
    using that by auto
  show ?thesis
  proof (cases "pc s")
    case Starting
    from change [OF runner_step.start [OF this]] Starting show ?thesis by simp
  next
    case Syncing
    from change [OF runner_step.wait_stopped [OF this assms(2)]] Syncing show ?thesis by simp
  next
    case Synced
    from change [OF runner_step.set_ready [OF this]] Synced show ?thesis by simp
  next
    case Spawning
    have "\<not> hands_key s (s\<lparr>watching := True, crew := replicate n Asking, pc := Serving\<rparr>)" by (simp add: hands_key_def)
    with change [OF runner_step.spawn [OF Spawning]] Spawning show ?thesis by simp
  next
    case Serving
    from change [OF runner_step.stop [OF this assms(2)]] Serving show ?thesis by simp
  next
    case Draining
    show ?thesis
    proof (cases "workers s = 0")
      case True
      from change [OF runner_step.drained [OF Draining True]] Draining show ?thesis by simp
    qed (use worker_moves [OF assms Draining] in simp)
  next
    case (Closing e)
    from change [OF runner_step.shut_queue [OF this]] Closing show ?thesis by simp
  next
    case (Closed e)
    from change [OF runner_step.unready [OF this]] Closed show ?thesis by simp
  qed simp
qed

text \<open>The same for the process.\<close>

fun main_rank :: "main_pc \<Rightarrow> nat" where
  "main_rank Parsing = 7" | "main_rank Configuring = 6" | "main_rank StartingMetrics = 5" | "main_rank StartingProbes = 4"
| "main_rank Initializing = 3" | "main_rank Locking = 2" | "main_rank Electing = 1" | "main_rank Running = 1"
| "main_rank (Exited c) = 0" | "main_rank Killed = 0"

fun server_rank :: "server_pc \<Rightarrow> nat" where
  "server_rank NotStarted = 2" | "server_rank Listening = 2" | "server_rank Stopped = 0" | "server_rank Failed = 0"

definition process_remaining :: "nat \<Rightarrow> process \<Rightarrow> nat" where
  "process_remaining n p = 5 * main_rank (main_at p) + server_rank (metrics p) + server_rank (probes p) + pending p
     + (if leading p then 0 else 1) + (if lost p then 0 else 1) + remaining n (runner_of p)"

lemma main_step_remaining: "main_step le su p q \<Longrightarrow> process_remaining n q < process_remaining n p"
  by (erule main_step.cases)
    (auto simp: process_remaining_def exit_on_def server_Start_def split: option.split or_panic.split sum.split)

lemma election_step_remaining:
  assumes "election_step su p q" and "q \<noteq> p" and "ctx_done (runner_of p)"
  shows "process_remaining n q < process_remaining n p"
  using assms(1)
proof cases
  case elected
  with assms(2) show ?thesis by (auto simp: process_remaining_def)
next
  case lease_lost
  have "runner_of p\<lparr>ctx_done := True\<rparr> = runner_of p" using assms(3) by (cases "runner_of p") simp
  with lease_lost assms(2) show ?thesis by (cases p) (auto simp: process_remaining_def split: if_splits)
qed (auto simp: process_remaining_def split: option.split)

lemma own_step_remaining:
  assumes "own_step le n su p q" and "q \<noteq> p" and "ctx_done (runner_of p)"
  shows "process_remaining n q < process_remaining n p"
  using assms(1)
proof cases
  case (run r)
  with assms(2) have "r \<noteq> runner_of p" by auto
  with run assms(3) show ?thesis by (simp add: process_remaining_def remaining_step)
next
  case (delivered k)
  then show ?thesis by (cases "main_at p") (simp_all add: process_remaining_def deliver_def)
next
  case main
  then show ?thesis by (blast intro: main_step_remaining)
next
  case election
  with assms(2,3) show ?thesis by (blast intro: election_step_remaining)
next
  case (metrics_server s kill)
  then show ?thesis by (auto simp: process_remaining_def)
next
  case (probe_server s kill)
  then show ?thesis by (auto simp: process_remaining_def)
qed

lemma own_step_done:
  assumes "own_step le n su p q" and "ctx_done (runner_of p)"
  shows "ctx_done (runner_of q)"
  using assms(1)
proof cases
  case main
  from main(2) assms(2) show ?thesis by cases auto
next
  case election
  from election(2) assms(2) show ?thesis by cases auto
qed (use assms(2) in \<open>auto simp: deliver_def dest: runner_keeps_done\<close>)

lemma process_moves:
  assumes "process_inv le su p" and "ctx_done (runner_of p)" and "\<not> gone (main_at p)"
  shows "\<exists>q. own_step le n su p q \<and> q \<noteq> p \<and> \<not> hands_key (runner_of p) (runner_of q)"
proof -
  have change: "\<exists>q. own_step le n su p q \<and> q \<noteq> p \<and> \<not> hands_key (runner_of p) (runner_of q)"
    if "own_step le n su p q" "main_at q \<noteq> main_at p" "runner_of q = runner_of p" for q
    using that by auto
  note by_main = change [OF own_step.main [OF assms(3)]] and by_election = change [OF own_step.election [OF assms(3)]]
  show ?thesis
  proof (cases "main_at p")
    case Parsing
    from by_main [OF main_step.parsed [OF this]] Parsing show ?thesis by (simp split: option.splits)
  next
    case Configuring
    from by_main [OF main_step.configured [OF this]] Configuring show ?thesis by (simp add: exit_on_def split: option.splits)
  next
    case StartingMetrics
    from by_main [OF main_step.metrics_started [OF this]] StartingMetrics show ?thesis by (simp add: server_Start_def exit_on_def)
  next
    case StartingProbes
    from by_main [OF main_step.probes_started [OF this]] StartingProbes show ?thesis by (simp add: server_Start_def exit_on_def)
  next
    case Initializing
    from by_main [OF main_step.initialized [OF this]] Initializing show ?thesis
      by (simp split: or_panic.splits sum.splits if_splits)
  next
    case Locking
    from by_election [OF election_step.locked [OF this]] Locking show ?thesis by (simp split: option.splits)
  next
    case Electing
    from assms(1,2) have "0 < signals p \<or> lost p" by (simp add: process_inv_def)
    then show ?thesis
      using by_election [OF election_step.signalled [OF Electing]] by_election [OF election_step.reported_lost [OF Electing]] Electing
      by auto
  next
    case Running
    from assms(1) have "runner_inv (runner_of p)" by (simp add: process_inv_def)
    from runner_moves [OF this assms(2), of n] show ?thesis
    proof (elim disjE exE conjE)
      fix e assume "pc (runner_of p) = Returned e"
      from by_main [OF main_step.run_returned [OF Running this]] Running show ?thesis by simp
    next
      fix r assume r: "runner_step n (runner_of p) r" "r \<noteq> runner_of p" "\<not> hands_key (runner_of p) r"
      then have "p\<lparr>runner_of := r\<rparr> \<noteq> p" by (auto dest: arg_cong [of _ _ runner_of])
      with own_step.run [OF disjI1 [OF Running] r(1), of le su] r(3) show ?thesis
        by (intro exI [of _ "p\<lparr>runner_of := r\<rparr>"]) simp
    qed
  qed (use assms(3) in simp_all)
qed

lemma no_endless_descent: "(\<And>i. (m :: nat \<Rightarrow> nat) (Suc i) < m i) \<Longrightarrow> False"
proof -
  assume d: "\<And>i. m (Suc i) < m i"
  have "m i + i \<le> m 0" for i
  proof (induction i)
    case (Suc i)
    with d [of i] show ?case by linarith
  qed simp
  from this [of "Suc (m 0)"] show False by simp
qed

text \<open>
  C37: The process comes to its end: once the context is done (a signal has arrived, that of a failed server
  included, or the lease is lost), there is no endless sequence of steps that change its state, in whatever order
  the steps of \<open>main\<close>, of \<open>run\<close>, of the workers in their loops and of the servers come and however many keys the
  queue still hands out; and it is never stuck before it has exited, even if the queue hands out no key any more.
  So it exits, and without leader election \<open>run\<close> has returned by then (C34).
\<close>

theorem process_ends:
  assumes "reachable leaderElect n su p" and "ctx_done (runner_of p)"
  shows "(\<nexists>f. f 0 = p \<and> (\<forall>i. own_step leaderElect n su (f i) (f (Suc i)) \<and> f (Suc i) \<noteq> f i))
    \<and> (\<forall>q. (own_step leaderElect n su)\<^sup>*\<^sup>* p q \<longrightarrow>
         gone (main_at q) \<or> (\<exists>r. own_step leaderElect n su q r \<and> r \<noteq> q \<and> \<not> hands_key (runner_of q) (runner_of r)))"
proof (intro conjI allI impI notI)
  assume "\<exists>f. f 0 = p \<and> (\<forall>i. own_step leaderElect n su (f i) (f (Suc i)) \<and> f (Suc i) \<noteq> f i)"
  then obtain f where f: "f 0 = p" "\<And>i. own_step leaderElect n su (f i) (f (Suc i))" "\<And>i. f (Suc i) \<noteq> f i" by blast
  have "ctx_done (runner_of (f i))" for i
    by (induction i) (use f assms(2) in \<open>auto intro: own_step_done\<close>)
  with f(2,3) own_step_remaining have "process_remaining n (f (Suc i)) < process_remaining n (f i)" for i by blast
  then show False by (rule no_endless_descent)
next
  fix q assume "(own_step leaderElect n su)\<^sup>*\<^sup>* p q"
  then have "reachable leaderElect n su q \<and> ctx_done (runner_of q)"
    by (induction rule: rtranclp_induct) (use assms in \<open>auto intro: reachable_step own_step_done\<close>)
  with process_moves [OF process_invariant, of leaderElect n su q n]
  show "gone (main_at q) \<or> (\<exists>r. own_step leaderElect n su q r \<and> r \<noteq> q \<and> \<not> hands_key (runner_of q) (runner_of r))" by blast
qed

theorem process_ends_witness:
  "\<exists>p q. crew (runner_of p) = replicate 2 Reconciling \<and> own_step False 2 s_startup p q \<and> q \<noteq> p"
proof -
  let ?p = "(s_busy False 2)\<lparr>signals := 1, runner_of := (busy 2)\<lparr>ctx_done := True\<rparr>\<rparr>"
  have "reachable False 2 s_startup ((s_busy False 2)\<lparr>pending := 1\<rparr>)"
    by (rule reachable_signal [OF reachable_busy]) (simp_all add: s_busy_def s_started_def process_start_def)
  from reachable_deliver [OF this, of 0] have "reachable False 2 s_startup ?p"
    by (simp add: s_busy_def s_started_def process_start_def deliver_def)
  from process_ends [OF this] have "\<exists>q. own_step False 2 s_startup ?p q \<and> q \<noteq> ?p"
    by (auto simp: s_busy_def s_started_def)
  moreover have "crew (runner_of ?p) = replicate 2 Reconciling" by (simp add: busy_def)
  ultimately show ?thesis by blast
qed

end
