(* ===== verification/Registration.thy ===== *)
theory Registration
  imports Operator
begin

section \<open>The API group, and the two ways to run the reconciler\<close>

text \<open>
  \<open>groupversion_info.go\<close> with the registration of the types, and the scheme that \<open>main\<close> gives to its client: a
  table from kinds to Go types. \<open>scheme.Builder\<close> of controller-runtime registers each object under its group
  version, with the name of its Go type as the kind. \<open>SetupWithManager\<close> is the other way to run the reconciler,
  with controller-runtime's own workers; \<open>main\<close> does not use it. That both agree on kinds and numbers is shown.
\<close>

definition GroupVersion :: "string \<times> string" where
  "GroupVersion = (''gitops.cabure.io'', ''v1alpha1'')"

type_synonym scheme = "(gvk \<times> string) list"

text \<open>The Go types that \<open>init\<close> registers with \<open>SchemeBuilder\<close>.\<close>

definition registered_types :: "string list" where
  "registered_types = [''GitApplication'', ''GitApplicationList'']"

definition AddToScheme :: "scheme \<Rightarrow> scheme" where
  "AddToScheme s = List.map (\<lambda>t. (\<lparr>gvk_group = fst GroupVersion, gvk_version = snd GroupVersion, gvk_kind = t\<rparr>, t))
     registered_types @ s"

definition runtimeScheme :: scheme where
  "runtimeScheme = AddToScheme []"

record controller_setup =
  ctl_for :: string
  ctl_maxConcurrentReconciles :: int

definition SetupWithManager :: "operator_config \<Rightarrow> controller_setup" where
  "SetupWithManager cfg = \<lparr>ctl_for = ''GitApplication'', ctl_maxConcurrentReconciles = concurrentReconciles cfg\<rparr>"

text \<open>The client decodes what the informer watches: the resource's group version has the kind \<open>GitApplication\<close>.\<close>

lemma watched_is_registered:
  "map_of runtimeScheme \<lparr>gvk_group = gvr_group gitApplicationGVR, gvk_version = gvr_version gitApplicationGVR,
     gvk_kind = ctl_for (SetupWithManager cfg)\<rparr> = Some ''GitApplication''"
  by (simp add: runtimeScheme_def AddToScheme_def registered_types_def GroupVersion_def gitApplicationGVR_def SetupWithManager_def)

text \<open>Both ways run the same number of workers, at least one, whatever the flag says.\<close>

lemma same_workers:
  assumes "newOperatorRunner ce fuel env u y hl mapOrder opts = Returns (Inr r)"
  shows "or_workers r = ctl_maxConcurrentReconciles (SetupWithManager (rc_config (or_reconciler r))) \<and> 1 \<le> or_workers r"
  using assms
  by (auto simp: newOperatorRunner_def newReconciler_def SetupWithManager_def concurrentReconciles_def runner_config_def
      runner_workers_def split: or_panic.splits sum.splits)

end
