(* ===== verification/Go_Heap.thy ===== *)
theory Go_Heap
  imports Status
begin

section \<open>Go's memory, as far as the deep copies see it\<close>

text \<open>
  The value-level records of \<open>Api_Types\<close> stand for structs whose slices and pointers nobody shares. Here the
  same structs are modelled with their pointers: a heap of cells, slices as a backing array and a length (the
  rest of the array is spare capacity that \<open>append\<close> fills in place), and the contract of a deep copy, with the
  rules by which the copy of a struct follows from the copies of its parts. Nothing in the program reslices, so
  a slice starts at the beginning of its array.
\<close>

type_synonym addr = nat

datatype slice = NilSlice | Slice addr nat

record heap_helm =
  hh_releaseName :: string
  hh_valuesFiles :: slice
  hh_includeCRDs :: bool

record heap_spec =
  hs_repository :: string
  hs_revision :: string
  hs_path :: string
  hs_secretRef :: "addr option"
  hs_destination :: destination_spec
  hs_renderType :: string
  hs_helm :: "addr option"
  hs_allowedClusterScopedKinds :: slice
  hs_takeoverExistingResources :: bool
  hs_interval :: duration
  hs_prune :: bool
  hs_suspend :: bool

record heap_status =
  ht_observedGeneration :: int
  ht_attemptedRevision :: string
  ht_appliedRevision :: string
  ht_lastAttemptTime :: "addr option"
  ht_lastSuccessTime :: "addr option"
  ht_inventory :: slice
  ht_conditions :: slice

text \<open>\<open>'m\<close> is \<open>metav1.ObjectMeta\<close>, and whatever its own pointers lead to.\<close>

record 'm heap_app =
  ha_kind :: string
  ha_apiVersion :: string
  ha_meta :: 'm
  ha_spec :: heap_spec
  ha_status :: heap_status

text \<open>\<open>metav1.ListMeta\<close>: its strings, and the count, which is behind a pointer.\<close>

record list_meta =
  lm_resourceVersion :: string
  lm_continue :: string
  lm_remainingItemCount :: "addr option"

record heap_app_list =
  hl_kind :: string
  hl_apiVersion :: string
  hl_listMeta :: list_meta
  hl_items :: slice

datatype 'm cell =
    StringsCell "string list"
  | RefsCell "resource_reference list"
  | ConditionsCell "condition list"
  | SecretRefCell string
  | HelmCell heap_helm
  | TimeCell time
  | MetaCell 'm
  | AppCell "'m heap_app"
  | ItemsCell "'m heap_app list"
  | ListCell heap_app_list
  | CountCell int
  | RefCell resource_reference

record 'm heap =
  next_addr :: addr
  store :: "addr \<Rightarrow> 'm cell option"

definition alloc :: "'m cell \<Rightarrow> 'm heap \<Rightarrow> addr \<times> 'm heap" where
  "alloc c h = (next_addr h, \<lparr>next_addr = Suc (next_addr h), store = (store h)(next_addr h \<mapsto> c)\<rparr>)"

definition wf_heap :: "'m heap \<Rightarrow> bool" where
  "wf_heap h \<longleftrightarrow> dom (store h) \<subseteq> {..<next_addr h}"

definition extends :: "'m heap \<Rightarrow> 'm heap \<Rightarrow> bool" where
  "extends h h' \<longleftrightarrow> next_addr h \<le> next_addr h' \<and> (\<forall>x<next_addr h. store h' x = store h x)"

lemma extends_refl [simp]: "extends h h"
  by (simp add: extends_def)

lemma extends_trans: "extends h h' \<Longrightarrow> extends h' h'' \<Longrightarrow> extends h h''"
  by (simp add: extends_def)

lemma alloc_facts:
  assumes "alloc c h = (a, h')" and "wf_heap h"
  shows "a = next_addr h" and "store h' a = Some c" and "extends h h'" and "wf_heap h'"
  using assms by (auto simp: alloc_def extends_def wf_heap_def less_Suc_eq dest: subsetD [OF _ domI])


subsection \<open>The contract of a deep copy\<close>

text \<open>
  \<open>view h a\<close> is the value that \<open>a\<close> stands for (\<open>None\<close>: it has a dangling pointer, which Go excludes), \<open>reach h a\<close>
  the addresses its value depends on. A copy allocates only, stands for the same value and shares no address
  with anything older.
\<close>

locale copier =
  fixes copy :: "'m heap \<Rightarrow> 'a \<Rightarrow> 'a \<times> 'm heap"
    and view :: "'m heap \<Rightarrow> 'a \<Rightarrow> 'v option"
    and reach :: "'m heap \<Rightarrow> 'a \<Rightarrow> addr set"
  assumes grows: "wf_heap h \<Longrightarrow> copy h a = (b, h') \<Longrightarrow> extends h h' \<and> wf_heap h'"
    and same: "wf_heap h \<Longrightarrow> view h a = Some v \<Longrightarrow> copy h a = (b, h') \<Longrightarrow> view h' b = Some v"
    and fresh: "wf_heap h \<Longrightarrow> view h a = Some v \<Longrightarrow> copy h a = (b, h') \<Longrightarrow> reach h' b \<inter> {..<next_addr h} = {}"
    and local: "\<forall>x\<in>reach h a. store h' x = store h x \<Longrightarrow> view h' a = view h a \<and> reach h' a = reach h a"
    and below: "wf_heap h \<Longrightarrow> view h a = Some v \<Longrightarrow> reach h a \<subseteq> {..<next_addr h}"
begin

lemma kept_by_extension:
  assumes "wf_heap h" and "view h a = Some v" and "extends h h'"
  shows "view h' a = Some v" and "reach h' a = reach h a"
proof -
  have "\<forall>x\<in>reach h a. store h' x = store h x"
    using below [OF assms(1,2)] assms(3) by (auto simp: extends_def)
  from local [OF this] assms(2) show "view h' a = Some v" and "reach h' a = reach h a" by auto
qed

text \<open>
  Whatever is later written to cells that existed before the copy, or that are allocated after it, the copy
  keeps its value.
\<close>

lemma copy_isolated:
  assumes "wf_heap h" and "view h a = Some v" and "copy h a = (b, h')"
    and "\<forall>x. next_addr h \<le> x \<and> x < next_addr h' \<longrightarrow> store h'' x = store h' x"
  shows "view h'' b = Some v"
proof -
  note s = same [OF assms(1-3)]
  have "\<forall>x\<in>reach h' b. store h'' x = store h' x"
    using fresh [OF assms(1-3)] below [OF conjunct2 [OF grows [OF assms(1,3)]] s] assms(4)
    by (meson disjoint_iff lessThan_iff not_less subsetD)
  from local [OF this] s show ?thesis by simp
qed

text \<open>And the original keeps its value whatever is written to the copy's cells.\<close>

lemma original_isolated:
  assumes "wf_heap h" and "view h a = Some v" and "copy h a = (b, h')"
    and "\<forall>x<next_addr h. store h'' x = store h' x"
  shows "view h'' a = Some v"
proof -
  have "\<forall>x\<in>reach h a. store h'' x = store h x"
    using below [OF assms(1,2)] grows [OF assms(1,3)] assms(4) by (auto simp: extends_def)
  from local [OF this] assms(2) show ?thesis by simp
qed

end


subsection \<open>Copies of parts give copies of wholes\<close>

text \<open>Two parts, one after the other.\<close>

definition copy_pair ::
  "('m heap \<Rightarrow> 'a \<Rightarrow> 'a \<times> 'm heap) \<Rightarrow> ('m heap \<Rightarrow> 'b \<Rightarrow> 'b \<times> 'm heap) \<Rightarrow> 'm heap \<Rightarrow> 'a \<times> 'b \<Rightarrow> ('a \<times> 'b) \<times> 'm heap" where
  "copy_pair c d h p = (case p of (x, y) \<Rightarrow>
     let (x', h1) = c h x; (y', h2) = d h1 y in ((x', y'), h2))"

definition view_pair :: "('h \<Rightarrow> 'a \<Rightarrow> 'v option) \<Rightarrow> ('h \<Rightarrow> 'b \<Rightarrow> 'w option) \<Rightarrow> 'h \<Rightarrow> 'a \<times> 'b \<Rightarrow> ('v \<times> 'w) option" where
  "view_pair v w h p = (case v h (fst p) of None \<Rightarrow> None | Some x \<Rightarrow>
     (case w h (snd p) of None \<Rightarrow> None | Some y \<Rightarrow> Some (x, y)))"

definition reach_pair :: "('h \<Rightarrow> 'a \<Rightarrow> addr set) \<Rightarrow> ('h \<Rightarrow> 'b \<Rightarrow> addr set) \<Rightarrow> 'h \<Rightarrow> 'a \<times> 'b \<Rightarrow> addr set" where
  "reach_pair r s h p = r h (fst p) \<union> s h (snd p)"

lemma view_pair_Some:
  "view_pair v w h (x, y) = Some p \<longleftrightarrow> v h x = Some (fst p) \<and> w h y = Some (snd p)"
  by (cases p) (auto simp: view_pair_def split: option.splits)

lemma copier_pair:
  assumes c: "copier c v r" and d: "copier d w s"
  shows "copier (copy_pair c d) (view_pair v w) (reach_pair r s)"
proof
  fix h :: "'a heap" and p q h' z
  assume wf: "wf_heap h" and cp: "copy_pair c d h p = (q, h')"
  obtain x y where p: "p = (x, y)" by (cases p)
  obtain x' h1 where cx: "c h x = (x', h1)" by (cases "c h x")
  obtain y' where dy: "d h1 y = (y', h')" and q: "q = (x', y')"
    using cp cx by (cases "d h1 y") (simp add: copy_pair_def p)
  note gx = copier.grows [OF c wf cx]
  note gy = copier.grows [OF d conjunct2 [OF gx] dy]
  show "extends h h' \<and> wf_heap h'" using gx gy extends_trans by blast
  assume vp: "view_pair v w h p = Some z"
  then have vx: "v h x = Some (fst z)" and wy: "w h y = Some (snd z)"
    by (auto simp: p view_pair_Some)
  note wy1 = copier.kept_by_extension [OF d wf wy conjunct1 [OF gx]]
  note vx1 = copier.same [OF c wf vx cx]
  note vx2 = copier.kept_by_extension [OF c conjunct2 [OF gx] vx1 conjunct1 [OF gy]]
  note wy2 = copier.same [OF d conjunct2 [OF gx] wy1(1) dy]
  from vx2(1) wy2 show "view_pair v w h' q = Some z" by (simp add: q view_pair_Some)
  have "s h' y' \<inter> {..<next_addr h1} = {}" by (rule copier.fresh [OF d conjunct2 [OF gx] wy1(1) dy])
  moreover have "next_addr h \<le> next_addr h1" using gx by (simp add: extends_def)
  ultimately have "s h' y' \<inter> {..<next_addr h} = {}" by (auto simp: disjoint_iff)
  with copier.fresh [OF c wf vx cx] vx2(2)
  show "reach_pair r s h' q \<inter> {..<next_addr h} = {}" by (auto simp: reach_pair_def q)
next
  fix h h' :: "'a heap" and p
  assume "\<forall>x\<in>reach_pair r s h p. store h' x = store h x"
  then have "v h' (fst p) = v h (fst p) \<and> r h' (fst p) = r h (fst p)"
    "w h' (snd p) = w h (snd p) \<and> s h' (snd p) = s h (snd p)"
    using copier.local [OF c, of h "fst p" h'] copier.local [OF d, of h "snd p" h'] by (auto simp: reach_pair_def)
  then show "view_pair v w h' p = view_pair v w h p \<and> reach_pair r s h' p = reach_pair r s h p"
    by (simp add: view_pair_def reach_pair_def cong: option.case_cong)
next
  fix h :: "'a heap" and p z
  assume "wf_heap h" and "view_pair v w h p = Some z"
  then show "reach_pair r s h p \<subseteq> {..<next_addr h}"
    using copier.below [OF c, of h "fst p" "fst z"] copier.below [OF d, of h "snd p" "snd z"]
    by (cases p) (auto simp: view_pair_Some reach_pair_def)
qed

text \<open>A struct of which a part is copied deeply, the rest by assignment.\<close>

lemma copier_part:
  assumes c: "copier c v r"
    and copy: "\<And>h a. copy' h a = (let (x, h') = c h (get a) in (put a x, h'))"
    and get_put: "\<And>a x. get (put a x) = x"
    and view: "\<And>h a. view' h a = map_option (build a) (v h (get a))"
    and build_put: "\<And>a x y. build (put a x) y = build a y"
    and reach: "\<And>h a. reach' h a = r h (get a)"
  shows "copier copy' view' reach'"
proof
  fix h :: "'a heap" and a b h' z
  assume wf: "wf_heap h" and cp: "copy' h a = (b, h')"
  obtain x where cx: "c h (get a) = (x, h')" and b: "b = put a x"
    using cp by (cases "c h (get a)") (simp add: copy)
  show "extends h h' \<and> wf_heap h'" by (rule copier.grows [OF c wf cx])
  assume "view' h a = Some z"
  then obtain y where y: "v h (get a) = Some y" and z: "z = build a y" by (auto simp: view)
  from copier.same [OF c wf y cx] show "view' h' b = Some z" by (simp add: view b get_put build_put z)
  from copier.fresh [OF c wf y cx] show "reach' h' b \<inter> {..<next_addr h} = {}" by (simp add: reach b get_put)
next
  fix h h' :: "'a heap" and a
  assume "\<forall>x\<in>reach' h a. store h' x = store h x"
  then show "view' h' a = view' h a \<and> reach' h' a = reach' h a"
    using copier.local [OF c, of h "get a" h'] by (simp add: view reach)
next
  fix h :: "'a heap" and a z
  assume "wf_heap h" and "view' h a = Some z"
  then show "reach' h a \<subseteq> {..<next_addr h}"
    using copier.below [OF c] by (auto simp: view reach)
qed

text \<open>A pointer, which may be nil, to a struct that is copied deeply.\<close>

definition copy_ptr ::
  "('m heap \<Rightarrow> 'a \<Rightarrow> 'a \<times> 'm heap) \<Rightarrow> ('a \<Rightarrow> 'm cell) \<Rightarrow> ('m cell \<Rightarrow> 'a option)
     \<Rightarrow> 'm heap \<Rightarrow> addr option \<Rightarrow> addr option \<times> 'm heap" where
  "copy_ptr c mk get h p =
     (case p of None \<Rightarrow> (None, h)
      | Some a \<Rightarrow> (case Option.bind (store h a) get of
          None \<Rightarrow> (p, h)
        | Some x \<Rightarrow> let (y, h1) = c h x; (b, h2) = alloc (mk y) h1 in (Some b, h2)))"

definition view_ptr ::
  "('m heap \<Rightarrow> 'a \<Rightarrow> 'v option) \<Rightarrow> ('m cell \<Rightarrow> 'a option) \<Rightarrow> 'm heap \<Rightarrow> addr option \<Rightarrow> 'v option option" where
  "view_ptr v get h p =
     (case p of None \<Rightarrow> Some None
      | Some a \<Rightarrow> map_option Some (Option.bind (Option.bind (store h a) get) (v h)))"

definition reach_ptr ::
  "('m heap \<Rightarrow> 'a \<Rightarrow> addr set) \<Rightarrow> ('m cell \<Rightarrow> 'a option) \<Rightarrow> 'm heap \<Rightarrow> addr option \<Rightarrow> addr set" where
  "reach_ptr r get h p =
     (case p of None \<Rightarrow> {}
      | Some a \<Rightarrow> insert a (case Option.bind (store h a) get of None \<Rightarrow> {} | Some x \<Rightarrow> r h x))"

lemma view_ptr_Some:
  "view_ptr v get h p = Some z \<longleftrightarrow> (case p of None \<Rightarrow> z = None
     | Some a \<Rightarrow> \<exists>x y. Option.bind (store h a) get = Some x \<and> v h x = Some y \<and> z = Some y)"
  by (auto simp: view_ptr_def bind_eq_Some_conv split: option.splits)

lemma copier_ptr:
  assumes c: "copier c v r" and get_mk: "\<And>x. get (mk x) = Some x"
  shows "copier (copy_ptr c mk get) (view_ptr v get) (reach_ptr r get)"
proof
  fix h :: "'a heap" and p q h' z
  assume wf: "wf_heap h" and cp: "copy_ptr c mk get h p = (q, h')"
  let ?held = "\<lambda>a. Option.bind (store h a) get"
  consider (nil) "q = p" "h' = h" "\<forall>a. p = Some a \<longrightarrow> ?held a = None"
    | (new) a x y h1 b where "p = Some a" "?held a = Some x" "c h x = (y, h1)" "alloc (mk y) h1 = (b, h')" "q = Some b"
    using cp by (auto simp: copy_ptr_def split: option.splits prod.splits)
  note cases = this
  show "extends h h' \<and> wf_heap h'"
  proof (cases rule: cases)
    case new
    from copier.grows [OF c wf new(3)] alloc_facts [OF new(4)] show ?thesis by (blast intro: extends_trans)
  qed (use wf in auto)
  assume vp: "view_ptr v get h p = Some z"
  show "view_ptr v get h' q = Some z" "reach_ptr r get h' q \<inter> {..<next_addr h} = {}"
  proof (atomize (full), cases rule: cases)
    case nil
    with vp have "p = None" by (auto simp: view_ptr_Some split: option.splits)
    with nil vp show "view_ptr v get h' q = Some z \<and> reach_ptr r get h' q \<inter> {..<next_addr h} = {}"
      by (simp add: reach_ptr_def view_ptr_def)
  next
    case new
    with vp obtain w where w: "v h x = Some w" "z = Some w" by (auto simp: view_ptr_Some)
    note g = copier.grows [OF c wf new(3)]
    note al = alloc_facts [OF new(4) conjunct2 [OF g]]
    note k = copier.kept_by_extension [OF c conjunct2 [OF g] copier.same [OF c wf w(1) new(3)] al(3)]
    have "b \<notin> {..<next_addr h}" using al(1) g by (simp add: extends_def)
    with copier.fresh [OF c wf w(1) new(3)] k al(2) new(5) w(2) get_mk
    show "view_ptr v get h' q = Some z \<and> reach_ptr r get h' q \<inter> {..<next_addr h} = {}"
      by (simp add: view_ptr_Some reach_ptr_def)
  qed
next
  fix h h' :: "'a heap" and p
  assume eq: "\<forall>x\<in>reach_ptr r get h p. store h' x = store h x"
  show "view_ptr v get h' p = view_ptr v get h p \<and> reach_ptr r get h' p = reach_ptr r get h p"
  proof (cases p)
    case (Some a)
    with eq have "store h' a = store h a" by (simp add: reach_ptr_def)
    moreover have "v h' x = v h x \<and> r h' x = r h x" if "Option.bind (store h a) get = Some x" for x
      using copier.local [OF c, of h x h'] eq Some that by (simp add: reach_ptr_def)
    ultimately show ?thesis
      by (cases "Option.bind (store h a) get") (simp_all add: Some view_ptr_def reach_ptr_def)
  qed (simp add: view_ptr_def reach_ptr_def)
next
  fix h :: "'a heap" and p z
  assume wf: "wf_heap h" and vp: "view_ptr v get h p = Some z"
  show "reach_ptr r get h p \<subseteq> {..<next_addr h}"
  proof (cases p)
    case (Some a)
    with vp obtain x y where x: "Option.bind (store h a) get = Some x" "v h x = Some y"
      by (auto simp: view_ptr_Some)
    then have "a < next_addr h" using wf by (auto simp: wf_heap_def bind_eq_Some_conv)
    with copier.below [OF c wf x(2)] x(1) Some show ?thesis by (simp add: reach_ptr_def)
  qed (simp add: reach_ptr_def)
qed

text \<open>The elements of a slice, one after the other.\<close>

fun copy_items :: "('m heap \<Rightarrow> 'a \<Rightarrow> 'a \<times> 'm heap) \<Rightarrow> 'm heap \<Rightarrow> 'a list \<Rightarrow> 'a list \<times> 'm heap" where
  "copy_items c h [] = ([], h)"
| "copy_items c h (x # xs) =
     (let (y, h1) = c h x; (ys, h2) = copy_items c h1 xs in (y # ys, h2))"

fun view_items :: "('h \<Rightarrow> 'a \<Rightarrow> 'v option) \<Rightarrow> 'h \<Rightarrow> 'a list \<Rightarrow> 'v list option" where
  "view_items v h [] = Some []"
| "view_items v h (x # xs) = 
     (case v h x of None \<Rightarrow> None | Some y \<Rightarrow> map_option (Cons y) (view_items v h xs))"

definition reach_items :: "('h \<Rightarrow> 'a \<Rightarrow> addr set) \<Rightarrow> 'h \<Rightarrow> 'a list \<Rightarrow> addr set" where
  "reach_items r h xs = (\<Union>x\<in>set xs. r h x)"

lemma view_items_Cons:
  "view_items v h (x # xs) = Some z \<longleftrightarrow> (\<exists>y ys. v h x = Some y \<and> view_items v h xs = Some ys \<and> z = y # ys)"
  by (auto split: option.splits)

lemma copy_items_length: "copy_items c h xs = (ys, h') \<Longrightarrow> length ys = length xs"
  by (induction xs arbitrary: h ys) (auto split: prod.splits)

lemma copy_items_grows:
  assumes c: "copier c v r"
  shows "wf_heap h \<Longrightarrow> copy_items c h xs = (ys, h') \<Longrightarrow> extends h h' \<and> wf_heap h'"
proof (induction xs arbitrary: h ys)
  case (Cons x xs)
  obtain y h1 where x: "c h x = (y, h1)" by (cases "c h x")
  with Cons.prems obtain zs where "copy_items c h1 xs = (zs, h')" by (auto split: prod.splits)
  with Cons.IH copier.grows [OF c Cons.prems(1) x] show ?case by (blast intro: extends_trans)
qed simp

lemma items_local:
  assumes c: "copier c v r"
  shows "\<forall>a\<in>reach_items r h xs. store h' a = store h a \<Longrightarrow>
    view_items v h' xs = view_items v h xs \<and> reach_items r h' xs = reach_items r h xs"
proof (induction xs)
  case (Cons x xs)
  then have "v h' x = v h x \<and> r h' x = r h x" by (intro copier.local [OF c]) (simp add: reach_items_def)
  moreover from Cons have "view_items v h' xs = view_items v h xs \<and> reach_items r h' xs = reach_items r h xs"
    by (simp add: reach_items_def)
  ultimately show ?case by (simp add: reach_items_def cong: option.case_cong)
qed (simp add: reach_items_def)

lemma items_below:
  assumes c: "copier c v r" and wf: "wf_heap h"
  shows "view_items v h xs = Some z \<Longrightarrow> reach_items r h xs \<subseteq> {..<next_addr h}"
proof (induction xs arbitrary: z)
  case (Cons x xs)
  then obtain y ys where "v h x = Some y" "view_items v h xs = Some ys" by (auto simp: view_items_Cons simp del: view_items.simps)
  with Cons.IH copier.below [OF c wf] show ?case by (auto simp: reach_items_def)
qed (simp add: reach_items_def)

lemma copy_items_same:
  assumes c: "copier c v r"
  shows "wf_heap h \<Longrightarrow> view_items v h xs = Some z \<Longrightarrow> copy_items c h xs = (ys, h') \<Longrightarrow>
    view_items v h' ys = Some z \<and> reach_items r h' ys \<inter> {..<next_addr h} = {}"
proof (induction xs arbitrary: h ys z)
  case (Cons x xs)
  obtain y h1 where x: "c h x = (y, h1)" by (cases "c h x")
  with Cons.prems(3) obtain zs where xs: "copy_items c h1 xs = (zs, h')" and ys: "ys = y # zs"
    by (auto split: prod.splits)
  from Cons.prems(2) obtain w ws where w: "v h x = Some w" and ws: "view_items v h xs = Some ws" and z: "z = w # ws"
    by (auto simp: view_items_Cons simp del: view_items.simps)
  note g = copier.grows [OF c Cons.prems(1) x]
  note g' = copy_items_grows [OF c conjunct2 [OF g] xs]
  have "\<forall>a\<in>reach_items r h xs. store h1 a = store h a"
    using items_below [OF c Cons.prems(1) ws] g by (auto simp: extends_def)
  then have ws1: "view_items v h1 xs = Some ws" using items_local [OF c, of h xs h1] ws by simp
  note IH = Cons.IH [OF conjunct2 [OF g] ws1 xs]
  note k = copier.kept_by_extension [OF c conjunct2 [OF g] copier.same [OF c Cons.prems(1) w x] conjunct1 [OF g']]
  have "next_addr h \<le> next_addr h1" using g by (simp add: extends_def)
  with IH k(2) copier.fresh [OF c Cons.prems(1) w x]
  have "reach_items r h' ys \<inter> {..<next_addr h} = {}"
    by (auto simp: ys reach_items_def disjoint_iff)
  with IH k(1) show ?case by (simp add: ys z view_items_Cons del: view_items.simps)
qed (simp add: reach_items_def)

lemma copier_items:
  assumes c: "copier c v r"
  shows "copier (copy_items c) (view_items v) (reach_items r)"
  by unfold_locales
    (use copy_items_grows [OF c] copy_items_same [OF c] items_local [OF c] items_below [OF c] in blast)+

text \<open>A struct without pointers is copied by assignment.\<close>

definition copy_flat :: "'m heap \<Rightarrow> 'a \<Rightarrow> 'a \<times> 'm heap" where
  "copy_flat h x = (x, h)"

definition view_flat :: "'h \<Rightarrow> 'a \<Rightarrow> 'a option" where
  "view_flat h x = Some x"

definition reach_flat :: "'h \<Rightarrow> 'a \<Rightarrow> addr set" where
  "reach_flat h x = {}"

interpretation flat: copier copy_flat view_flat reach_flat
  by unfold_locales (simp_all add: copy_flat_def view_flat_def reach_flat_def)

end
