(* ===== verification/Deep_Copy.thy ===== *)
theory Deep_Copy
  imports Go_Heap
begin

section \<open>The hand-written deep copies of package api/v1alpha1\<close>

text \<open>
  The \<open>DeepCopyInto\<close> and \<open>DeepCopy\<close> methods of \<open>gitapplication_types.go\<close> on the heap of \<open>Go_Heap\<close>, and
  \<open>setCondition\<close> of the controller as it works on memory: it overwrites an element of the backing array in
  place. The controller takes a deep copy as the base of every status patch and then changes the object it
  copied; that the base keeps its value is what the value-level model of \<open>Status\<close> takes for granted.
  The deep copy of \<open>metav1.ObjectMeta\<close> is apimachinery's: a parameter with the contract \<open>copier\<close>. How much spare
  capacity an allocation gets, and what is in it, is the runtime's choice: a parameter.
\<close>

subsection \<open>Slices\<close>

record go_runtime =
  spare_strings :: "nat \<Rightarrow> string list"
  spare_refs :: "nat \<Rightarrow> resource_reference list"
  spare_conditions :: "nat \<Rightarrow> condition list"

definition slice_elems :: "('m cell \<Rightarrow> 'e list option) \<Rightarrow> 'm heap \<Rightarrow> slice \<Rightarrow> 'e list option" where
  "slice_elems get h s =
     (case s of NilSlice \<Rightarrow> Some []
      | Slice a n \<Rightarrow> (case Option.bind (store h a) get of
          None \<Rightarrow> None
        | Some xs \<Rightarrow> if n \<le> length xs then Some (take n xs) else None))"

definition slice_reach :: "'m heap \<Rightarrow> slice \<Rightarrow> addr set" where
  "slice_reach h s = (case s of NilSlice \<Rightarrow> {} | Slice a n \<Rightarrow> {a})"

text \<open>\<open>append([]T(nil), s...)\<close>: of no elements it is nil.\<close>

definition append_nil ::
  "('e list \<Rightarrow> 'm cell) \<Rightarrow> ('m cell \<Rightarrow> 'e list option) \<Rightarrow> (nat \<Rightarrow> 'e list) \<Rightarrow> 'm heap \<Rightarrow> slice \<Rightarrow> slice \<times> 'm heap" where
  "append_nil mk get spare h s =
     (case slice_elems get h s of
        None \<Rightarrow> (s, h)
      | Some xs \<Rightarrow>
          if xs = [] then (NilSlice, h)
          else let (a, h') = alloc (mk (xs @ spare (length xs))) h in (Slice a (length xs), h'))"

definition copy_slice ::
  "('e list \<Rightarrow> 'm cell) \<Rightarrow> ('m cell \<Rightarrow> 'e list option) \<Rightarrow> (nat \<Rightarrow> 'e list) \<Rightarrow> 'm heap \<Rightarrow> slice \<Rightarrow> slice \<times> 'm heap" where
  "copy_slice mk get spare h s = (if s \<noteq> NilSlice then append_nil mk get spare h s else (s, h))"

lemma copier_slice:
  assumes get_mk: "\<And>xs. get (mk xs) = Some xs"
  shows "copier (copy_slice mk get spare) (slice_elems get) slice_reach"
proof
  fix h :: "'b heap" and s t h' z
  assume wf: "wf_heap h" and cp: "copy_slice mk get spare h s = (t, h')"
  consider (same) "t = s" "h' = h" "\<forall>z. slice_elems get h s = Some z \<longrightarrow> s = NilSlice"
    | (none) "t = NilSlice" "h' = h" "slice_elems get h s = Some []"
    | (new) xs a where "slice_elems get h s = Some xs" "alloc (mk (xs @ spare (length xs))) h = (a, h')" "t = Slice a (length xs)"
    using cp by (auto simp: copy_slice_def append_nil_def split: if_splits option.splits prod.splits)
  note cases = this
  show "extends h h' \<and> wf_heap h'"
    by (cases rule: cases) (use wf alloc_facts in auto)
  assume "slice_elems get h s = Some z"
  then show "slice_elems get h' t = Some z" "slice_reach h' t \<inter> {..<next_addr h} = {}"
    by (atomize (full), cases rule: cases)
      (use alloc_facts [OF _ wf] get_mk in \<open>auto simp: slice_elems_def slice_reach_def\<close>)
next
  fix h h' :: "'b heap" and s
  assume "\<forall>x\<in>slice_reach h s. store h' x = store h x"
  then show "slice_elems get h' s = slice_elems get h s \<and> slice_reach h' s = slice_reach h s"
    by (cases s) (simp_all add: slice_elems_def slice_reach_def)
next
  fix h :: "'b heap" and s z
  assume "wf_heap h" and "slice_elems get h s = Some z"
  then show "slice_reach h s \<subseteq> {..<next_addr h}"
    by (auto simp: slice_elems_def slice_reach_def wf_heap_def bind_eq_Some_conv split: slice.splits option.splits)
qed

fun get_strings :: "'m cell \<Rightarrow> string list option" where
  "get_strings (StringsCell xs) = Some xs" | "get_strings _ = None"
fun get_refs :: "'m cell \<Rightarrow> resource_reference list option" where
  "get_refs (RefsCell xs) = Some xs" | "get_refs _ = None"
fun get_conditions :: "'m cell \<Rightarrow> condition list option" where
  "get_conditions (ConditionsCell xs) = Some xs" | "get_conditions _ = None"
fun get_secretRef :: "'m cell \<Rightarrow> string option" where
  "get_secretRef (SecretRefCell x) = Some x" | "get_secretRef _ = None"
fun get_helm :: "'m cell \<Rightarrow> heap_helm option" where
  "get_helm (HelmCell x) = Some x" | "get_helm _ = None"
fun get_time :: "'m cell \<Rightarrow> time option" where
  "get_time (TimeCell x) = Some x" | "get_time _ = None"
fun get_app :: "'m cell \<Rightarrow> 'm heap_app option" where
  "get_app (AppCell x) = Some x" | "get_app _ = None"
fun get_list :: "'m cell \<Rightarrow> heap_app_list option" where
  "get_list (ListCell x) = Some x" | "get_list _ = None"
fun get_ref :: "'m cell \<Rightarrow> resource_reference option" where
  "get_ref (RefCell x) = Some x" | "get_ref _ = None"
fun get_items :: "'m cell \<Rightarrow> 'm heap_app list option" where
  "get_items (ItemsCell x) = Some x" | "get_items _ = None"


subsection \<open>GitApplicationSpec\<close>

definition copy_helm :: "go_runtime \<Rightarrow> 'm heap \<Rightarrow> heap_helm \<Rightarrow> heap_helm \<times> 'm heap" where
  "copy_helm g h helm =
     (let (files, h1) = copy_slice StringsCell get_strings (spare_strings g) h (hh_valuesFiles helm)
      in (helm\<lparr>hh_valuesFiles := files\<rparr>, h1))"

definition GitApplicationSpec_DeepCopyInto :: "go_runtime \<Rightarrow> 'm heap \<Rightarrow> heap_spec \<Rightarrow> heap_spec \<times> 'm heap" where
  "GitApplicationSpec_DeepCopyInto g h spec =
     (let (ref, h1) = copy_ptr copy_flat SecretRefCell get_secretRef h (hs_secretRef spec);
          (helm, h2) = copy_ptr (copy_helm g) HelmCell get_helm h1 (hs_helm spec);
          (kinds, h3) = copy_slice StringsCell get_strings (spare_strings g) h2 (hs_allowedClusterScopedKinds spec)
      in (spec\<lparr>hs_secretRef := ref, hs_helm := helm, hs_allowedClusterScopedKinds := kinds\<rparr>, h3))"

definition helm_build :: "heap_helm \<Rightarrow> string list \<Rightarrow> helm_render_spec" where
  "helm_build helm files =
     \<lparr>hr_releaseName = hh_releaseName helm, hr_valuesFiles = files, hr_includeCRDs = hh_includeCRDs helm\<rparr>"

definition helm_view :: "'m heap \<Rightarrow> heap_helm \<Rightarrow> helm_render_spec option" where
  "helm_view h helm = map_option (helm_build helm) (slice_elems get_strings h (hh_valuesFiles helm))"

definition helm_reach :: "'m heap \<Rightarrow> heap_helm \<Rightarrow> addr set" where
  "helm_reach h helm = slice_reach h (hh_valuesFiles helm)"

definition spec_parts :: "heap_spec \<Rightarrow> addr option \<times> addr option \<times> slice" where
  "spec_parts s = (hs_secretRef s, hs_helm s, hs_allowedClusterScopedKinds s)"

fun spec_build :: "heap_spec \<Rightarrow> string option \<times> helm_render_spec option \<times> string list \<Rightarrow> git_application_spec" where
  "spec_build s (ref, helm, kinds) =
     \<lparr>spec_source = \<lparr>src_repository = hs_repository s, src_revision = hs_revision s, src_path = hs_path s, src_secretRef = ref\<rparr>,
      spec_destination = hs_destination s,
      spec_render = \<lparr>rd_type = hs_renderType s, rd_helm = helm\<rparr>,
      spec_allowedClusterScopedKinds = kinds,
      spec_takeoverExistingResources = hs_takeoverExistingResources s,
      spec_interval = hs_interval s, spec_prune = hs_prune s, spec_suspend = hs_suspend s\<rparr>"

definition spec_view :: "'m heap \<Rightarrow> heap_spec \<Rightarrow> git_application_spec option" where
  "spec_view h s = map_option (spec_build s)
     (view_pair (view_ptr view_flat get_secretRef) (view_pair (view_ptr helm_view get_helm) (slice_elems get_strings)) h (spec_parts s))"

definition spec_reach :: "'m heap \<Rightarrow> heap_spec \<Rightarrow> addr set" where
  "spec_reach h s =
     reach_pair (reach_ptr reach_flat get_secretRef) (reach_pair (reach_ptr helm_reach get_helm) slice_reach) h (spec_parts s)"

interpretation helm_copy: copier "copy_helm g" helm_view helm_reach
  by (rule copier_part [OF copier_slice [where mk = StringsCell and get = get_strings and spare = "spare_strings g"],
        where get = hh_valuesFiles and build = helm_build and put = "\<lambda>s x. s\<lparr>hh_valuesFiles := x\<rparr>"])
    (simp_all add: copy_helm_def helm_view_def helm_reach_def helm_build_def)

interpretation spec_copy: copier "GitApplicationSpec_DeepCopyInto g" spec_view spec_reach
  by (rule copier_part [OF copier_pair [OF copier_ptr [OF flat.copier_axioms, where mk = SecretRefCell and get = get_secretRef]
          copier_pair [OF copier_ptr [OF helm_copy.copier_axioms, where mk = HelmCell and get = get_helm and g1 = g]
            copier_slice [where mk = StringsCell and get = get_strings and spare = "spare_strings g"]]],
        where get = spec_parts and build = spec_build
          and put = "\<lambda>s (x, y, z). s\<lparr>hs_secretRef := x, hs_helm := y, hs_allowedClusterScopedKinds := z\<rparr>"])
    (auto simp: GitApplicationSpec_DeepCopyInto_def spec_view_def spec_reach_def spec_parts_def copy_pair_def split: prod.splits)



subsection \<open>GitApplicationStatus\<close>

definition GitApplicationStatus_DeepCopyInto :: "go_runtime \<Rightarrow> 'm heap \<Rightarrow> heap_status \<Rightarrow> heap_status \<times> 'm heap" where
  "GitApplicationStatus_DeepCopyInto g h st =
     (let (attempt, h1) = copy_ptr copy_flat TimeCell get_time h (ht_lastAttemptTime st);
          (success, h2) = copy_ptr copy_flat TimeCell get_time h1 (ht_lastSuccessTime st);
          (inventory, h3) = copy_slice RefsCell get_refs (spare_refs g) h2 (ht_inventory st);
          (conditions, h4) = copy_slice ConditionsCell get_conditions (spare_conditions g) h3 (ht_conditions st)
      in (st\<lparr>ht_lastAttemptTime := attempt, ht_lastSuccessTime := success, ht_inventory := inventory,
             ht_conditions := conditions\<rparr>, h4))"

definition status_parts :: "heap_status \<Rightarrow> addr option \<times> addr option \<times> slice \<times> slice" where
  "status_parts st = (ht_lastAttemptTime st, ht_lastSuccessTime st, ht_inventory st, ht_conditions st)"

fun status_build ::
  "heap_status \<Rightarrow> time option \<times> time option \<times> resource_reference list \<times> condition list \<Rightarrow> git_application_status" where
  "status_build st (attempt, success, inventory, conditions) =
     \<lparr>st_observedGeneration = ht_observedGeneration st, st_attemptedRevision = ht_attemptedRevision st,
      st_appliedRevision = ht_appliedRevision st, st_lastAttemptTime = attempt, st_lastSuccessTime = success,
      st_inventory = inventory, st_conditions = conditions\<rparr>"

definition status_view :: "'m heap \<Rightarrow> heap_status \<Rightarrow> git_application_status option" where
  "status_view h st = map_option (status_build st)
     (view_pair (view_ptr view_flat get_time) (view_pair (view_ptr view_flat get_time)
        (view_pair (slice_elems get_refs) (slice_elems get_conditions))) h (status_parts st))"

definition status_reach :: "'m heap \<Rightarrow> heap_status \<Rightarrow> addr set" where
  "status_reach h st =
     reach_pair (reach_ptr reach_flat get_time) (reach_pair (reach_ptr reach_flat get_time)
        (reach_pair slice_reach slice_reach)) h (status_parts st)"

interpretation status_copy: copier "GitApplicationStatus_DeepCopyInto g" status_view status_reach
  by (rule copier_part [OF copier_pair [OF copier_ptr [OF flat.copier_axioms, where mk = TimeCell and get = get_time]
          copier_pair [OF copier_ptr [OF flat.copier_axioms, where mk = TimeCell and get = get_time]
            copier_pair [OF copier_slice [where mk = RefsCell and get = get_refs and spare = "spare_refs g"]
              copier_slice [where mk = ConditionsCell and get = get_conditions and spare = "spare_conditions g"]]]],
        where get = status_parts and build = status_build
          and put = "\<lambda>s (x, y, z, w). s\<lparr>ht_lastAttemptTime := x, ht_lastSuccessTime := y, ht_inventory := z, ht_conditions := w\<rparr>"])
    (auto simp: GitApplicationStatus_DeepCopyInto_def status_view_def status_reach_def status_parts_def copy_pair_def
       split: prod.splits)


subsection \<open>GitApplication and GitApplicationList\<close>

text \<open>\<open>metaCopy\<close> stands for \<open>ObjectMeta.DeepCopyInto\<close>. The methods for a nil receiver return nil.\<close>

definition GitApplication_DeepCopyInto ::
  "go_runtime \<Rightarrow> ('m heap \<Rightarrow> 'm \<Rightarrow> 'm \<times> 'm heap) \<Rightarrow> 'm heap \<Rightarrow> 'm heap_app \<Rightarrow> 'm heap_app \<times> 'm heap" where
  "GitApplication_DeepCopyInto g metaCopy h app =
     (let (meta, h1) = metaCopy h (ha_meta app);
          (spec, h2) = GitApplicationSpec_DeepCopyInto g h1 (ha_spec app);
          (status, h3) = GitApplicationStatus_DeepCopyInto g h2 (ha_status app)
      in (app\<lparr>ha_meta := meta, ha_spec := spec, ha_status := status\<rparr>, h3))"

definition GitApplication_DeepCopy ::
  "go_runtime \<Rightarrow> ('m heap \<Rightarrow> 'm \<Rightarrow> 'm \<times> 'm heap) \<Rightarrow> 'm heap \<Rightarrow> addr option \<Rightarrow> addr option \<times> 'm heap" where
  "GitApplication_DeepCopy g metaCopy = copy_ptr (GitApplication_DeepCopyInto g metaCopy) AppCell get_app"

definition app_parts :: "'m heap_app \<Rightarrow> 'm \<times> heap_spec \<times> heap_status" where
  "app_parts app = (ha_meta app, ha_spec app, ha_status app)"

definition app_view ::
  "('m heap \<Rightarrow> 'm \<Rightarrow> 'w option) \<Rightarrow> 'm heap \<Rightarrow> 'm heap_app
     \<Rightarrow> ((string \<times> string) \<times> 'w \<times> git_application_spec \<times> git_application_status) option" where
  "app_view mv h app = map_option (Pair (ha_kind app, ha_apiVersion app))
     (view_pair mv (view_pair spec_view status_view) h (app_parts app))"

definition app_reach :: "('m heap \<Rightarrow> 'm \<Rightarrow> addr set) \<Rightarrow> 'm heap \<Rightarrow> 'm heap_app \<Rightarrow> addr set" where
  "app_reach mr h app = reach_pair mr (reach_pair spec_reach status_reach) h (app_parts app)"

lemma copier_app:
  assumes "copier metaCopy mv mr"
  shows "copier (GitApplication_DeepCopyInto g metaCopy) (app_view mv) (app_reach mr)"
  by (rule copier_part [OF copier_pair [OF assms copier_pair [OF spec_copy.copier_axioms [of g] status_copy.copier_axioms [of g]]],
        where get = app_parts and build = "\<lambda>app. Pair (ha_kind app, ha_apiVersion app)"
          and put = "\<lambda>s (x, y, z). s\<lparr>ha_meta := x, ha_spec := y, ha_status := z\<rparr>"])
    (auto simp: GitApplication_DeepCopyInto_def app_view_def app_reach_def app_parts_def copy_pair_def split: prod.splits)

lemma copier_app_ptr:
  assumes "copier metaCopy mv mr"
  shows "copier (GitApplication_DeepCopy g metaCopy) (view_ptr (app_view mv) get_app) (reach_ptr (app_reach mr) get_app)"
  unfolding GitApplication_DeepCopy_def by (rule copier_ptr [OF copier_app [OF assms]]) simp

definition GitApplication_DeepCopyObject ::
  "go_runtime \<Rightarrow> ('m heap \<Rightarrow> 'm \<Rightarrow> 'm \<times> 'm heap) \<Rightarrow> 'm heap \<Rightarrow> addr option \<Rightarrow> addr option \<times> 'm heap" where
  "GitApplication_DeepCopyObject g metaCopy = copy_ptr (GitApplication_DeepCopyInto g metaCopy) AppCell get_app"

text \<open>The items of a list: a new array of copies.\<close>

definition copy_app_items ::
  "go_runtime \<Rightarrow> ('m heap \<Rightarrow> 'm \<Rightarrow> 'm \<times> 'm heap) \<Rightarrow> 'm heap \<Rightarrow> slice \<Rightarrow> slice \<times> 'm heap" where
  "copy_app_items g metaCopy h s =
     (if s \<noteq> NilSlice then
        (case slice_elems get_items h s of
           None \<Rightarrow> (s, h)
         | Some xs \<Rightarrow>
             let (ys, h1) = copy_items (GitApplication_DeepCopyInto g metaCopy) h xs;
                 (a, h2) = alloc (ItemsCell ys) h1
             in (Slice a (length xs), h2))
      else (s, h))"

definition items_view where
  "items_view mv h s = (case slice_elems get_items h s of None \<Rightarrow> None | Some xs \<Rightarrow> view_items (app_view mv) h xs)"

definition items_reach where
  "items_reach mr h s = slice_reach h s
     \<union> (case slice_elems get_items h s of None \<Rightarrow> {} | Some xs \<Rightarrow> reach_items (app_reach mr) h xs)"

lemma slice_elems_kept:
  "\<forall>x\<in>slice_reach h s. store h' x = store h x \<Longrightarrow> slice_elems get h' s = slice_elems get h s \<and> slice_reach h' s = slice_reach h s"
  by (cases s) (simp_all add: slice_elems_def slice_reach_def)

lemma slice_reach_below: "wf_heap h \<Longrightarrow> slice_elems get h s = Some z \<Longrightarrow> slice_reach h s \<subseteq> {..<next_addr h}"
  by (auto simp: slice_elems_def slice_reach_def wf_heap_def bind_eq_Some_conv split: slice.splits option.splits)

lemma copier_app_items:
  assumes m: "copier metaCopy mv mr"
  shows "copier (copy_app_items g metaCopy) (items_view mv) (items_reach mr)"
proof
  note ci = copier_items [OF copier_app [OF m, of g]]
  fix h :: "'a heap" and s t h' z
  assume wf: "wf_heap h" and cp: "copy_app_items g metaCopy h s = (t, h')"
  consider (same) "t = s" "h' = h" "\<forall>xs. slice_elems get_items h s = Some xs \<longrightarrow> s = NilSlice"
    | (new) xs ys h1 a where "slice_elems get_items h s = Some xs" "t = Slice a (length xs)"
        "copy_items (GitApplication_DeepCopyInto g metaCopy) h xs = (ys, h1)" "alloc (ItemsCell ys) h1 = (a, h')"
    using cp by (auto simp: copy_app_items_def split: if_splits option.splits prod.splits)
  note cases = this
  show "extends h h' \<and> wf_heap h'"
  proof (cases rule: cases)
    case new
    from copier.grows [OF ci wf new(3)] alloc_facts [OF new(4)] show ?thesis by (blast intro: extends_trans)
  qed (use wf in auto)
  assume v: "items_view mv h s = Some z"
  show "items_view mv h' t = Some z" "items_reach mr h' t \<inter> {..<next_addr h} = {}"
  proof (atomize (full), cases rule: cases)
    case same
    with v have "s = NilSlice" by (auto simp: items_view_def split: option.splits)
    with v same show "items_view mv h' t = Some z \<and> items_reach mr h' t \<inter> {..<next_addr h} = {}"
      by (simp add: items_view_def items_reach_def slice_elems_def slice_reach_def reach_items_def)
  next
    case new
    from v new(1) have vi: "view_items (app_view mv) h xs = Some z" by (simp add: items_view_def)
    note g = copier.grows [OF ci wf new(3)]
    note al = alloc_facts [OF new(4) conjunct2 [OF g]]
    note k = copier.kept_by_extension [OF ci conjunct2 [OF g] copier.same [OF ci wf vi new(3)] al(3)]
    have "slice_elems get_items h' t = Some ys"
      using al(2) copy_items_length [OF new(3)] by (simp add: new(2) slice_elems_def)
    moreover have "a \<notin> {..<next_addr h}" using al(1) g by (simp add: extends_def)
    ultimately show "items_view mv h' t = Some z \<and> items_reach mr h' t \<inter> {..<next_addr h} = {}"
      using copier.fresh [OF ci wf vi new(3)] k by (simp add: items_view_def items_reach_def slice_reach_def new(2))
  qed
next
  fix h h' :: "'a heap" and s
  assume eq: "\<forall>x\<in>items_reach mr h s. store h' x = store h x"
  then have e: "slice_elems get_items h' s = slice_elems get_items h s \<and> slice_reach h' s = slice_reach h s"
    by (intro slice_elems_kept) (simp add: items_reach_def)
  show "items_view mv h' s = items_view mv h s \<and> items_reach mr h' s = items_reach mr h s"
  proof (cases "slice_elems get_items h s")
    case (Some xs)
    with eq have "\<forall>x\<in>reach_items (app_reach mr) h xs. store h' x = store h x" by (simp add: items_reach_def)
    from copier.local [OF copier_items [OF copier_app [OF m, of g]] this] e Some show ?thesis
      by (simp add: items_view_def items_reach_def)
  qed (use e in \<open>simp add: items_view_def items_reach_def\<close>)
next
  fix h :: "'a heap" and s z
  assume wf: "wf_heap h" and "items_view mv h s = Some z"
  then obtain xs where "slice_elems get_items h s = Some xs" "view_items (app_view mv) h xs = Some z"
    by (auto simp: items_view_def split: option.splits)
  with slice_reach_below [OF wf] copier.below [OF copier_items [OF copier_app [OF m, of g]] wf]
  show "items_reach mr h s \<subseteq> {..<next_addr h}" by (simp add: items_reach_def)
qed

text \<open>
  Of the list's own metadata only the struct is copied, by the assignment; what it points to stays shared.
\<close>

definition GitApplicationList_DeepCopyInto ::
  "go_runtime \<Rightarrow> ('m heap \<Rightarrow> 'm \<Rightarrow> 'm \<times> 'm heap) \<Rightarrow> 'm heap
     \<Rightarrow> heap_app_list \<Rightarrow> heap_app_list \<times> 'm heap" where
  "GitApplicationList_DeepCopyInto g metaCopy h l =
     (let (items, h1) = copy_app_items g metaCopy h (hl_items l) in (l\<lparr>hl_items := items\<rparr>, h1))"

definition list_view where
  "list_view mv h l = map_option (Pair (hl_kind l, hl_apiVersion l, hl_listMeta l)) (items_view mv h (hl_items l))"

definition list_reach where
  "list_reach mr h l = items_reach mr h (hl_items l)"

lemma copier_list:
  assumes "copier metaCopy mv mr"
  shows "copier (GitApplicationList_DeepCopyInto g metaCopy) (list_view mv) (list_reach mr)"
  by (rule copier_part [OF copier_app_items [OF assms], where get = hl_items
        and build = "\<lambda>l. Pair (hl_kind l, hl_apiVersion l, hl_listMeta l)" and put = "\<lambda>l x. l\<lparr>hl_items := x\<rparr>"])
    (simp_all add: GitApplicationList_DeepCopyInto_def list_view_def list_reach_def)

definition GitApplicationList_DeepCopy ::
  "go_runtime \<Rightarrow> ('m heap \<Rightarrow> 'm \<Rightarrow> 'm \<times> 'm heap) \<Rightarrow> 'm heap \<Rightarrow> addr option \<Rightarrow> addr option \<times> 'm heap" where
  "GitApplicationList_DeepCopy g metaCopy = copy_ptr (GitApplicationList_DeepCopyInto g metaCopy) ListCell get_list"

definition GitApplicationList_DeepCopyObject ::
  "go_runtime \<Rightarrow> ('m heap \<Rightarrow> 'm \<Rightarrow> 'm \<times> 'm heap) \<Rightarrow> 'm heap \<Rightarrow> addr option \<Rightarrow> addr option \<times> 'm heap" where
  "GitApplicationList_DeepCopyObject g metaCopy = copy_ptr (GitApplicationList_DeepCopyInto g metaCopy) ListCell get_list"

lemma copier_list_ptr:
  assumes "copier metaCopy mv mr"
  shows "copier (GitApplicationList_DeepCopy g metaCopy) (view_ptr (list_view mv) get_list) (reach_ptr (list_reach mr) get_list)"
  unfolding GitApplicationList_DeepCopy_def by (rule copier_ptr [OF copier_list [OF assms]]) simp


subsection \<open>ResourceReference\<close>

text \<open>A struct of strings: the assignment is the whole copy, into the struct that \<open>out\<close> points to.\<close>

definition ResourceReference_DeepCopyInto :: "'m heap \<Rightarrow> addr \<Rightarrow> addr \<Rightarrow> 'm heap" where
  "ResourceReference_DeepCopyInto h src out =
     (case Option.bind (store h src) get_ref of
        None \<Rightarrow> h
      | Some ref \<Rightarrow> h\<lparr>store := (store h)(out \<mapsto> RefCell ref)\<rparr>)"

lemma ResourceReference_copied:
  assumes "store h src = Some (RefCell ref)" and "store h out \<noteq> None" and "wf_heap h"
  shows "store (ResourceReference_DeepCopyInto h src out) out = Some (RefCell ref)"
    and "x \<noteq> out \<Longrightarrow> store (ResourceReference_DeepCopyInto h src out) x = store h x"
    and "wf_heap (ResourceReference_DeepCopyInto h src out)"
  using assms by (auto simp: ResourceReference_DeepCopyInto_def wf_heap_def)

end
