(* ===== verification/Deep_Copy_Props.thy ===== *)
theory Deep_Copy_Props
  imports Deep_Copy
begin

section \<open>The base of a status patch keeps its value\<close>

text \<open>
  \<open>setCondition\<close> on memory refines \<open>setCondition\<close> of \<open>Status\<close>, writes only to the array behind the conditions
  of the object it is given, and so never to the deep copy that the status writers compare with.
\<close>

subsection \<open>setCondition on memory\<close>

fun cond_index :: "condition list \<Rightarrow> string \<Rightarrow> nat option" where
  "cond_index [] ty = None"
| "cond_index (x # xs) ty = (if cond_type x = ty then Some 0 else map_option Suc (cond_index xs ty))"

definition setCondition_mem ::
  "go_runtime \<Rightarrow> 'm heap \<Rightarrow> slice \<Rightarrow> condition \<Rightarrow> slice \<times> 'm heap" where
  "setCondition_mem g h s c =
     (case s of
        NilSlice \<Rightarrow> let (b, h') = alloc (ConditionsCell ([c] @ spare_conditions g 1)) h in (Slice b 1, h')
      | Slice a n \<Rightarrow> (case Option.bind (store h a) get_conditions of
          None \<Rightarrow> (s, h)
        | Some arr \<Rightarrow> (case cond_index (take n arr) (cond_type c) of
            Some i \<Rightarrow> (s, h\<lparr>store := (store h)(a \<mapsto> ConditionsCell (arr[i := c]))\<rparr>)
          | None \<Rightarrow>
              if n < length arr then (Slice a (Suc n), h\<lparr>store := (store h)(a \<mapsto> ConditionsCell (arr[n := c]))\<rparr>)
              else let (b, h') = alloc (ConditionsCell (arr @ [c] @ spare_conditions g (Suc n))) h
                   in (Slice b (Suc n), h'))))"

text \<open>\<open>setCondition(&app.Status.Conditions, c)\<close> for the application at \<open>p\<close>.\<close>

definition app_setCondition :: "go_runtime \<Rightarrow> addr \<Rightarrow> 'm heap \<Rightarrow> condition \<Rightarrow> 'm heap" where
  "app_setCondition g p h c =
     (case Option.bind (store h p) get_app of
        None \<Rightarrow> h
      | Some app \<Rightarrow>
          let (s, h1) = setCondition_mem g h (ht_conditions (ha_status app)) c
          in h1\<lparr>store := (store h1)(p \<mapsto> AppCell (app\<lparr>ha_status := (ha_status app)\<lparr>ht_conditions := s\<rparr>\<rparr>))\<rparr>)"

lemma setCondition_index:
  "setCondition xs c = (case cond_index xs (cond_type c) of None \<Rightarrow> xs @ [c] | Some i \<Rightarrow> xs[i := c])"
  by (induction xs) (auto split: option.splits)

lemma cond_index_less: "cond_index xs ty = Some i \<Longrightarrow> i < length xs"
  by (induction xs arbitrary: i) (auto split: if_splits)

lemma setCondition_mem_refines:
  assumes wf: "wf_heap h" and xs: "slice_elems get_conditions h s = Some xs"
    and m: "setCondition_mem g h s c = (t, h')"
  shows "slice_elems get_conditions h' t = Some (setCondition xs c) \<and> wf_heap h' \<and> next_addr h \<le> next_addr h'
    \<and> (\<forall>x<next_addr h. x \<notin> slice_reach h s \<longrightarrow> store h' x = store h x) \<and> slice_reach h' t \<subseteq> slice_reach h s \<union> {next_addr h..}"
proof (cases s)
  case NilSlice
  with xs have xs: "xs = []" by (simp add: slice_elems_def)
  from m NilSlice obtain b where al: "alloc (ConditionsCell ([c] @ spare_conditions g 1)) h = (b, h')" and t: "t = Slice b 1"
    by (auto simp: setCondition_mem_def split: prod.splits)
  from alloc_facts [OF al wf]
  show ?thesis
    by (simp add: slice_elems_def slice_reach_def extends_def t xs)
next
  case (Slice a n)
  with xs obtain arr where arr: "Option.bind (store h a) get_conditions = Some arr" and n: "n \<le> length arr" "xs = take n arr"
    by (auto simp: slice_elems_def split: option.splits if_splits)
  then have a: "a < next_addr h" using wf by (auto simp: wf_heap_def bind_eq_Some_conv)
  have upd: "wf_heap (h\<lparr>store := (store h)(a \<mapsto> z)\<rparr>)" for z
    using wf a by (auto simp: wf_heap_def)
  consider (found) i where "cond_index xs (cond_type c) = Some i" "t = s" "h' = h\<lparr>store := (store h)(a \<mapsto> ConditionsCell (arr[i := c]))\<rparr>"
    | (room) "cond_index xs (cond_type c) = None" "n < length arr" "t = Slice a (Suc n)"
        "h' = h\<lparr>store := (store h)(a \<mapsto> ConditionsCell (arr[n := c]))\<rparr>"
    | (full) b where "cond_index xs (cond_type c) = None" "n = length arr" "t = Slice b (Suc n)"
        "alloc (ConditionsCell (arr @ [c] @ spare_conditions g (Suc n))) h = (b, h')"
    using m arr n by (auto simp: setCondition_mem_def Slice split: option.splits if_splits prod.splits)
  then show ?thesis
  proof cases
    case found
    with cond_index_less [OF found(1)] n show ?thesis
      by (simp add: slice_elems_def slice_reach_def Slice upd setCondition_index take_update_swap)
  next
    case room
    then have "take (Suc n) (arr[n := c]) = xs @ [c]" by (simp add: n take_Suc_conv_app_nth)
    with room show ?thesis by (simp add: slice_elems_def slice_reach_def Slice upd setCondition_index)
  next
    case full
    with alloc_facts [OF full(4) wf] n show ?thesis
      by (simp add: slice_elems_def slice_reach_def setCondition_index extends_def)
  qed
qed

lemma app_setCondition_refines:
  assumes wf: "wf_heap h" and p: "store h p = Some (AppCell app)"
    and xs: "slice_elems get_conditions h (ht_conditions (ha_status app)) = Some xs"
  obtains s where "store (app_setCondition g p h c) p = Some (AppCell (app\<lparr>ha_status := (ha_status app)\<lparr>ht_conditions := s\<rparr>\<rparr>))"
    and "slice_elems get_conditions (app_setCondition g p h c) s = Some (setCondition xs c)"
    and "wf_heap (app_setCondition g p h c)" and "next_addr h \<le> next_addr (app_setCondition g p h c)"
    and "\<forall>x<next_addr h. x \<noteq> p \<and> x \<notin> slice_reach h (ht_conditions (ha_status app)) \<longrightarrow> store (app_setCondition g p h c) x = store h x"
    and "slice_reach h s \<subseteq> slice_reach h (ht_conditions (ha_status app)) \<union> {next_addr h..}"
proof -
  let ?s = "ht_conditions (ha_status app)"
  obtain s h1 where m: "setCondition_mem g h ?s c = (s, h1)" by (cases "setCondition_mem g h ?s c")
  let ?new = "AppCell (app\<lparr>ha_status := (ha_status app)\<lparr>ht_conditions := s\<rparr>\<rparr>)"
  have e: "app_setCondition g p h c = h1\<lparr>store := (store h1)(p \<mapsto> ?new)\<rparr>"
    by (simp add: app_setCondition_def p m)
  note r = setCondition_mem_refines [OF wf xs m]
  have below: "p < next_addr h" using wf p by (auto simp: wf_heap_def)
  have "p \<notin> slice_reach h ?s" using xs p by (auto simp: slice_elems_def slice_reach_def split: slice.splits)
  then have off: "p \<notin> slice_reach h1 s" using r below by auto
  then have "slice_elems get_conditions (h1\<lparr>store := (store h1)(p \<mapsto> ?new)\<rparr>) s = slice_elems get_conditions h1 s"
    by (cases s) (auto simp: slice_elems_def slice_reach_def)
  moreover have "wf_heap (h1\<lparr>store := (store h1)(p \<mapsto> ?new)\<rparr>)" using r below by (auto simp: wf_heap_def)
  moreover have "slice_reach h s = slice_reach h1 s" by (simp add: slice_reach_def)
  ultimately show thesis using r by (intro that [of s]) (auto simp: e)
qed


subsection \<open>Properties\<close>

text \<open>What the whole run of condition updates of a status writer leaves: the conditions, and every older cell but two.\<close>

lemma setConditions_refine:
  assumes "wf_heap h" and "store h p = Some (AppCell app)"
    and "slice_elems get_conditions h (ht_conditions (ha_status app)) = Some xs"
    and "m \<le> next_addr h" and "p < k" and "slice_reach h (ht_conditions (ha_status app)) \<subseteq> {..<k} \<union> {m..}"
  shows "(\<exists>s. store (foldl (app_setCondition g p) h cs) p = Some (AppCell (app\<lparr>ha_status := (ha_status app)\<lparr>ht_conditions := s\<rparr>\<rparr>))
      \<and> slice_elems get_conditions (foldl (app_setCondition g p) h cs) s = Some (foldl setCondition xs cs))
    \<and> (\<forall>x. k \<le> x \<and> x < m \<longrightarrow> store (foldl (app_setCondition g p) h cs) x = store h x)"
  using assms
proof (induction cs arbitrary: h app xs)
  case Nil
  then show ?case by (auto intro: exI [of _ "ht_conditions (ha_status app)"])
next
  case (Cons c cs)
  let ?h = "app_setCondition g p h c"
  from app_setCondition_refines [OF Cons.prems(1-3), of g c] obtain s
    where s: "store ?h p = Some (AppCell (app\<lparr>ha_status := (ha_status app)\<lparr>ht_conditions := s\<rparr>\<rparr>))"
      "slice_elems get_conditions ?h s = Some (setCondition xs c)" "wf_heap ?h" "next_addr h \<le> next_addr ?h"
      "\<forall>x<next_addr h. x \<noteq> p \<and> x \<notin> slice_reach h (ht_conditions (ha_status app)) \<longrightarrow> store ?h x = store h x"
      "slice_reach h s \<subseteq> slice_reach h (ht_conditions (ha_status app)) \<union> {next_addr h..}" .
  have "slice_reach ?h s = slice_reach h s" by (simp add: slice_reach_def)
  with s(6) Cons.prems(4,6) have "slice_reach ?h s \<subseteq> {..<k} \<union> {m..}" by fastforce
  with Cons.IH [OF s(3,1), of "setCondition xs c"] s(2,4) Cons.prems(4,5)
  have IH: "(\<exists>t. store (foldl (app_setCondition g p) ?h cs) p = Some (AppCell (app\<lparr>ha_status := (ha_status app)\<lparr>ht_conditions := t\<rparr>\<rparr>))
      \<and> slice_elems get_conditions (foldl (app_setCondition g p) ?h cs) t = Some (foldl setCondition (setCondition xs c) cs))
    \<and> (\<forall>x. k \<le> x \<and> x < m \<longrightarrow> store (foldl (app_setCondition g p) ?h cs) x = store ?h x)"
    by simp
  have "store ?h x = store h x" if "k \<le> x" "x < m" for x
    using s(5) that Cons.prems(4-6) by (metis (no_types, lifting) UnE atLeast_iff lessThan_iff not_le order_less_le_trans subsetD)
  with IH show ?case by simp
qed

text \<open>
  C38: \<open>DeepCopy\<close> of an application returns a new application with the same value that shares no memory with the
  one it was made from (\<open>ObjectMeta\<close> included, as far as apimachinery's copy keeps its contract), and it changes
  nothing that existed before; of nil it returns nil. Only a slice that is empty and not nil comes back nil.
\<close>

theorem deep_copy_shares_nothing:
  assumes "copier metaCopy mv mr" and "wf_heap h"
    and "view_ptr (app_view mv) get_app h p = Some v"
    and "GitApplication_DeepCopy g metaCopy h p = (q, h')"
  shows "view_ptr (app_view mv) get_app h' q = Some v
    \<and> reach_ptr (app_reach mr) get_app h' q \<inter> reach_ptr (app_reach mr) get_app h p = {}
    \<and> (\<forall>x<next_addr h. store h' x = store h x) \<and> (q = None \<longleftrightarrow> p = None)"
proof -
  note c = copier_app_ptr [OF assms(1), of g]
  have "q = None \<longleftrightarrow> p = None"
    using assms(3,4) by (cases p) (auto simp: GitApplication_DeepCopy_def copy_ptr_def view_ptr_Some split: prod.splits)
  with copier.grows [OF c assms(2,4)] copier.same [OF c assms(2-4)] copier.fresh [OF c assms(2-4)] copier.below [OF c assms(2,3)]
  show ?thesis by (auto simp: extends_def)
qed

text \<open>A sample: an application with conditions and a secret reference, whose metadata has no pointers.\<close>

definition s_app_cell :: "object_meta heap_app" where
  "s_app_cell = \<lparr>ha_kind = ''GitApplication'', ha_apiVersion = ''gitops.cabure.io/v1alpha1'',
     ha_meta = \<lparr>om_name = ''demo'', om_namespace = ''default'', om_uid = ''u1'', om_generation = 3, om_deletionTimestamp = None\<rparr>,
     ha_spec = \<lparr>hs_repository = ''https://x/y'', hs_revision = ''main'', hs_path = ''apps'', hs_secretRef = Some 0,
       hs_destination = \<lparr>dst_namespace = ''default''\<rparr>, hs_renderType = ''yaml'', hs_helm = None,
       hs_allowedClusterScopedKinds = NilSlice, hs_takeoverExistingResources = False, hs_interval = 0, hs_prune = True, hs_suspend = False\<rparr>,
     ha_status = \<lparr>ht_observedGeneration = 2, ht_attemptedRevision = [], ht_appliedRevision = [], ht_lastAttemptTime = None,
       ht_lastSuccessTime = None, ht_inventory = NilSlice, ht_conditions = Slice 1 1\<rparr>\<rparr>"

definition s_cond :: condition where
  "s_cond = mk_condition ''Ready'' ConditionTrue ''Reconciled'' [] 2 0"

definition s_heap :: "object_meta heap" where
  "s_heap = \<lparr>next_addr = 3, store = [0 \<mapsto> SecretRefCell ''creds'', 1 \<mapsto> ConditionsCell [s_cond], 2 \<mapsto> AppCell s_app_cell]\<rparr>"

definition s_runtime :: go_runtime where
  "s_runtime = \<lparr>spare_strings = \<lambda>n. [], spare_refs = \<lambda>n. [], spare_conditions = \<lambda>n. []\<rparr>"

lemma s_heap_facts:
  shows "wf_heap s_heap" and "store s_heap 2 = Some (AppCell s_app_cell)"
  and "\<exists>w sp st. view_ptr (app_view view_flat) get_app s_heap (Some 2) = Some (Some (w, sp, st))
    \<and> st_conditions (snd st) = [s_cond]"
  by (simp_all add: wf_heap_def s_heap_def view_ptr_def app_view_def app_parts_def s_app_cell_def view_pair_def view_flat_def
      spec_view_def status_view_def spec_parts_def status_parts_def slice_elems_def)

theorem deep_copy_shares_nothing_witness:
  "\<exists>q h'. GitApplication_DeepCopy s_runtime copy_flat s_heap (Some 2) = (Some q, h')
     \<and> reach_ptr (app_reach reach_flat) get_app h' (Some q) \<inter> reach_ptr (app_reach reach_flat) get_app s_heap (Some 2) = {}"
proof -
  obtain q h' where c: "GitApplication_DeepCopy s_runtime copy_flat s_heap (Some 2) = (q, h')"
    by (cases "GitApplication_DeepCopy s_runtime copy_flat s_heap (Some 2)")
  from s_heap_facts(3) obtain v where v: "view_ptr (app_view view_flat) get_app s_heap (Some 2) = Some v" by blast
  from deep_copy_shares_nothing [OF flat.copier_axioms s_heap_facts(1) v c]
  show ?thesis using c by auto
qed

text \<open>
  C39: The base of a status patch: after \<open>base := app.DeepCopy()\<close>, whatever conditions the writer sets on the
  application in place, the base keeps the value the application had, and the application has the conditions
  that \<open>setCondition\<close> of \<open>Status\<close> computes. So the patch says exactly what changed.
\<close>

theorem patch_base_unchanged:
  assumes "copier metaCopy mv mr" and "wf_heap h" and "store h p = Some (AppCell app)"
    and "app_view mv h app = Some (names, meta, spec, status)"
    and "GitApplication_DeepCopy g metaCopy h (Some p) = (base, h')"
  shows "view_ptr (app_view mv) get_app (foldl (app_setCondition g p) h' cs) base = Some (Some (names, meta, spec, status))
    \<and> (\<exists>s. store (foldl (app_setCondition g p) h' cs) p = Some (AppCell (app\<lparr>ha_status := (ha_status app)\<lparr>ht_conditions := s\<rparr>\<rparr>))
        \<and> slice_elems get_conditions (foldl (app_setCondition g p) h' cs) s = Some (foldl setCondition (st_conditions status) cs))"
proof -
  note c = copier_app_ptr [OF assms(1), of g]
  have v: "view_ptr (app_view mv) get_app h (Some p) = Some (Some (names, meta, spec, status))"
    using assms(3,4) by (simp add: view_ptr_Some)
  from copier.grows [OF c assms(2,5)] have g: "extends h h'" "wf_heap h'" by simp_all
  have p: "p < next_addr h" using assms(2,3) by (auto simp: wf_heap_def)
  from assms(4) have x: "slice_elems get_conditions h (ht_conditions (ha_status app)) = Some (st_conditions status)"
    by (auto simp: app_view_def app_parts_def view_pair_Some status_view_def status_parts_def)
  note b = slice_reach_below [OF assms(2) x]
  have e: "slice_reach h' (ht_conditions (ha_status app)) = slice_reach h (ht_conditions (ha_status app))"
    by (simp add: slice_reach_def)
  from b g(1) have "\<forall>y\<in>slice_reach h (ht_conditions (ha_status app)). store h' y = store h y" by (auto simp: extends_def)
  from slice_elems_kept [OF this, of get_conditions] x
  have x': "slice_elems get_conditions h' (ht_conditions (ha_status app)) = Some (st_conditions status)" by simp
  have p': "store h' p = Some (AppCell app)" using assms(3) p g(1) by (simp add: extends_def)
  have "slice_reach h' (ht_conditions (ha_status app)) \<subseteq> {..<next_addr h} \<union> {next_addr h'..}" using b e by auto
  from setConditions_refine [OF g(2) p' x' order_refl p this, of g cs] copier.copy_isolated [OF c assms(2) v assms(5)]
  show ?thesis by auto
qed

theorem patch_base_unchanged_witness:
  "\<exists>base h' v s app'. GitApplication_DeepCopy s_runtime copy_flat s_heap (Some 2) = (base, h')
     \<and> view_ptr (app_view view_flat) get_app (app_setCondition s_runtime 2 h' (s_cond\<lparr>cond_message := ''no''\<rparr>)) base
       = view_ptr (app_view view_flat) get_app s_heap (Some 2)
     \<and> store (app_setCondition s_runtime 2 h' (s_cond\<lparr>cond_message := ''no''\<rparr>)) 2 = Some (AppCell app')
     \<and> slice_elems get_conditions (app_setCondition s_runtime 2 h' (s_cond\<lparr>cond_message := ''no''\<rparr>))
         (ht_conditions (ha_status app')) = Some [s_cond\<lparr>cond_message := ''no''\<rparr>]"
proof -
  obtain q h' where c: "GitApplication_DeepCopy s_runtime copy_flat s_heap (Some 2) = (q, h')"
    by (cases "GitApplication_DeepCopy s_runtime copy_flat s_heap (Some 2)")
  from s_heap_facts(2,3) obtain names meta spec status
    where v: "app_view view_flat s_heap s_app_cell = Some (names, meta, spec, status)"
      and pv: "view_ptr (app_view view_flat) get_app s_heap (Some 2) = Some (Some (names, meta, spec, status))"
      and st: "st_conditions status = [s_cond]"
    by (auto simp: view_ptr_Some)
  from patch_base_unchanged [OF flat.copier_axioms s_heap_facts(1,2) v c, of "[s_cond\<lparr>cond_message := ''no''\<rparr>]"]
  show ?thesis using c pv st by (auto simp: s_cond_def mk_condition_def)
qed

text \<open>
  \<open>DeepCopy\<close> of a list copies every item as deeply, but the list's own metadata by assignment: where the list has
  a count of remaining items, the copy points to the same one, and a write through the copy is seen by the
  original.
\<close>

lemma list_copy_shares_meta:
  assumes "copier metaCopy mv mr" and "wf_heap h" and "store h p = Some (ListCell l)" and "list_view mv h l = Some v"
    and "GitApplicationList_DeepCopy g metaCopy h (Some p) = (q, h')"
  shows "\<exists>b l'. q = Some b \<and> store h' b = Some (ListCell l') \<and> list_view mv h' l' = Some v
    \<and> list_reach mr h' l' \<inter> list_reach mr h l = {}
    \<and> lm_remainingItemCount (hl_listMeta l') = lm_remainingItemCount (hl_listMeta l)"
proof -
  note c = copier_list [OF assms(1), of g]
  obtain l' h1 where cp: "GitApplicationList_DeepCopyInto g metaCopy h l = (l', h1)"
    by (cases "GitApplicationList_DeepCopyInto g metaCopy h l")
  with assms(3,5) obtain b where b: "q = Some b" "alloc (ListCell l') h1 = (b, h')"
    by (auto simp: GitApplicationList_DeepCopy_def copy_ptr_def split: prod.splits)
  note g = copier.grows [OF c assms(2) cp]
  note al = alloc_facts [OF b(2) conjunct2 [OF g]]
  note k = copier.kept_by_extension [OF c conjunct2 [OF g] copier.same [OF c assms(2,4) cp] al(3)]
  have "hl_listMeta l' = hl_listMeta l"
    using cp by (auto simp: GitApplicationList_DeepCopyInto_def split: prod.splits)
  moreover have "list_reach mr h' l' \<inter> list_reach mr h l = {}"
    using copier.fresh [OF c assms(2,4) cp] copier.below [OF c assms(2,4)] k(2) by auto
  ultimately show ?thesis using b(1) al(2) k(1) by auto
qed

theorem list_copy_shares_meta_witness:
  "\<exists>b h' l'. GitApplicationList_DeepCopy s_runtime copy_flat (s_heap\<lparr>next_addr := 6, store := (store s_heap)(3 \<mapsto> ItemsCell [s_app_cell],
       4 \<mapsto> CountCell 7, 5 \<mapsto> ListCell \<lparr>hl_kind = ''GitApplicationList'', hl_apiVersion = [], hl_listMeta =
         \<lparr>lm_resourceVersion = ''12'', lm_continue = ''x'', lm_remainingItemCount = Some 4\<rparr>, hl_items = Slice 3 1\<rparr>)\<rparr>) (Some 5) = (Some b, h')
     \<and> store h' b = Some (ListCell l') \<and> lm_remainingItemCount (hl_listMeta l') = Some 4"
proof -
  let ?l = "\<lparr>hl_kind = ''GitApplicationList'', hl_apiVersion = [], hl_listMeta =
      \<lparr>lm_resourceVersion = ''12'', lm_continue = ''x'', lm_remainingItemCount = Some 4\<rparr>, hl_items = Slice 3 1\<rparr>"
  let ?h = "s_heap\<lparr>next_addr := 6, store := (store s_heap)(3 \<mapsto> ItemsCell [s_app_cell], 4 \<mapsto> CountCell 7, 5 \<mapsto> ListCell ?l)\<rparr>"
  obtain q h' where c: "GitApplicationList_DeepCopy s_runtime copy_flat ?h (Some 5) = (q, h')"
    by (cases "GitApplicationList_DeepCopy s_runtime copy_flat ?h (Some 5)")
  have wf: "wf_heap ?h" by (auto simp: wf_heap_def s_heap_def)
  have "\<exists>v. list_view view_flat ?h ?l = Some v"
    by (simp add: list_view_def items_view_def slice_elems_def app_view_def app_parts_def s_app_cell_def view_pair_def
        view_flat_def spec_view_def status_view_def spec_parts_def status_parts_def view_ptr_def s_heap_def)
  then obtain v where v: "list_view view_flat ?h ?l = Some v" by blast
  have "store ?h 5 = Some (ListCell ?l)" by simp
  from list_copy_shares_meta [OF flat.copier_axioms wf this v c] c show ?thesis by auto
qed

end
