(* ===== verification/Spec2Isabelle.thy ===== *)
theory Spec2Isabelle
  imports Steady_State Tree_Fill Worker_Moves Process_Props Registration Deep_Copy_Props
begin

text \<open>
  Cabure is a GitOps operator for Kubernetes. For every custom resource \<open>GitApplication\<close> it checks a repository out,
  renders a directory of it as plain YAML or as a Helm chart, applies the objects with server-side apply, and deletes
  what an earlier revision applied and this one no longer has. This development models its Go code, file by file,
  and proves what its documentation promises, and where it does not keep the promise.

  \<^bold>\<open>How the program is put together.\<close> \<open>cmd/main.go\<close> reads the flags, builds the reconciler, and runs an informer, a
  work queue and workers, alone or under leader election. A worker calls \<open>Reconcile\<close> of
  \<open>internal/controller/gitapplication_controller.go\<close>, which reads the application, validates its specification,
  loads credentials from a secret, asks \<open>internal/git\<close> for a checkout, one of the renderers in \<open>internal/render\<close> for
  objects and \<open>internal/apply\<close> to normalise, validate and apply them, prunes with the help of \<open>internal/inventory\<close>,
  and writes the outcome into the status. The types are those of \<open>api/v1alpha1\<close>.

  \<^bold>\<open>The world.\<close> The API server, the operating system, git, the clock, the context and the work queue are answer
  functions in the record \<open>env\<close> of \<open>World\<close>; each may depend on the whole history of calls so far, so time passes,
  other actors interfere and every call can fail. A program is a state transformer over that history (the type
  \<open>prog\<close>, on the library's state monad), which appends each call with its answer. A safety property is therefore a
  statement about the calls that a run appends. Errors are the datatype \<open>gerror\<close>, results the sum type \<open>result\<close>;
  every early return of the source is a branch. Libraries outside the repository are parameters: the accessors of
  unstructured objects (\<open>uapi\<close>, with their documented laws in \<open>lawful_uapi\<close>), the YAML converter (\<open>yaml_lib\<close>), Helm
  (\<open>helm_lib\<close>), client-go's key functions and lock, the iteration order of a Go map (\<open>visits_all\<close>), and the deep
  copy of \<open>ObjectMeta\<close>. The theorems hold for every choice of these.

  \<^bold>\<open>The theories.\<close>
  \<^item> \<open>Prelude\<close>: errors, the effect logic (\<open>emits\<close>: what every call of a program satisfies; \<open>appends\<close>, and the locale
    \<open>trace_property\<close> for properties of traces that are closed under concatenation, with its instances \<open>guarded\<close>,
    \<open>answered\<close>, \<open>while_held\<close>; \<open>at_most\<close> for counting calls; \<open>ends_with\<close>), and stable sorting.
  \<^item> \<open>Go_Std\<close>, \<open>Go_Path\<close>, \<open>Go_Crypto\<close>: what the program uses of Go's \<open>strings\<close>, \<open>path/filepath\<close>, \<open>encoding/base64\<close>,
    \<open>encoding/hex\<close> and \<open>crypto/sha256\<close>, on bytes; case and white space are those of ASCII.
  \<^item> \<open>Api_Types\<close> and \<open>World\<close>: the custom resource and the outside; \<open>Samples\<close>: the world of the witnesses.
  \<^item> \<open>Inventory\<close> (\<open>Normalize\<close>, \<open>Equal\<close>, \<open>Diff\<close> of \<open>inventory.go\<close>), \<open>Apply_Objects\<close> (all of \<open>apply.go\<close>), \<open>Paths\<close>
    (\<open>path.go\<close> and the path checks of the controller), \<open>Validation\<close> (\<open>validateSpec\<close> and \<open>options.go\<close>), \<open>Status\<close>
    (conditions and the three status writers), \<open>Credentials\<close> (\<open>loadCredentials\<close>), \<open>Controller\<close> (\<open>Reconcile\<close>, with its
    consecutive parts as definitions of their own, and \<open>prune\<close>).
  \<^item> \<open>Prune_Trace\<close>, \<open>Reconcile_Facts\<close>, \<open>Reconcile_Reports\<close>: how the steps of \<open>Reconcile\<close> compose; \<open>Reconcile_Props\<close>: the
    properties of its runs, for every checkouter and renderer that works locally (\<open>well_behaved\<close>); \<open>Steady_State\<close>:
    what one reconcile leaves for the next.
  \<^item> \<open>Git\<close>: \<open>repository.go\<close>: authentication, the mirror and its recovery, revisions, lock files, checkouts. \<open>Git_Lock\<close>,
    \<open>Git_Props\<close>, \<open>Git_Safety\<close>, \<open>Git_Recovery\<close>: its lemmas; \<open>Checkout_Props\<close> and \<open>Git_Auth_Props\<close>: its properties.
  \<^item> \<open>Render_Facts\<close>, \<open>Yaml_Render\<close>, \<open>Yaml_Props\<close>, \<open>Helm_Values\<close>, \<open>Helm_Render\<close>, \<open>Helm_Props\<close>: \<open>yaml.go\<close> and \<open>helm.go\<close>.
  \<^item> \<open>Operator\<close>: the functions of \<open>cmd/main.go\<close>; \<open>Operator_Props\<close>: the wired reconciler is \<open>well_behaved\<close>, and the end to
    end property; \<open>Worker_Props\<close>: flags, queue and workers; \<open>Servers\<close>: the two HTTP servers; \<open>Process\<close>: \<open>main\<close>, \<open>run\<close> and
    leader election as a step relation over the state of the process, with its invariant; \<open>Process_Props\<close>: readiness,
    exit statuses, and the end of the process; \<open>Worker_Moves\<close>: the workers of \<open>Process\<close> are those of \<open>Operator\<close>;
    \<open>Registration\<close>: the API group and \<open>SetupWithManager\<close>.
  \<^item> \<open>Interleaving\<close>: several runs at once, and a resource that one of them has at a time, as the locale
    \<open>shared_resource\<close>; \<open>Concurrent_Props\<close>: its instances, the mirror's lock and the keys of the work queue;
    \<open>Tree_Fill\<close>: the lock of a commit's directory.
  \<^item> \<open>Go_Heap\<close>, \<open>Deep_Copy\<close>, \<open>Deep_Copy_Props\<close>: the deep copies of \<open>gitapplication_types.go\<close> on a heap, with the contract
    of a copy as the locale \<open>copier\<close>, and \<open>setCondition\<close> in memory, which refines the one of \<open>Status\<close>.
\<close>

text \<open>
  \<^bold>\<open>What is shown.\<close> Of the reconciler: cluster objects are changed only for an active, valid application whose whole
  batch normalised; deletes only hit objects with this application's mark, and come after the whole batch was
  applied; success means that the cluster and the status agree with one commit, end to end from the repository;
  secrets come from the application's namespace; every active run ends with a status that tells its outcome; the
  inventory changes only on success, and nothing that stays in the repository is deleted by the next run. Of
  the repository cache: the directory and commit it returns, mutual exclusion on the mirror, that a commit's directory is filled once, that key files are
  private and removed, that locks are released, and that a checkout returns. Of the renderers: that the YAML
  renderer computes a pure function of the files, that both name only paths inside the checkout and stop when the context
  is done. Of the process: readiness, exit statuses, that it ends, the work queue's protocol, that its workers move as
  the code of the worker does, and that applications come back. Of everything at once: in every interleaving, checkouts change a mirror, and workers reconcile an
  application, one after the other. Of the deep copies: no sharing. Beside these stand theorems that pin down behaviour that is not what was meant: the
  attempted revision is never patched, a version change makes an object stale, a third values file replaces maps,
  chart notes break rendering, leader election abandons workers, and a server that cannot listen ends the process
  with status 0.

  \<^bold>\<open>Bounds and fuel.\<close> \<open>lock_loop\<close>, the retry loop of \<open>withLock\<close>, takes fuel and answers \<open>None\<close> when it runs out; with a
  clock that advances at least by what is slept, 302 attempts of 100 ms are more than the 30 s deadline allows, so
  302 is enough for the clock of every such world (\<open>checkout_returns\<close>). \<open>repo_checkout\<close> turns running out of fuel into
  an error. \<open>runWorker\<close> takes fuel for its rounds, as many as the queue is asked (\<open>worker_returns\<close>); \<open>runner_stops\<close>
  and \<open>process_ends\<close> bound the steps of \<open>run\<close> and of the process. All other recursions are structural. Durations and times are integers in nanoseconds,
  sizes natural numbers: none of the source's arithmetic comes near the bounds of 64 bits.

  \<^bold>\<open>Not modelled.\<close> Logging, the contents of the metrics; of the parsing of flags only the outcome is there (parsed, help,
  wrong). The clients that \<open>newOperatorRunner\<close> makes are the answers of \<open>env\<close>, of their making only the errors and
  panics are there; the interface of the renderers (\<open>render.go\<close>); the Helm chart and the
  manifests that deploy the operator. A walk of a directory sees the tree as it was at one moment; file contents
  can change between reads. Helm's loader is one call on the chart's directory: the files that it opens below, and the
  targets of symbolic links, are not seen. What the REST mapper answers leaves no trace.
  \<open>shellQuote\<close> copies bytes that are not valid UTF-8, which Go's \<open>%q\<close> escapes. Panics appear as an outcome of the
  reconciler that the worker recovers from, and of the constructors of clients that end the process. That a
  reconcile which has begun comes to its end is an assumption of the end of the process. The leases of leader
  election are client-go's: a process is elected, and loses its lease, at any time.
\<close>

end
